(* ===== verification/Prelude.thy ===== *)
theory Prelude
  imports Main "HOL-Library.State_Monad" "HOL-Library.Multiset" "HOL-Library.Sublist"
    "HOL-Library.Char_ord" "HOL-Library.List_Lexorder" "HOL-Library.Product_Lexorder"
begin

text \<open>
  Shared vocabulary of the development: Go errors, the 64-bit wrap-around of Go's \<open>int\<close>, time
  stamps, the state monad in which every method that performs I/O is written, and the
  simulation rules (collection \<open>sim_intro\<close>) that move a whole method from one store
  to its abstraction.
\<close>

named_theorems sim_intro \<open>introduction rules for simulation between state transformers\<close>
named_theorems keep_intro \<open>introduction rules for invariants of state transformers\<close>
named_theorems key_simps \<open>distinctness and injectivity of the names of stored objects\<close>

section \<open>Machine integers and time\<close>

text \<open>Go's \<open>int\<close> and \<open>time.Duration\<close> are 64-bit two's complement numbers.\<close>

definition wrap64 :: "int \<Rightarrow> int" where
  "wrap64 n = (n + 2 ^ 63) mod 2 ^ 64 - 2 ^ 63"

lemma wrap64_id: "- (2 ^ 63) \<le> n \<Longrightarrow> n < 2 ^ 63 \<Longrightarrow> wrap64 n = n"
  by (simp add: wrap64_def)

lemma wrap64_range: "- (2 ^ 63) \<le> wrap64 n" "wrap64 n < 2 ^ 63"
proof -
  have "0 \<le> (n + 2 ^ 63) mod 2 ^ 64" "(n + 2 ^ 63) mod 2 ^ 64 < (2 ^ 64 :: int)"
    by (simp_all only: pos_mod_sign pos_mod_bound zero_less_power zero_less_numeral)
  then show "- (2 ^ 63) \<le> wrap64 n" "wrap64 n < 2 ^ 63"
    by (simp_all add: wrap64_def)
qed

lemma wrap64_over:
  assumes "2 ^ 63 \<le> n" "n < 2 ^ 63 + 2 ^ 64"
  shows "wrap64 n = n - 2 ^ 64"
proof -
  have "(n + 2 ^ 63) mod 2 ^ 64 = (n + 2 ^ 63 - 2 ^ 64) mod (2 ^ 64 :: int)"
    by (simp only: minus_mod_self2)
  also have "\<dots> = n + 2 ^ 63 - 2 ^ 64" using assms by (intro mod_pos_pos_trivial) simp_all
  finally show ?thesis by (simp add: wrap64_def)
qed

text \<open>An instant is its distance from the Unix epoch in nanoseconds; \<open>Unix\<close> is
  \<open>time.Time.Unix\<close>, the whole seconds, rounded down.\<close>

type_synonym instant = int
type_synonym duration = int

definition Second :: duration where "Second = 1000000000"
definition Millisecond :: duration where "Millisecond = 1000000"

definition Unix :: "instant \<Rightarrow> int" where
  "Unix t = t div Second"

text \<open>The zero value of \<open>time.Time\<close>: January 1 of year 1.\<close>

definition zeroTime :: instant where
  "zeroTime = - 62135596800 * Second"

lemma Unix_mono: "s \<le> t \<Longrightarrow> Unix s \<le> Unix t"
  by (simp add: Unix_def Second_def zdiv_mono1)

lemma Unix_add_seconds: "Unix (t + n * Second) = Unix t + n"
  by (simp add: Unix_def Second_def)

section \<open>Errors\<close>

text \<open>
  Go errors as the sources build them: a plain text (\<open>errors.New\<close>, \<open>fmt.Errorf\<close> without
  \<open>%w\<close>), a text wrapped around another error (\<open>fmt.Errorf\<close> with \<open>%w\<close> at the end), and the
  errors the storage clients and the context package hand out.
\<close>

datatype goerr =
    ErrorString string
  | WrapError string goerr
  | RedisNil
  | RedisError string
  | NetError
  | PgError string string
  | ErrNoRows
  | CtxErr string

fun Error :: "goerr \<Rightarrow> string" where
  "Error (ErrorString s) = s"
| "Error (WrapError p e) = p @ Error e"
| "Error RedisNil = ''redis: nil''"
| "Error (RedisError s) = s"
| "Error NetError = ''connection failed''"
| "Error (PgError code msg) = msg"
| "Error ErrNoRows = ''no rows in result set''"
| "Error (CtxErr s) = s"

text \<open>The innermost error of a chain of wraps, as \<open>errors.Is\<close> and \<open>errors.As\<close> reach it.\<close>

fun cause :: "goerr \<Rightarrow> goerr" where
  "cause (WrapError p e) = cause e"
| "cause e = e"

text \<open>
  The \<open>%q\<close> verb of package fmt: a double-quoted Go string literal. Bytes outside ASCII belong
  to multi-byte characters, which are printed unchanged.
\<close>

definition hex_digit :: "nat \<Rightarrow> char" where
  "hex_digit n = (if n < 10 then char_of (48 + n) else char_of (87 + n))"

definition quote_char :: "char \<Rightarrow> string" where
  "quote_char c =
     (let n = of_char c :: nat in
      if n = 0x22 then [CHR 0x5C, CHR 0x22]
      else if n = 0x5C then [CHR 0x5C, CHR 0x5C]
      else if n = 7 then [CHR 0x5C, CHR ''a'']
      else if n = 8 then [CHR 0x5C, CHR ''b'']
      else if n = 9 then [CHR 0x5C, CHR ''t'']
      else if n = 10 then [CHR 0x5C, CHR ''n'']
      else if n = 11 then [CHR 0x5C, CHR ''v'']
      else if n = 12 then [CHR 0x5C, CHR ''f'']
      else if n = 13 then [CHR 0x5C, CHR ''r'']
      else if n < 0x20 \<or> n = 0x7F
        then [CHR 0x5C, CHR ''x'', hex_digit (n div 16), hex_digit (n mod 16)]
      else [c])"

definition go_quote :: "string \<Rightarrow> string" where
  "go_quote s = [CHR 0x22] @ concat (map quote_char s) @ [CHR 0x22]"

section \<open>State transformers\<close>

text \<open>
  \<open>sim v m n\<close>: run on the image under \<open>v\<close> of any state, \<open>n\<close> returns what \<open>m\<close>
  returns and ends in the image of the state \<open>m\<close> ends in.
\<close>

definition sim :: "('a \<Rightarrow> 'b) \<Rightarrow> ('a, 'x) state \<Rightarrow> ('b, 'x) state \<Rightarrow> bool" where
  "sim v m n \<longleftrightarrow> (\<forall>s. run_state n (v s) = apsnd v (run_state m s))"

lemma simI: "(\<And>s. run_state n (v s) = apsnd v (run_state m s)) \<Longrightarrow> sim v m n"
  by (simp add: sim_def)

lemma sim_fst: "sim v m n \<Longrightarrow> fst (run_state m s) = fst (run_state n (v s))"
  by (simp add: sim_def)

lemma sim_snd: "sim v m n \<Longrightarrow> v (snd (run_state m s)) = snd (run_state n (v s))"
  by (simp add: sim_def)

lemma sim_return [sim_intro]: "sim v (State_Monad.return x) (State_Monad.return x)"
  by (simp add: sim_def)

lemma sim_bind [sim_intro]:
  assumes "sim v m n" "\<And>x. sim v (f x) (g x)"
  shows "sim v (State_Monad.bind m f) (State_Monad.bind n g)"
  using assms by (simp add: sim_def split_beta)

lemma sim_case_sum [sim_intro]:
  assumes "\<And>e. sim v (f e) (f' e)" "\<And>x. sim v (g x) (g' x)"
  shows "sim v (case r of Inl e \<Rightarrow> f e | Inr x \<Rightarrow> g x) (case r of Inl e \<Rightarrow> f' e | Inr x \<Rightarrow> g' x)"
  using assms by (cases r) simp_all

lemma sim_case_option [sim_intro]:
  assumes "sim v f f'" "\<And>x. sim v (g x) (g' x)"
  shows "sim v (case r of None \<Rightarrow> f | Some x \<Rightarrow> g x) (case r of None \<Rightarrow> f' | Some x \<Rightarrow> g' x)"
  using assms by (cases r) simp_all

lemma sim_if [sim_intro]:
  assumes "sim v f f'" "sim v g g'"
  shows "sim v (if b then f else g) (if b then f' else g')"
  using assms by simp

text \<open>\<open>keeps P m\<close>: running \<open>m\<close> preserves the invariant \<open>P\<close> of the state.\<close>

definition keeps :: "('s \<Rightarrow> bool) \<Rightarrow> ('s, 'a) state \<Rightarrow> bool" where
  "keeps P m \<longleftrightarrow> (\<forall>s. P s \<longrightarrow> P (snd (run_state m s)))"

lemma keepsI: "(\<And>s. P s \<Longrightarrow> P (snd (run_state m s))) \<Longrightarrow> keeps P m"
  by (simp add: keeps_def)

lemma keepsD: "keeps P m \<Longrightarrow> P s \<Longrightarrow> P (snd (run_state m s))"
  by (simp add: keeps_def)

lemma keeps_run: "keeps P m \<Longrightarrow> P s \<Longrightarrow> run_state m s = (x, s') \<Longrightarrow> P s'"
  by (auto simp: keeps_def)

lemma keeps_return [keep_intro]: "keeps P (State_Monad.return x)"
  by (simp add: keeps_def)

lemma keeps_bind [keep_intro]:
  assumes "keeps P m" "\<And>x. keeps P (f x)"
  shows "keeps P (State_Monad.bind m f)"
  using assms by (simp add: keeps_def split_beta)

lemma keeps_case_sum [keep_intro]:
  assumes "\<And>e. keeps P (f e)" "\<And>x. keeps P (g x)"
  shows "keeps P (case r of Inl e \<Rightarrow> f e | Inr x \<Rightarrow> g x)"
  using assms by (cases r) simp_all

lemma keeps_case_option [keep_intro]:
  assumes "keeps P f" "\<And>x. keeps P (g x)"
  shows "keeps P (case r of None \<Rightarrow> f | Some x \<Rightarrow> g x)"
  using assms by (cases r) simp_all

lemma keeps_if [keep_intro]: "keeps P f \<Longrightarrow> keeps P g \<Longrightarrow> keeps P (if b then f else g)"
  by simp

lemma keeps_sim: "sim v m n \<Longrightarrow> keeps P n \<Longrightarrow> keeps (\<lambda>s. P (v s)) m"
  by (simp add: keeps_def sim_snd)

text \<open>A step that may fail with a server error stops the script it is part of.\<close>

definition bindE :: "('s, 'e + 'a) state \<Rightarrow> ('a \<Rightarrow> ('s, 'e + 'b) state) \<Rightarrow> ('s, 'e + 'b) state" where
  "bindE m f = do { r \<leftarrow> m; case r of Inl e \<Rightarrow> State_Monad.return (Inl e) | Inr x \<Rightarrow> f x }"

lemma sim_bindE [sim_intro]:
  assumes "sim v m n" "\<And>x. sim v (f x) (g x)"
  shows "sim v (bindE m f) (bindE n g)"
  unfolding bindE_def by (intro sim_intro assms)

lemma keeps_bindE [keep_intro]:
  assumes "keeps P m" "\<And>x. keeps P (f x)"
  shows "keeps P (bindE m f)"
  unfolding bindE_def by (intro keep_intro assms)

lemma run_bindE [simp]:
  "run_state (bindE m f) s =
     (case run_state m s of (Inl e, s') \<Rightarrow> (Inl e, s') | (Inr x, s') \<Rightarrow> run_state (f x) s')"
  by (simp add: bindE_def split: sum.split prod.split)

section \<open>The environment of a call\<close>

text \<open>
  The wall clock: \<open>time.Now\<close> returns the current reading, and the clock advances by the next
  entry of \<open>ticks\<close> before the program looks at it again (not at all once the list is
  used up).
\<close>

record env =
  clock :: instant
  ticks :: "nat list"

definition time_Now :: "('z env_scheme, instant) state" where
  "time_Now = State (\<lambda>w. (clock w,
     w\<lparr>clock := clock w + int (case ticks w of [] \<Rightarrow> 0 | d # _ \<Rightarrow> d), ticks := tl (ticks w)\<rparr>))"

lemma fst_time_Now [simp]: "fst (run_state time_Now w) = clock w"
  by (simp add: time_Now_def)

section \<open>Lists\<close>

text \<open>Remove the first \<open>n\<close> occurrences of a value.\<close>

fun remove_n :: "nat \<Rightarrow> 'a \<Rightarrow> 'a list \<Rightarrow> 'a list" where
  "remove_n 0 x ys = ys"
| "remove_n (Suc n) x [] = []"
| "remove_n (Suc n) x (y # ys) = (if x = y then remove_n n x ys else y # remove_n (Suc n) x ys)"

lemma remove_n_1: "remove_n (Suc 0) x ys = remove1 x ys"
  by (induction ys) auto

lemma length_remove_n: "length (remove_n n x ys) = length ys - min n (count_list ys x)"
proof (induction n x ys rule: remove_n.induct)
  case (3 n x y ys)
  have "count_list ys x \<le> length ys" by (rule count_le_length)
  with 3 show ?case by (auto simp: Suc_diff_le)
qed simp_all

lemma count_list_removeAll: "count_list (removeAll y xs) x = (if x = y then 0 else count_list xs x)"
  by (induction xs) auto

lemma count_list_remove1: "count_list (remove1 y xs) x = count_list xs x - (if x = y then 1 else 0)"
  by (induction xs) (auto simp: count_list_0_iff)

end
