(* ===== verification/Redis_Server.thy ===== *)
theory Redis_Server
  imports Prelude "HOL-Library.AList"
begin

text \<open>
  The interface to the Redis server. The server itself is not part of the repository: its
  commands are the fields of a record \<open>redis_cmds\<close>, an argument of every
  definition that talks to Redis, and what the code relies on is the locale
  \<open>redis_server\<close>: under an abstraction \<open>view\<close> of the server's state to
  a keyspace, each command does what its documentation says (the functions \<open>doc_...\<close>).
  \<open>mem_redis\<close>, a server over an association list, interprets the locale.
\<close>

section \<open>Keyspaces and commands\<close>

text \<open>A key holds a string, a list or a sorted set; a sorted set is listed by score and,
  for equal scores, by member, as Redis orders it.\<close>

type_synonym zset = "(int \<times> string) list"
datatype rvalue = RStr string | RList "string list" | RZset zset
type_synonym keyspace = "string \<rightharpoonup> rvalue"
type_synonym redis_err = string
type_synonym ('k, 'a) cmd = "('k, redis_err + 'a) state"

definition WRONGTYPE :: redis_err where
  "WRONGTYPE = ''WRONGTYPE Operation against a key holding the wrong kind of value''"

record 'k redis_cmds =
  SET :: "string \<Rightarrow> string \<Rightarrow> ('k, unit) cmd"
  GET :: "string \<Rightarrow> ('k, string option) cmd"
  DEL :: "string \<Rightarrow> ('k, nat) cmd"
  LPUSH :: "string \<Rightarrow> string \<Rightarrow> ('k, nat) cmd"
  RPOP :: "string \<Rightarrow> ('k, string option) cmd"
  LREM :: "string \<Rightarrow> int \<Rightarrow> string \<Rightarrow> ('k, nat) cmd"
  LRANGE :: "string \<Rightarrow> int \<Rightarrow> int \<Rightarrow> ('k, string list) cmd"
  LLEN :: "string \<Rightarrow> ('k, nat) cmd"
  ZADD :: "string \<Rightarrow> int \<Rightarrow> string \<Rightarrow> ('k, nat) cmd"
  ZREM :: "string \<Rightarrow> string \<Rightarrow> ('k, nat) cmd"
  ZRANGE :: "string \<Rightarrow> int \<Rightarrow> int \<Rightarrow> ('k, string list) cmd"
  ZRANGEBYSCORE :: "string \<Rightarrow> int \<Rightarrow> ('k, string list) cmd"
  ZCARD :: "string \<Rightarrow> ('k, nat) cmd"
  SCAN :: "string \<Rightarrow> ('k, string list) cmd"

section \<open>Documented behaviour\<close>

text \<open>Redis drops a key whose list or sorted set has become empty.\<close>

definition put :: "string \<Rightarrow> rvalue \<Rightarrow> keyspace \<Rightarrow> keyspace" where
  "put k v ks = ks(k := if v = RList [] \<or> v = RZset [] then None else Some v)"

definition on_list :: "string \<Rightarrow> (string list \<Rightarrow> 'a \<times> string list) \<Rightarrow> (keyspace, 'a) cmd" where
  "on_list k f = State (\<lambda>ks. case ks k of
       None \<Rightarrow> (let (r, xs') = f [] in (Inr r, put k (RList xs') ks))
     | Some (RList xs) \<Rightarrow> (let (r, xs') = f xs in (Inr r, put k (RList xs') ks))
     | Some _ \<Rightarrow> (Inl WRONGTYPE, ks))"

definition on_zset :: "string \<Rightarrow> (zset \<Rightarrow> 'a \<times> zset) \<Rightarrow> (keyspace, 'a) cmd" where
  "on_zset k f = State (\<lambda>ks. case ks k of
       None \<Rightarrow> (let (r, z') = f [] in (Inr r, put k (RZset z') ks))
     | Some (RZset z) \<Rightarrow> (let (r, z') = f z in (Inr r, put k (RZset z') ks))
     | Some _ \<Rightarrow> (Inl WRONGTYPE, ks))"

definition read_list :: "string \<Rightarrow> (string list \<Rightarrow> 'a) \<Rightarrow> (keyspace, 'a) cmd" where
  "read_list k f = State (\<lambda>ks. case ks k of
       None \<Rightarrow> (Inr (f []), ks) | Some (RList xs) \<Rightarrow> (Inr (f xs), ks) | Some _ \<Rightarrow> (Inl WRONGTYPE, ks))"

definition read_zset :: "string \<Rightarrow> (zset \<Rightarrow> 'a) \<Rightarrow> (keyspace, 'a) cmd" where
  "read_zset k f = State (\<lambda>ks. case ks k of
       None \<Rightarrow> (Inr (f []), ks) | Some (RZset z) \<Rightarrow> (Inr (f z), ks) | Some _ \<Rightarrow> (Inl WRONGTYPE, ks))"

text \<open>Index ranges of LRANGE and ZRANGE: both ends included, negative ones from the end.\<close>

definition index_range :: "int \<Rightarrow> int \<Rightarrow> 'a list \<Rightarrow> 'a list" where
  "index_range start stop xs =
     (let n = int (length xs);
          i = max 0 (if start < 0 then n + start else start);
          j = (if stop < 0 then n + stop else stop)
      in take (nat (j - i + 1)) (drop (nat i) xs))"

definition zadd :: "int \<Rightarrow> string \<Rightarrow> zset \<Rightarrow> zset" where
  "zadd sc m z = insort (sc, m) (filter (\<lambda>p. snd p \<noteq> m) z)"

definition zrem :: "string \<Rightarrow> zset \<Rightarrow> zset" where
  "zrem m z = filter (\<lambda>p. snd p \<noteq> m) z"

definition members :: "zset \<Rightarrow> string list" where
  "members z = map snd z"

definition zmem :: "string \<Rightarrow> zset \<Rightarrow> bool" where
  "zmem m z \<longleftrightarrow> m \<in> set (members z)"

definition lrem :: "int \<Rightarrow> string \<Rightarrow> string list \<Rightarrow> string list" where
  "lrem n x xs =
     (if n = 0 then removeAll x xs
      else if 0 < n then remove_n (nat n) x xs
      else rev (remove_n (nat (- n)) x (rev xs)))"

definition doc_SET :: "string \<Rightarrow> string \<Rightarrow> (keyspace, unit) cmd" where
  "doc_SET k v = State (\<lambda>ks. (Inr (), ks(k \<mapsto> RStr v)))"

definition doc_GET :: "string \<Rightarrow> (keyspace, string option) cmd" where
  "doc_GET k = State (\<lambda>ks. case ks k of
       None \<Rightarrow> (Inr None, ks) | Some (RStr v) \<Rightarrow> (Inr (Some v), ks) | Some _ \<Rightarrow> (Inl WRONGTYPE, ks))"

definition doc_DEL :: "string \<Rightarrow> (keyspace, nat) cmd" where
  "doc_DEL k = State (\<lambda>ks. (Inr (if ks k = None then 0 else 1), ks(k := None)))"

definition doc_LPUSH :: "string \<Rightarrow> string \<Rightarrow> (keyspace, nat) cmd" where
  "doc_LPUSH k x = on_list k (\<lambda>xs. (Suc (length xs), x # xs))"

definition doc_RPOP :: "string \<Rightarrow> (keyspace, string option) cmd" where
  "doc_RPOP k = on_list k (\<lambda>xs. if xs = [] then (None, []) else (Some (last xs), butlast xs))"

definition doc_LREM :: "string \<Rightarrow> int \<Rightarrow> string \<Rightarrow> (keyspace, nat) cmd" where
  "doc_LREM k n x = on_list k (\<lambda>xs. (length xs - length (lrem n x xs), lrem n x xs))"

definition doc_LRANGE :: "string \<Rightarrow> int \<Rightarrow> int \<Rightarrow> (keyspace, string list) cmd" where
  "doc_LRANGE k i j = read_list k (index_range i j)"

definition doc_LLEN :: "string \<Rightarrow> (keyspace, nat) cmd" where
  "doc_LLEN k = read_list k length"

definition doc_ZADD :: "string \<Rightarrow> int \<Rightarrow> string \<Rightarrow> (keyspace, nat) cmd" where
  "doc_ZADD k sc m = on_zset k (\<lambda>z. (if zmem m z then 0 else 1, zadd sc m z))"

definition doc_ZREM :: "string \<Rightarrow> string \<Rightarrow> (keyspace, nat) cmd" where
  "doc_ZREM k m = on_zset k (\<lambda>z. (if zmem m z then 1 else 0, zrem m z))"

definition doc_ZRANGE :: "string \<Rightarrow> int \<Rightarrow> int \<Rightarrow> (keyspace, string list) cmd" where
  "doc_ZRANGE k i j = read_zset k (\<lambda>z. index_range i j (members z))"

definition doc_ZRANGEBYSCORE :: "string \<Rightarrow> int \<Rightarrow> (keyspace, string list) cmd" where
  "doc_ZRANGEBYSCORE k mx = read_zset k (\<lambda>z. members (filter (\<lambda>p. fst p \<le> mx) z))"

definition doc_ZCARD :: "string \<Rightarrow> (keyspace, nat) cmd" where
  "doc_ZCARD k = read_zset k length"

text \<open>The server whose state is the keyspace itself. The order in which SCAN meets the keys,
  and how often, is left open: it is the argument.\<close>

definition redis_doc :: "(string \<Rightarrow> (keyspace, string list) cmd) \<Rightarrow> keyspace redis_cmds" where
  "redis_doc sc = \<lparr> SET = doc_SET, GET = doc_GET, DEL = doc_DEL, LPUSH = doc_LPUSH, RPOP = doc_RPOP,
     LREM = doc_LREM, LRANGE = doc_LRANGE, LLEN = doc_LLEN, ZADD = doc_ZADD, ZREM = doc_ZREM,
     ZRANGE = doc_ZRANGE, ZRANGEBYSCORE = doc_ZRANGEBYSCORE, ZCARD = doc_ZCARD, SCAN = sc \<rparr>"

lemma redis_doc_sel [simp]:
  "SET (redis_doc sc) = doc_SET" "GET (redis_doc sc) = doc_GET" "DEL (redis_doc sc) = doc_DEL"
  "LPUSH (redis_doc sc) = doc_LPUSH" "RPOP (redis_doc sc) = doc_RPOP"
  "LREM (redis_doc sc) = doc_LREM" "LRANGE (redis_doc sc) = doc_LRANGE"
  "LLEN (redis_doc sc) = doc_LLEN" "ZADD (redis_doc sc) = doc_ZADD"
  "ZREM (redis_doc sc) = doc_ZREM" "ZRANGE (redis_doc sc) = doc_ZRANGE"
  "ZRANGEBYSCORE (redis_doc sc) = doc_ZRANGEBYSCORE" "ZCARD (redis_doc sc) = doc_ZCARD"
  "SCAN (redis_doc sc) = sc"
  by (simp_all add: redis_doc_def)

lemmas doc_list_cmds = doc_LPUSH_def doc_RPOP_def doc_LREM_def doc_LRANGE_def doc_LLEN_def
lemmas doc_zset_cmds = doc_ZADD_def doc_ZREM_def doc_ZRANGE_def doc_ZRANGEBYSCORE_def doc_ZCARD_def

text \<open>Glob patterns: the sources scan for a fixed prefix followed by one star.\<close>

definition glob_free :: "string \<Rightarrow> bool" where
  "glob_free p \<longleftrightarrow> (\<forall>c \<in> set p. c \<notin> set [CHR ''*'', CHR ''?'', CHR ''['', CHR '']'', CHR 0x5C, CHR ''^''])"

locale redis_server =
  fixes R :: "'k redis_cmds" and view :: "'k \<Rightarrow> keyspace"
  assumes SET_law: "sim view (SET R k v) (doc_SET k v)"
    and GET_law: "sim view (GET R k) (doc_GET k)"
    and DEL_law: "sim view (DEL R k) (doc_DEL k)"
    and LPUSH_law: "sim view (LPUSH R k x) (doc_LPUSH k x)"
    and RPOP_law: "sim view (RPOP R k) (doc_RPOP k)"
    and LREM_law: "sim view (LREM R k n x) (doc_LREM k n x)"
    and LRANGE_law: "sim view (LRANGE R k i j) (doc_LRANGE k i j)"
    and LLEN_law: "sim view (LLEN R k) (doc_LLEN k)"
    and ZADD_law: "sim view (ZADD R k sc m) (doc_ZADD k sc m)"
    and ZREM_law: "sim view (ZREM R k m) (doc_ZREM k m)"
    and ZRANGE_law: "sim view (ZRANGE R k i j) (doc_ZRANGE k i j)"
    and ZRANGEBYSCORE_law: "sim view (ZRANGEBYSCORE R k mx) (doc_ZRANGEBYSCORE k mx)"
    and ZCARD_law: "sim view (ZCARD R k) (doc_ZCARD k)"
    and SCAN_law: "glob_free p \<Longrightarrow> \<exists>keys. fst (run_state (SCAN R (p @ ''*'')) s) = Inr keys
          \<and> set keys = {k \<in> dom (view s). prefix p k}"
    and SCAN_pure: "view (snd (run_state (SCAN R pat) s)) = view s"
begin

lemmas server_sim = SET_law GET_law DEL_law LPUSH_law RPOP_law LREM_law LRANGE_law LLEN_law
  ZADD_law ZREM_law ZRANGE_law ZRANGEBYSCORE_law ZCARD_law

end

section \<open>A server over an association list\<close>

type_synonym mem_state = "(string \<times> rvalue) list"

text \<open>Run a command on the keyspace an association list stands for and store the new value
  of the one key the command may change.\<close>

definition mem_lift :: "string \<Rightarrow> (keyspace, 'a) cmd \<Rightarrow> (mem_state, 'a) cmd" where
  "mem_lift k m = State (\<lambda>al. let (r, ks) = run_state m (map_of al) in
     (r, case ks k of None \<Rightarrow> AList.delete k al | Some v \<Rightarrow> AList.update k v al))"

definition mem_SCAN :: "string \<Rightarrow> (mem_state, string list) cmd" where
  "mem_SCAN pat = State (\<lambda>al. (Inr (filter (prefix (butlast pat)) (remdups (map fst al))), al))"

definition mem_redis :: "mem_state redis_cmds" where
  "mem_redis = \<lparr> SET = (\<lambda>k v. mem_lift k (doc_SET k v)), GET = (\<lambda>k. mem_lift k (doc_GET k)),
     DEL = (\<lambda>k. mem_lift k (doc_DEL k)), LPUSH = (\<lambda>k x. mem_lift k (doc_LPUSH k x)),
     RPOP = (\<lambda>k. mem_lift k (doc_RPOP k)), LREM = (\<lambda>k n x. mem_lift k (doc_LREM k n x)),
     LRANGE = (\<lambda>k i j. mem_lift k (doc_LRANGE k i j)), LLEN = (\<lambda>k. mem_lift k (doc_LLEN k)),
     ZADD = (\<lambda>k sc m. mem_lift k (doc_ZADD k sc m)), ZREM = (\<lambda>k m. mem_lift k (doc_ZREM k m)),
     ZRANGE = (\<lambda>k i j. mem_lift k (doc_ZRANGE k i j)),
     ZRANGEBYSCORE = (\<lambda>k mx. mem_lift k (doc_ZRANGEBYSCORE k mx)),
     ZCARD = (\<lambda>k. mem_lift k (doc_ZCARD k)), SCAN = mem_SCAN \<rparr>"

text \<open>A command that changes at most the key \<open>k\<close>.\<close>

definition only_key :: "string \<Rightarrow> (keyspace, 'a) state \<Rightarrow> bool" where
  "only_key k m \<longleftrightarrow> (\<forall>ks k'. k' \<noteq> k \<longrightarrow> snd (run_state m ks) k' = ks k')"

lemma mem_lift_sim: "only_key k m \<Longrightarrow> sim map_of (mem_lift k m) m"
  by (rule simI)
    (auto simp: mem_lift_def only_key_def split_beta fun_eq_iff prod_eq_iff
      AList.update_conv' AList.delete_conv' split: option.splits)

lemma only_key_on_list: "only_key k (on_list k f)"
  by (auto simp: only_key_def on_list_def put_def split_beta split: option.splits rvalue.splits)

lemma only_key_on_zset: "only_key k (on_zset k f)"
  by (auto simp: only_key_def on_zset_def put_def split_beta split: option.splits rvalue.splits)

lemma only_key_reads: "only_key k (read_list k f)" "only_key k (read_zset k g)"
  by (auto simp: only_key_def read_list_def read_zset_def split: option.splits rvalue.splits)

lemma only_key_string_cmds:
  "only_key k (doc_SET k v)" "only_key k (doc_GET k)" "only_key k (doc_DEL k)"
  by (auto simp: only_key_def doc_SET_def doc_GET_def doc_DEL_def split: option.splits rvalue.splits)

lemmas only_key_cmds = only_key_on_list only_key_on_zset only_key_reads only_key_string_cmds

interpretation mem: redis_server mem_redis map_of
proof (unfold_locales, goal_cases)
  case (14 p s)
  then show ?case
    by (auto simp: mem_redis_def mem_SCAN_def butlast_append map_of_eq_None_iff domIff
        image_iff intro!: rev_image_eqI dest: weak_map_of_SomeI)
qed (auto simp: mem_redis_def mem_SCAN_def doc_list_cmds doc_zset_cmds
    intro!: mem_lift_sim only_key_cmds)

end
