(* ===== verification/Redis_Client.thy ===== *)
theory Redis_Client
  imports Redis_Server
begin

text \<open>
  How a request of the client library reaches the server. A request (a command or a whole Lua
  script) is executed by the server as one unit. The environment decides, from the list
  \<open>faults\<close>, what the network does to each request in turn:
  \<^item> \<open>Delivered n\<close>: the reply arrives; the request was executed \<open>n\<close> times before that
    without the client seeing the reply (the client library resends a request whose
    connection broke);
  \<^item> \<open>Failed n\<close>: the client reports an error, because of the connection or because its
    context is done, and the server has executed the request \<open>n\<close> times, possibly never;
  \<^item> \<open>Cut n\<close>: the client reports an error, and the server has executed the first \<open>n\<close>
    commands of what was sent: the request if \<open>n\<close> is not 0, the first \<open>n\<close> commands of a
    pipeline.
  Once the list is used up every request is \<open>Delivered 0\<close>.
\<close>

datatype net = Delivered nat | Failed nat | Cut nat

record 'k world = env +
  store :: 'k
  faults :: "net list"

definition next_fault :: "('k world, net) state" where
  "next_fault = State (\<lambda>w. case faults w of
       [] \<Rightarrow> (Delivered 0, w) | f # fs \<Rightarrow> (f, w\<lparr>faults := fs\<rparr>))"

definition exec :: "('k, 'a) state \<Rightarrow> 'k \<Rightarrow> 'k" where
  "exec m s = snd (run_state m s)"

definition on_store :: "('k, 'a) state \<Rightarrow> ('k world, 'a) state" where
  "on_store m = State (\<lambda>w. let (r, s) = run_state m (store w) in (r, w\<lparr>store := s\<rparr>))"

definition times :: "nat \<Rightarrow> ('k, 'a) state \<Rightarrow> ('k, unit) state" where
  "times n m = State (\<lambda>s. ((), (exec m ^^ n) s))"

text \<open>One request: \<open>round_trip\<close>. A server error becomes an error of the client library.\<close>

definition round_trip :: "('k, 'a) cmd \<Rightarrow> ('k world, goerr + 'a) state" where
  "round_trip m = do {
     f \<leftarrow> next_fault;
     case f of
       Delivered n \<Rightarrow> do {
         _ \<leftarrow> on_store (times n m);
         r \<leftarrow> on_store m;
         State_Monad.return (case r of Inl e \<Rightarrow> Inl (RedisError e) | Inr x \<Rightarrow> Inr x) }
     | Failed n \<Rightarrow> do {
         _ \<leftarrow> on_store (times n m);
         State_Monad.return (Inl NetError) }
     | Cut n \<Rightarrow> do {
         _ \<leftarrow> on_store (times (min n 1) m);
         State_Monad.return (Inl NetError) } }"

text \<open>A nil reply is reported as the error \<open>redis.Nil\<close>.\<close>

definition nil_reply :: "goerr + 'a option \<Rightarrow> goerr + 'a" where
  "nil_reply r = (case r of Inl e \<Rightarrow> Inl e | Inr None \<Rightarrow> Inl RedisNil | Inr (Some x) \<Rightarrow> Inr x)"

text \<open>
  \<open>Pipeline.Exec\<close> sends its commands in one batch; they are not a transaction. Delivered, they
  all run in order and the first error is reported; cut off, the server has run the first
  \<open>n\<close> of them.
\<close>

definition any_reply :: "('k, 'a) cmd \<Rightarrow> ('k, unit) cmd" where
  "any_reply m = bindE m (\<lambda>_. State_Monad.return (Inr ()))"

fun pipeline :: "('k, unit) cmd list \<Rightarrow> ('k, unit) cmd" where
  "pipeline [] = State_Monad.return (Inr ())"
| "pipeline (m # ms) = do {
     r \<leftarrow> m;
     r' \<leftarrow> pipeline ms;
     State_Monad.return (case r of Inl e \<Rightarrow> Inl e | Inr _ \<Rightarrow> r') }"

definition pipe_Exec :: "('k, unit) cmd list \<Rightarrow> ('k world, goerr + unit) state" where
  "pipe_Exec ms = do {
     f \<leftarrow> next_fault;
     case f of
       Delivered n \<Rightarrow> do {
         _ \<leftarrow> on_store (times n (pipeline ms));
         r \<leftarrow> on_store (pipeline ms);
         State_Monad.return (case r of Inl e \<Rightarrow> Inl (RedisError e) | Inr x \<Rightarrow> Inr x) }
     | Failed n \<Rightarrow> do {
         _ \<leftarrow> on_store (times n (pipeline ms));
         State_Monad.return (Inl NetError) }
     | Cut n \<Rightarrow> do {
         _ \<leftarrow> on_store (pipeline (take n ms));
         State_Monad.return (Inl NetError) } }"

text \<open>
  A SCAN iterator walks over the keyspace in pages. It hands out keys until it is exhausted or
  a page request fails: the result is the keys handed out and the error the iterator
  then reports, if any. On \<open>Cut n\<close> the first \<open>n\<close> keys had been handed out.
\<close>

definition scan_iter ::
  "(string \<Rightarrow> ('k, string list) cmd) \<Rightarrow> string \<Rightarrow> ('k world, string list \<times> goerr option) state" where
  "scan_iter scan pattern = do {
     f \<leftarrow> next_fault;
     r \<leftarrow> on_store (scan pattern);
     State_Monad.return
       (case r of
          Inl e \<Rightarrow> ([], Some (RedisError e))
        | Inr keys \<Rightarrow>
            (case f of
               Delivered _ \<Rightarrow> (keys, None)
             | Failed _ \<Rightarrow> ([], Some NetError)
             | Cut n \<Rightarrow> (take n keys, Some NetError))) }"

section \<open>Simulation\<close>

text \<open>The world with its store abstracted.\<close>

definition wview :: "('k \<Rightarrow> 'l) \<Rightarrow> 'k world \<Rightarrow> 'l world" where
  "wview v w = \<lparr>clock = clock w, ticks = ticks w, store = v (store w), faults = faults w\<rparr>"

lemma wview_sel [simp]:
  "clock (wview v w) = clock w" "ticks (wview v w) = ticks w"
  "store (wview v w) = v (store w)" "faults (wview v w) = faults w"
  by (simp_all add: wview_def)

lemma sim_time_Now [sim_intro]: "sim (wview v) time_Now time_Now"
  by (rule simI) (simp add: time_Now_def wview_def)

lemma sim_next_fault [sim_intro]: "sim (wview v) next_fault next_fault"
  by (rule simI) (simp add: next_fault_def wview_def split: list.split)

lemma sim_on_store [sim_intro]: "sim v m n \<Longrightarrow> sim (wview v) (on_store m) (on_store n)"
  by (rule simI) (simp add: on_store_def sim_def wview_def split_beta)

lemma sim_exec_pow: "sim v m n \<Longrightarrow> v ((exec m ^^ i) s) = (exec n ^^ i) (v s)"
  by (induction i) (simp_all add: exec_def sim_snd)

lemma sim_times [sim_intro]: "sim v m n \<Longrightarrow> sim v (times i m) (times i n)"
  by (rule simI) (simp add: times_def sim_exec_pow)

lemma sim_case_net [sim_intro]:
  assumes "\<And>n. sim v (f n) (f' n)" "\<And>n. sim v (g n) (g' n)" "\<And>n. sim v (h n) (h' n)"
  shows "sim v (case r of Delivered n \<Rightarrow> f n | Failed n \<Rightarrow> g n | Cut n \<Rightarrow> h n)
               (case r of Delivered n \<Rightarrow> f' n | Failed n \<Rightarrow> g' n | Cut n \<Rightarrow> h' n)"
  using assms by (cases r) simp_all

lemma sim_round_trip [sim_intro]:
  "sim v m n \<Longrightarrow> sim (wview v) (round_trip m) (round_trip n)"
  unfolding round_trip_def by (intro sim_intro)

lemma sim_any_reply [sim_intro]: "sim v m n \<Longrightarrow> sim v (any_reply m) (any_reply n)"
  unfolding any_reply_def by (intro sim_intro)

lemma sim_pipeline: "list_all2 (sim v) ms ns \<Longrightarrow> sim v (pipeline ms) (pipeline ns)"
  by (induction rule: list_all2_induct) (auto intro!: sim_intro)

lemma sim_pipe_Exec [sim_intro]:
  "list_all2 (sim v) ms ns \<Longrightarrow> sim (wview v) (pipe_Exec ms) (pipe_Exec ns)"
  unfolding pipe_Exec_def by (intro sim_intro sim_pipeline) (simp_all add: list_all2_takeI)

section \<open>Evaluation\<close>

lemma next_fault_run:
  "run_state next_fault w = (case faults w of [] \<Rightarrow> (Delivered 0, w) | f # fs \<Rightarrow> (f, w\<lparr>faults := fs\<rparr>))"
  by (simp add: next_fault_def)

lemma round_trip_ok:
  "faults w = [] \<Longrightarrow> run_state m (store w) = (Inr x, s) \<Longrightarrow>
   run_state (round_trip m) w = (Inr x, w\<lparr>store := s\<rparr>)"
  by (simp add: round_trip_def next_fault_def on_store_def times_def)

lemma round_trip_err:
  "faults w = [] \<Longrightarrow> run_state m (store w) = (Inl e, s) \<Longrightarrow>
   run_state (round_trip m) w = (Inl (RedisError e), w\<lparr>store := s\<rparr>)"
  by (simp add: round_trip_def next_fault_def on_store_def times_def)

lemma exec_pow_invariant: "keeps P m \<Longrightarrow> P s \<Longrightarrow> P ((exec m ^^ i) s)"
  by (induction i) (simp_all add: exec_def keeps_def)

text \<open>A property of the store and of what the network may do.\<close>

definition winv :: "('k \<Rightarrow> bool) \<Rightarrow> (net \<Rightarrow> bool) \<Rightarrow> 'k world \<Rightarrow> bool" where
  "winv P G w \<longleftrightarrow> P (store w) \<and> (\<forall>f \<in> set (faults w). G f)"

text \<open>An invariant of the requests is an invariant of the store, whatever the network does.\<close>

lemma keeps_time_Now [keep_intro]: "keeps (winv P G) time_Now"
  by (simp add: keeps_def time_Now_def winv_def)

lemma keeps_next_fault [keep_intro]: "keeps (winv P G) next_fault"
  by (simp add: keeps_def next_fault_def winv_def split: list.split)

lemma keeps_on_store [keep_intro]: "keeps P m \<Longrightarrow> keeps (winv P G) (on_store m)"
  by (simp add: keeps_def on_store_def winv_def split_beta)

lemma keeps_times [keep_intro]: "keeps P m \<Longrightarrow> keeps P (times n m)"
  by (rule keepsI) (simp add: times_def exec_pow_invariant)

lemma keeps_case_net [keep_intro]:
  assumes "\<And>n. keeps P (f n)" "\<And>n. keeps P (g n)" "\<And>n. keeps P (h n)"
  shows "keeps P (case r of Delivered n \<Rightarrow> f n | Failed n \<Rightarrow> g n | Cut n \<Rightarrow> h n)"
  using assms by (cases r) simp_all

lemma keeps_round_trip [keep_intro]: "keeps P m \<Longrightarrow> keeps (winv P G) (round_trip m)"
  unfolding round_trip_def by (intro keep_intro)

lemma keeps_any_reply [keep_intro]: "keeps P m \<Longrightarrow> keeps P (any_reply m)"
  unfolding any_reply_def by (intro keep_intro)

lemma keeps_pipeline [keep_intro]: "(\<And>m. m \<in> set ms \<Longrightarrow> keeps P m) \<Longrightarrow> keeps P (pipeline ms)"
  by (induction ms) (auto intro!: keep_intro)

lemma keeps_pipe_Exec [keep_intro]:
  "(\<And>m. m \<in> set ms \<Longrightarrow> keeps P m) \<Longrightarrow> keeps (winv P G) (pipe_Exec ms)"
  unfolding pipe_Exec_def by (intro keep_intro) (auto dest: in_set_takeD)

lemma store_time_Now [simp]: "store (snd (run_state time_Now w)) = store w"
  by (simp add: time_Now_def)

lemma faults_time_Now [simp]: "faults (snd (run_state time_Now w)) = faults w"
  by (simp add: time_Now_def)

lemma store_next_fault [simp]: "store (snd (run_state next_fault w)) = store w"
  by (simp add: next_fault_def split: list.split)

lemma store_on_store [simp]: "store (snd (run_state (on_store m) w)) = snd (run_state m (store w))"
  by (simp add: on_store_def split_beta)

end
