(* ===== verification/Job.thy ===== *)
theory Job
  imports Prelude
begin

text \<open>
  The data every component exchanges: \<open>job.go\<close>. \<open>JobStatus\<close> is a string type in the
  source, so any text can be used as a status; the five constants are the ones the
  program itself writes.
\<close>

type_synonym JobStatus = string

definition StatusPending :: JobStatus where "StatusPending = ''pending''"
definition StatusActive :: JobStatus where "StatusActive = ''active''"
definition StatusRetry :: JobStatus where "StatusRetry = ''retry''"
definition StatusDead :: JobStatus where "StatusDead = ''dead''"
definition StatusCompleted :: JobStatus where "StatusCompleted = ''completed''"

lemmas status_defs =
  StatusPending_def StatusActive_def StatusRetry_def StatusDead_def StatusCompleted_def

lemma status_distinct [simp]:
  "StatusPending \<noteq> StatusActive" "StatusPending \<noteq> StatusRetry" "StatusPending \<noteq> StatusDead"
  "StatusPending \<noteq> StatusCompleted" "StatusActive \<noteq> StatusPending" "StatusActive \<noteq> StatusRetry"
  "StatusActive \<noteq> StatusDead" "StatusActive \<noteq> StatusCompleted" "StatusRetry \<noteq> StatusPending"
  "StatusRetry \<noteq> StatusActive" "StatusRetry \<noteq> StatusDead" "StatusRetry \<noteq> StatusCompleted"
  "StatusDead \<noteq> StatusPending" "StatusDead \<noteq> StatusActive" "StatusDead \<noteq> StatusRetry"
  "StatusDead \<noteq> StatusCompleted" "StatusCompleted \<noteq> StatusPending"
  "StatusCompleted \<noteq> StatusActive" "StatusCompleted \<noteq> StatusRetry" "StatusCompleted \<noteq> StatusDead"
  by (simp_all add: status_defs)

record Job =
  ID :: string
  Queue :: string
  Type :: string
  Payload :: string
  Priority :: int
  CreatedAt :: instant
  EnqueuedAt :: instant
  ProcessAt :: instant
  Attempts :: int
  MaxAttempts :: int
  LastError :: string
  UniqueKey :: string
  Status :: JobStatus

text \<open>The zero value of the struct, from which composite literals start.\<close>

definition zeroJob :: Job where
  "zeroJob = \<lparr> ID = '''', Queue = '''', Type = '''', Payload = '''', Priority = 0,
     CreatedAt = zeroTime, EnqueuedAt = zeroTime, ProcessAt = zeroTime,
     Attempts = 0, MaxAttempts = 0, LastError = '''', UniqueKey = '''', Status = '''' \<rparr>"

text \<open>
  \<open>NewJob\<close>. The JSON encoder for the payload's Go type, the identifier drawn by the uuid
  package and the two clock readings are arguments.
\<close>

definition NewJob ::
  "('p \<Rightarrow> goerr + string) \<Rightarrow> string \<Rightarrow> instant \<Rightarrow> instant \<Rightarrow> string \<Rightarrow> string \<Rightarrow> 'p \<Rightarrow> goerr + Job" where
  "NewJob jsonMarshal uuid now1 now2 queue jobType payload =
     (case jsonMarshal payload of
        Inl err \<Rightarrow> Inl err
      | Inr p \<Rightarrow> Inr (zeroJob \<lparr>
          ID := uuid,
          Queue := queue,
          Type := jobType,
          Payload := p,
          CreatedAt := now1,
          ProcessAt := now2,
          Attempts := 0,
          MaxAttempts := 3,
          Status := StatusPending \<rparr>))"

lemma NewJob_fields:
  assumes "NewJob mj uuid t1 t2 q ty p = Inr j"
  shows "ID j = uuid" "Queue j = q" "Type j = ty" "mj p = Inr (Payload j)" "Priority j = 0"
    "CreatedAt j = t1" "ProcessAt j = t2" "EnqueuedAt j = zeroTime" "Attempts j = 0"
    "MaxAttempts j = 3" "LastError j = ''''" "UniqueKey j = ''''" "Status j = StatusPending"
  using assms by (auto simp: NewJob_def zeroJob_def split: sum.splits)

end
