(* ===== verification/Redis_Scripts.thy ===== *)
theory Redis_Scripts
  imports Redis_Client Job
begin

text \<open>
  The Lua scripts of \<open>internal/broker/redis.go\<close> and the key names the broker uses. A script runs
  on the server as one unit; an error raised by \<open>redis.call\<close> ends the script and keeps
  the writes made before it (\<open>bindE\<close>). Numbers passed as script arguments are printed
  in decimal and read back by \<open>tonumber\<close>, so they appear here as numbers.
\<close>

section \<open>Keys\<close>

definition jobKey :: "string \<Rightarrow> string" where "jobKey i = ''sidekiq:job:'' @ i"
definition queueKey :: "string \<Rightarrow> string" where "queueKey q = ''sidekiq:queue:'' @ q"
definition retryKey :: "string \<Rightarrow> string" where "retryKey q = ''sidekiq:retry:'' @ q"
definition deadKey :: "string \<Rightarrow> string" where "deadKey q = ''sidekiq:dead:'' @ q"
definition scheduledKey :: string where "scheduledKey = ''sidekiq:scheduled''"
definition activeKey :: string where "activeKey = ''sidekiq:active''"

lemmas key_defs = jobKey_def queueKey_def retryKey_def deadKey_def scheduledKey_def activeKey_def

lemma key_inject [simp, key_simps]:
  "jobKey i = jobKey j \<longleftrightarrow> i = j" "queueKey p = queueKey q \<longleftrightarrow> p = q"
  "retryKey p = retryKey q \<longleftrightarrow> p = q" "deadKey p = deadKey q \<longleftrightarrow> p = q"
  by (simp_all add: key_defs)

lemma key_distinct [simp, key_simps]:
  "jobKey i \<noteq> queueKey q" "jobKey i \<noteq> retryKey q" "jobKey i \<noteq> deadKey q"
  "jobKey i \<noteq> scheduledKey" "jobKey i \<noteq> activeKey"
  "queueKey q \<noteq> jobKey i" "queueKey q \<noteq> retryKey p" "queueKey q \<noteq> deadKey p"
  "queueKey q \<noteq> scheduledKey" "queueKey q \<noteq> activeKey"
  "retryKey q \<noteq> jobKey i" "retryKey q \<noteq> queueKey p" "retryKey q \<noteq> deadKey p"
  "retryKey q \<noteq> scheduledKey" "retryKey q \<noteq> activeKey"
  "deadKey q \<noteq> jobKey i" "deadKey q \<noteq> queueKey p" "deadKey q \<noteq> retryKey p"
  "deadKey q \<noteq> scheduledKey" "deadKey q \<noteq> activeKey"
  "scheduledKey \<noteq> jobKey i" "scheduledKey \<noteq> queueKey q" "scheduledKey \<noteq> retryKey q"
  "scheduledKey \<noteq> deadKey q" "scheduledKey \<noteq> activeKey"
  "activeKey \<noteq> jobKey i" "activeKey \<noteq> queueKey q" "activeKey \<noteq> retryKey q"
  "activeKey \<noteq> deadKey q" "activeKey \<noteq> scheduledKey"
  by (simp_all add: key_defs)

section \<open>Job records as text\<close>

text \<open>
  The JSON encoders. \<open>cjson_queue\<close> is what the promotion script computes from a stored record:
  \<open>cjson.decode(data)['queue']\<close>, used as a string.
\<close>

record codec =
  jsonMarshal :: "Job \<Rightarrow> goerr + string"
  jsonUnmarshal :: "string \<Rightarrow> goerr + Job"
  cjson_queue :: "string \<Rightarrow> redis_err + string"

section \<open>Scripts\<close>

definition rpopZaddScript ::
  "'k redis_cmds \<Rightarrow> string \<Rightarrow> string \<Rightarrow> int \<Rightarrow> ('k, string option) cmd" where
  "rpopZaddScript R KEYS1 KEYS2 ARGV1 =
     bindE (RPOP R KEYS1) (\<lambda>r. case r of
       None \<Rightarrow> State_Monad.return (Inr None)
     | Some jid \<Rightarrow>
         bindE (ZADD R KEYS2 ARGV1 jid) (\<lambda>_. State_Monad.return (Inr (Some jid))))"

definition setBranchLpushZaddScript ::
  "'k redis_cmds \<Rightarrow> string \<Rightarrow> string \<Rightarrow> string \<Rightarrow> string \<Rightarrow> int \<Rightarrow> int \<Rightarrow> string \<Rightarrow> string \<Rightarrow> ('k, int) cmd" where
  "setBranchLpushZaddScript R KEYS1 KEYS2 KEYS3 ARGV1 ARGV2 ARGV3 ARGV4 ARGV5 =
     bindE (SET R KEYS1 ARGV1) (\<lambda>_.
       let processAt = ARGV2; now = ARGV3 in
       bindE (if processAt \<le> now then LPUSH R KEYS2 ARGV5 else ZADD R KEYS3 processAt ARGV5) (\<lambda>_.
         State_Monad.return (Inr 1)))"

definition retryDeadJobScript ::
  "'k redis_cmds \<Rightarrow> string \<Rightarrow> string \<Rightarrow> string \<Rightarrow> string \<Rightarrow> string \<Rightarrow> ('k, int) cmd" where
  "retryDeadJobScript R dead jobkey queuekey jobID newData =
     bindE (LREM R dead 1 jobID) (\<lambda>removed.
       if removed = 0 then State_Monad.return (Inr 0)
       else bindE (SET R jobkey newData) (\<lambda>_.
            bindE (LPUSH R queuekey jobID) (\<lambda>_.
              State_Monad.return (Inr 1))))"

definition setZaddZremScript ::
  "'k redis_cmds \<Rightarrow> string \<Rightarrow> string \<Rightarrow> string \<Rightarrow> string \<Rightarrow> int \<Rightarrow> string \<Rightarrow> ('k, int) cmd" where
  "setZaddZremScript R KEYS1 KEYS2 KEYS3 ARGV1 ARGV2 ARGV3 =
     bindE (SET R KEYS1 ARGV1) (\<lambda>_.
       let processAt = ARGV2 in
       bindE (ZADD R KEYS2 processAt ARGV3) (\<lambda>_.
       bindE (ZREM R KEYS3 ARGV3) (\<lambda>_.
         State_Monad.return (Inr 1))))"

definition setLpushZremScript ::
  "'k redis_cmds \<Rightarrow> string \<Rightarrow> string \<Rightarrow> string \<Rightarrow> string \<Rightarrow> string \<Rightarrow> ('k, int) cmd" where
  "setLpushZremScript R KEYS1 KEYS2 KEYS3 ARGV1 ARGV2 =
     bindE (SET R KEYS1 ARGV1) (\<lambda>_.
     bindE (LPUSH R KEYS2 ARGV2) (\<lambda>_.
     bindE (ZREM R KEYS3 ARGV2) (\<lambda>_.
       State_Monad.return (Inr 1))))"

definition promoteJobScript ::
  "codec \<Rightarrow> 'k redis_cmds \<Rightarrow> string \<Rightarrow> string \<Rightarrow> string \<Rightarrow> ('k, int) cmd" where
  "promoteJobScript C R sourceKey jobkey jobID =
     bindE (ZREM R sourceKey jobID) (\<lambda>removed.
       if removed = 0 then State_Monad.return (Inr 0)
       else bindE (GET R jobkey) (\<lambda>jobData. case jobData of
              None \<Rightarrow> State_Monad.return (Inr 0)
            | Some d \<Rightarrow>
                (case cjson_queue C d of
                   Inl e \<Rightarrow> State_Monad.return (Inl e)
                 | Inr q \<Rightarrow> bindE (LPUSH R (''sidekiq:queue:'' @ q) jobID) (\<lambda>_.
                     State_Monad.return (Inr 1)))))"

lemmas script_defs = rpopZaddScript_def setBranchLpushZaddScript_def retryDeadJobScript_def
  setZaddZremScript_def setLpushZremScript_def promoteJobScript_def

text \<open>Every script behaves on the server as on the keyspace the server's state stands for.\<close>

context redis_server
begin

lemma rpopZaddScript_sim:
  "sim view (rpopZaddScript R a b n) (rpopZaddScript (redis_doc sc) a b n)"
  unfolding script_defs redis_doc_sel by (intro sim_intro server_sim)

lemma setBranchLpushZaddScript_sim:
  "sim view (setBranchLpushZaddScript R a b c d n m q i)
            (setBranchLpushZaddScript (redis_doc sc) a b c d n m q i)"
  unfolding script_defs redis_doc_sel Let_def by (intro sim_intro server_sim)

lemma retryDeadJobScript_sim:
  "sim view (retryDeadJobScript R a b c i d) (retryDeadJobScript (redis_doc sc) a b c i d)"
  unfolding script_defs redis_doc_sel by (intro sim_intro server_sim)

lemma setZaddZremScript_sim:
  "sim view (setZaddZremScript R a b c d n i) (setZaddZremScript (redis_doc sc) a b c d n i)"
  unfolding script_defs redis_doc_sel Let_def by (intro sim_intro server_sim)

lemma setLpushZremScript_sim:
  "sim view (setLpushZremScript R a b c d i) (setLpushZremScript (redis_doc sc) a b c d i)"
  unfolding script_defs redis_doc_sel by (intro sim_intro server_sim)

lemma promoteJobScript_sim:
  "sim view (promoteJobScript C R a b i) (promoteJobScript C (redis_doc sc) a b i)"
  unfolding script_defs redis_doc_sel by (intro sim_intro server_sim)

lemmas script_sim = rpopZaddScript_sim setBranchLpushZaddScript_sim retryDeadJobScript_sim
  setZaddZremScript_sim setLpushZremScript_sim promoteJobScript_sim

end

end
