(* ===== verification/Broker.thy ===== *)
theory Broker
  imports Job
begin

text \<open>
  The \<open>Broker\<close> interface of \<open>internal/broker/broker.go\<close>: a value of the interface type is a
  record of methods over the state \<open>'s\<close> of whatever stores the jobs. A Go result
  \<open>(x, error)\<close> is a sum where the methods never return both, and a pair where they do; a
  slice that may be nil is an option. \<open>MoveToDeadLetter\<close> may write to the job it
  is passed, so it also returns the job as its caller sees it afterwards.
\<close>

record QueueStats =
  sQueue :: string
  sEnqueued :: int
  sRetry :: int
  sScheduled :: int
  sActive :: int
  sError :: int
  sDead :: int

definition zeroStats :: QueueStats where
  "zeroStats = \<lparr>sQueue = '''', sEnqueued = 0, sRetry = 0, sScheduled = 0, sActive = 0,
     sError = 0, sDead = 0\<rparr>"

record 's broker =
  Enqueue :: "Job \<Rightarrow> ('s, goerr + unit) state"
  Dequeue :: "string list \<Rightarrow> ('s, goerr + Job option) state"
  Acknowledge :: "Job \<Rightarrow> ('s, goerr + unit) state"
  Requeue :: "Job \<Rightarrow> duration \<Rightarrow> ('s, goerr + unit) state"
  MoveToDeadLetter :: "Job \<Rightarrow> ('s, (goerr + unit) \<times> Job) state"
  GetJobsByStatus :: "JobStatus \<Rightarrow> int \<Rightarrow> ('s, Job list option \<times> goerr option) state"
  GetQueueStats :: "('s, goerr + (string \<rightharpoonup> QueueStats)) state"
  PromoteDueJobs :: "string list \<Rightarrow> ('s, int \<times> goerr option) state"
  GetJob :: "string \<Rightarrow> ('s, goerr + Job option) state"
  RetryDeadJob :: "string \<Rightarrow> ('s, goerr + unit) state"
  DeleteJob :: "string \<Rightarrow> ('s, goerr + unit) state"
  Close :: "('s, goerr + unit) state"

section \<open>Histories of calls\<close>

text \<open>One call of a method, its results ignored, and a history: the calls the clients of one
  broker make, in the order in which they take effect.\<close>

datatype call =
    CEnqueue Job
  | CDequeue "string list"
  | CAcknowledge Job
  | CRequeue Job duration
  | CMoveToDeadLetter Job
  | CGetJobsByStatus JobStatus int
  | CGetQueueStats
  | CPromoteDueJobs "string list"
  | CGetJob string
  | CRetryDeadJob string
  | CDeleteJob string
  | CClose

definition ignore :: "('s, 'a) state \<Rightarrow> ('s, unit) state" where
  "ignore m = do { _ \<leftarrow> m; State_Monad.return () }"

fun run_call :: "'s broker \<Rightarrow> call \<Rightarrow> ('s, unit) state" where
  "run_call B (CEnqueue j) = ignore (Enqueue B j)"
| "run_call B (CDequeue qs) = ignore (Dequeue B qs)"
| "run_call B (CAcknowledge j) = ignore (Acknowledge B j)"
| "run_call B (CRequeue j d) = ignore (Requeue B j d)"
| "run_call B (CMoveToDeadLetter j) = ignore (MoveToDeadLetter B j)"
| "run_call B (CGetJobsByStatus st n) = ignore (GetJobsByStatus B st n)"
| "run_call B CGetQueueStats = ignore (GetQueueStats B)"
| "run_call B (CPromoteDueJobs qs) = ignore (PromoteDueJobs B qs)"
| "run_call B (CGetJob i) = ignore (GetJob B i)"
| "run_call B (CRetryDeadJob i) = ignore (RetryDeadJob B i)"
| "run_call B (CDeleteJob i) = ignore (DeleteJob B i)"
| "run_call B CClose = ignore (Close B)"

fun run_calls :: "'s broker \<Rightarrow> call list \<Rightarrow> ('s, unit) state" where
  "run_calls B [] = State_Monad.return ()"
| "run_calls B (c # cs) = do { _ \<leftarrow> run_call B c; run_calls B cs }"

lemma snd_ignore [simp]: "snd (run_state (ignore m) s) = snd (run_state m s)"
  by (simp add: ignore_def split_beta)

lemma keeps_ignore [keep_intro]: "keeps P m \<Longrightarrow> keeps P (ignore m)"
  by (simp add: keeps_def)

lemma keeps_run_calls:
  "(\<And>c. c \<in> set cs \<Longrightarrow> keeps P (run_call B c)) \<Longrightarrow> keeps P (run_calls B cs)"
  by (induction cs) (auto intro!: keep_intro)

text \<open>A call that takes the job \<open>i\<close> out of the broker for good.\<close>

definition removes :: "string \<Rightarrow> call \<Rightarrow> bool" where
  "removes i c \<longleftrightarrow> (case c of CAcknowledge j \<Rightarrow> ID j = i | CDeleteJob i' \<Rightarrow> i' = i | _ \<Rightarrow> False)"

end
