(* ===== verification/Redis_Broker.thy ===== *)
theory Redis_Broker
  imports Redis_Scripts Broker
begin

text \<open>
  The Redis implementation of the broker: every method of \<open>internal/broker/redis.go\<close>, over the
  codec \<open>C\<close>, the server's commands \<open>R\<close> and the world of a client (store, clock, network),
  and the fact that each method behaves on the server as on the keyspace the server's
  state stands for.
\<close>

section \<open>Methods\<close>

definition redis_Enqueue :: "codec \<Rightarrow> 'k redis_cmds \<Rightarrow> Job \<Rightarrow> ('k world, goerr + unit) state" where
  "redis_Enqueue C R job =
     (case jsonMarshal C job of
        Inl err \<Rightarrow> State_Monad.return (Inl (WrapError ''marshal job: '' err))
      | Inr data \<Rightarrow> do {
          now \<leftarrow> time_Now;
          r \<leftarrow> round_trip (setBranchLpushZaddScript R
                 (jobKey (ID job)) (queueKey (Queue job)) scheduledKey
                 data (Unix (ProcessAt job)) (Unix now) (Queue job) (ID job));
          State_Monad.return (case r of
              Inl err \<Rightarrow> Inl (WrapError ''atomic enqueu: '' err)
            | Inr _ \<Rightarrow> Inr ()) })"

text \<open>The loop of \<open>Dequeue\<close> over the queues: the identifier popped from the first queue
  that has one, the empty string when none has.\<close>

fun dequeue_loop :: "'k redis_cmds \<Rightarrow> string list \<Rightarrow> ('k world, goerr + string) state" where
  "dequeue_loop R [] = State_Monad.return (Inr '''')"
| "dequeue_loop R (queue # queues) = do {
     now \<leftarrow> time_Now;
     r \<leftarrow> round_trip (rpopZaddScript R (queueKey queue) activeKey (Unix (now + 30 * Second)));
     (case nil_reply r of
        Inl err \<Rightarrow>
          if err = RedisNil then dequeue_loop R queues
          else State_Monad.return (Inl (WrapError ''script run '' err))
      | Inr jobID \<Rightarrow> State_Monad.return (Inr jobID)) }"

definition redis_Get :: "'k redis_cmds \<Rightarrow> string \<Rightarrow> ('k world, goerr + string) state" where
  "redis_Get R key = do { r \<leftarrow> round_trip (GET R key); State_Monad.return (nil_reply r) }"

definition redis_Dequeue ::
  "codec \<Rightarrow> 'k redis_cmds \<Rightarrow> string list \<Rightarrow> ('k world, goerr + Job option) state" where
  "redis_Dequeue C R queues = do {
     r \<leftarrow> dequeue_loop R queues;
     (case r of
        Inl err \<Rightarrow> State_Monad.return (Inl err)
      | Inr jobID \<Rightarrow>
          if jobID = '''' then State_Monad.return (Inr None)
          else do {
            d \<leftarrow> redis_Get R (jobKey jobID);
            State_Monad.return (case d of
                Inl err \<Rightarrow> Inl (WrapError ''get job in dequeue: '' err)
              | Inr data \<Rightarrow>
                  (case jsonUnmarshal C data of
                     Inl err \<Rightarrow> Inl (WrapError ''job unmarshal: '' err)
                   | Inr job \<Rightarrow> Inr (Some job))) }) }"

definition redis_Acknowledge :: "'k redis_cmds \<Rightarrow> Job \<Rightarrow> ('k world, goerr + unit) state" where
  "redis_Acknowledge R job = do {
     r \<leftarrow> round_trip (ZREM R activeKey (ID job));
     (case r of
        Inl err \<Rightarrow> State_Monad.return (Inl (WrapError ''remove from active: '' err))
      | Inr _ \<Rightarrow> do {
          r' \<leftarrow> round_trip (DEL R (jobKey (ID job)));
          State_Monad.return (case r' of
              Inl err \<Rightarrow> Inl (WrapError ''delete job key: '' err)
            | Inr _ \<Rightarrow> Inr ()) }) }"

definition redis_Requeue ::
  "codec \<Rightarrow> 'k redis_cmds \<Rightarrow> Job \<Rightarrow> duration \<Rightarrow> ('k world, goerr + unit) state" where
  "redis_Requeue C R job delay =
     (case jsonMarshal C job of
        Inl err \<Rightarrow> State_Monad.return (Inl (WrapError ''job data marshal: '' err))
      | Inr data \<Rightarrow> do {
          now \<leftarrow> time_Now;
          r \<leftarrow> round_trip (setZaddZremScript R
                 (jobKey (ID job)) (retryKey (Queue job)) activeKey
                 data (Unix (now + delay)) (ID job));
          State_Monad.return (case r of
              Inl err \<Rightarrow> Inl (WrapError ''atomic requeue: '' err)
            | Inr _ \<Rightarrow> Inr ()) })"

text \<open>The inner loop of \<open>PromoteDueJobs\<close>: the identifiers one sorted set listed as due.\<close>

fun promote_ids ::
  "codec \<Rightarrow> 'k redis_cmds \<Rightarrow> string \<Rightarrow> string list \<Rightarrow> int \<Rightarrow> ('k world, int \<times> goerr option) state" where
  "promote_ids C R sourceKey [] promoted = State_Monad.return (promoted, None)"
| "promote_ids C R sourceKey (i # ids) promoted = do {
     r \<leftarrow> round_trip (promoteJobScript C R sourceKey (jobKey i) i);
     (case r of
        Inl err \<Rightarrow> State_Monad.return (promoted, Some (WrapError (''promote job '' @ i @ '': '') err))
      | Inr n \<Rightarrow> promote_ids C R sourceKey ids (if n = 1 then promoted + 1 else promoted)) }"

text \<open>Its outer loop, over the sorted sets.\<close>

fun promote_sources ::
  "codec \<Rightarrow> 'k redis_cmds \<Rightarrow> int \<Rightarrow> string list \<Rightarrow> int \<Rightarrow> ('k world, int \<times> goerr option) state" where
  "promote_sources C R now [] promoted = State_Monad.return (promoted, None)"
| "promote_sources C R now (sourceKey # sourceKeys) promoted = do {
     r \<leftarrow> round_trip (ZRANGEBYSCORE R sourceKey now);
     (case r of
        Inl err \<Rightarrow>
          State_Monad.return (promoted, Some (WrapError (''zrangebyscore '' @ sourceKey @ '': '') err))
      | Inr ids \<Rightarrow> do {
          p \<leftarrow> promote_ids C R sourceKey ids promoted;
          (case snd p of
             Some err \<Rightarrow> State_Monad.return p
           | None \<Rightarrow> promote_sources C R now sourceKeys (fst p)) }) }"

definition redis_PromoteDueJobs ::
  "codec \<Rightarrow> 'k redis_cmds \<Rightarrow> string list \<Rightarrow> ('k world, int \<times> goerr option) state" where
  "redis_PromoteDueJobs C R queues = do {
     t \<leftarrow> time_Now;
     promote_sources C R (Unix t) (scheduledKey # map retryKey queues) 0 }"

definition redis_MoveToDeadLetter ::
  "codec \<Rightarrow> 'k redis_cmds \<Rightarrow> Job \<Rightarrow> ('k world, (goerr + unit) \<times> Job) state" where
  "redis_MoveToDeadLetter C R job0 =
     (let job = job0\<lparr>Status := StatusDead\<rparr> in
      case jsonMarshal C job of
        Inl err \<Rightarrow> State_Monad.return (Inl (WrapError ''job data marshal: '' err), job)
      | Inr data \<Rightarrow> do {
          r \<leftarrow> round_trip (setLpushZremScript R
                 (jobKey (ID job)) (deadKey (Queue job)) activeKey data (ID job));
          State_Monad.return (case r of
              Inl err \<Rightarrow> (Inl (WrapError ''atomic move to dead letter: '' err), job)
            | Inr _ \<Rightarrow> (Inr (), job)) })"

text \<open>The loop of \<open>collectIDsFromLists\<close>. Its last two arguments are the keys the iterator
  still hands out, and the error with which it then stops.\<close>

fun collect_loop ::
  "'k redis_cmds \<Rightarrow> string \<Rightarrow> int \<Rightarrow> string list \<Rightarrow> string list \<Rightarrow> goerr option \<Rightarrow>
   ('k world, string list \<times> goerr option) state" where
  "collect_loop R pattern limit ids [] iterErr =
     State_Monad.return (ids, map_option (WrapError (''scan '' @ pattern @ '': '')) iterErr)"
| "collect_loop R pattern limit ids (key # keys) iterErr =
     (if limit \<le> int (length ids) then State_Monad.return (ids, None)
      else do {
        r \<leftarrow> round_trip (LRANGE R key 0 (limit - int (length ids) - 1));
        (case r of
           Inl err \<Rightarrow> State_Monad.return (ids, Some (WrapError (''lrange '' @ key @ '': '') err))
         | Inr vals \<Rightarrow> collect_loop R pattern limit (ids @ vals) keys iterErr) })"

definition collectIDsFromLists ::
  "'k redis_cmds \<Rightarrow> string \<Rightarrow> int \<Rightarrow> ('k world, string list \<times> goerr option) state" where
  "collectIDsFromLists R pattern limit = do {
     it \<leftarrow> scan_iter (SCAN R) pattern;
     collect_loop R pattern limit [] (fst it) (snd it) }"

text \<open>The loop that fetches the records of the collected identifiers.\<close>

fun fetch_jobs ::
  "codec \<Rightarrow> 'k redis_cmds \<Rightarrow> string list \<Rightarrow> Job list \<Rightarrow> ('k world, Job list option \<times> goerr option) state" where
  "fetch_jobs C R [] jobs = State_Monad.return (Some jobs, None)"
| "fetch_jobs C R (i # ids) jobs = do {
     d \<leftarrow> redis_Get R (jobKey i);
     (case d of
        Inl err \<Rightarrow>
          if err = RedisNil then fetch_jobs C R ids jobs
          else State_Monad.return (Some jobs, Some (WrapError (''get job '' @ i @ '': '') err))
      | Inr data \<Rightarrow>
          (case jsonUnmarshal C data of
             Inl err \<Rightarrow>
               State_Monad.return (Some jobs, Some (WrapError (''unmarshal job '' @ i @ '': '') err))
           | Inr job \<Rightarrow> fetch_jobs C R ids (jobs @ [job]))) }"

definition redis_ids_by_status ::
  "'k redis_cmds \<Rightarrow> JobStatus \<Rightarrow> int \<Rightarrow> ('k world, string list \<times> goerr option) state" where
  "redis_ids_by_status R status limit =
     (if status = StatusDead then collectIDsFromLists R ''sidekiq:dead:*'' limit
      else if status = StatusRetry then collectIDsFromLists R ''sidekiq:retry:*'' limit
      else if status = StatusPending then collectIDsFromLists R ''sidekiq:queue:*'' limit
      else do {
        r \<leftarrow> round_trip (ZRANGE R activeKey 0 (limit - 1));
        State_Monad.return (case r of Inl err \<Rightarrow> ([], Some err) | Inr ids \<Rightarrow> (ids, None)) })"

definition redis_GetJobsByStatus ::
  "codec \<Rightarrow> 'k redis_cmds \<Rightarrow> JobStatus \<Rightarrow> int \<Rightarrow> ('k world, Job list option \<times> goerr option) state" where
  "redis_GetJobsByStatus C R status limit =
     (if status = StatusCompleted then State_Monad.return (None, None)
      else if status \<in> {StatusDead, StatusRetry, StatusPending, StatusActive} then do {
        r \<leftarrow> redis_ids_by_status R status limit;
        (case snd r of
           Some err \<Rightarrow> State_Monad.return (None, Some err)
         | None \<Rightarrow> fetch_jobs C R (fst r) []) }
      else State_Monad.return (None, Some (ErrorString (''unsupported status '' @ go_quote status))))"

text \<open>\<open>scanEach\<close> calls \<open>fn\<close> on every key the iterator hands out; \<open>fn\<close> updates the map
  its closure captures, here the argument \<open>m\<close>.\<close>

fun scan_each_loop ::
  "(string \<Rightarrow> 'm \<Rightarrow> ('k world, goerr + 'm) state) \<Rightarrow> string list \<Rightarrow> goerr option \<Rightarrow> 'm \<Rightarrow>
   ('k world, goerr + 'm) state" where
  "scan_each_loop fn [] iterErr m =
     State_Monad.return (case iterErr of None \<Rightarrow> Inr m | Some err \<Rightarrow> Inl err)"
| "scan_each_loop fn (key # keys) iterErr m = do {
     r \<leftarrow> fn key m;
     (case r of
        Inl err \<Rightarrow> State_Monad.return (Inl err)
      | Inr m' \<Rightarrow> scan_each_loop fn keys iterErr m') }"

definition scanEach ::
  "'k redis_cmds \<Rightarrow> string \<Rightarrow> (string \<Rightarrow> 'm \<Rightarrow> ('k world, goerr + 'm) state) \<Rightarrow> 'm \<Rightarrow>
   ('k world, goerr + 'm) state" where
  "scanEach R pattern fn m = do {
     it \<leftarrow> scan_iter (SCAN R) pattern;
     scan_each_loop fn (fst it) (snd it) m }"

definition TrimPrefix :: "string \<Rightarrow> string \<Rightarrow> string" where
  "TrimPrefix s p = (if prefix p s then drop (length p) s else s)"

text \<open>Reading a missing entry of a Go map gives the zero value.\<close>

definition stats_of :: "(string \<rightharpoonup> QueueStats) \<Rightarrow> string \<Rightarrow> QueueStats" where
  "stats_of stats q = (case stats q of None \<Rightarrow> zeroStats | Some s \<Rightarrow> s)"

text \<open>The closures of \<open>GetQueueStats\<close>: the depth of one key becomes one field of the entry
  of the queue the key is named after.\<close>

definition count_key ::
  "string \<Rightarrow> (string \<Rightarrow> ('k, nat) cmd) \<Rightarrow> ((int \<Rightarrow> int) \<Rightarrow> QueueStats \<Rightarrow> QueueStats) \<Rightarrow>
   string \<Rightarrow> (string \<rightharpoonup> QueueStats) \<Rightarrow> ('k world, goerr + (string \<rightharpoonup> QueueStats)) state" where
  "count_key p depth upd key stats = do {
     let queue = TrimPrefix key p;
     r \<leftarrow> round_trip (depth key);
     State_Monad.return (case r of
         Inl err \<Rightarrow> Inl err
       | Inr n \<Rightarrow>
           Inr (stats(queue \<mapsto> upd (\<lambda>_. int n) ((stats_of stats queue)\<lparr>sQueue := queue\<rparr>)))) }"

fun attribute_loop ::
  "codec \<Rightarrow> 'k redis_cmds \<Rightarrow> ((int \<Rightarrow> int) \<Rightarrow> QueueStats \<Rightarrow> QueueStats) \<Rightarrow> string list \<Rightarrow>
   (string \<rightharpoonup> QueueStats) \<Rightarrow> ('k world, goerr + (string \<rightharpoonup> QueueStats)) state" where
  "attribute_loop C R upd [] stats = State_Monad.return (Inr stats)"
| "attribute_loop C R upd (i # ids) stats = do {
     d \<leftarrow> redis_Get R (jobKey i);
     (case d of
        Inl err \<Rightarrow>
          if err = RedisNil then attribute_loop C R upd ids stats
          else State_Monad.return (Inl (WrapError (''get job '' @ i @ '': '') err))
      | Inr data \<Rightarrow>
          (case jsonUnmarshal C data of
             Inl err \<Rightarrow> State_Monad.return (Inl (WrapError (''unmarshal job '' @ i @ '': '') err))
           | Inr job \<Rightarrow> attribute_loop C R upd ids
               (stats(Queue job \<mapsto>
                  upd (\<lambda>n. n + 1) ((stats_of stats (Queue job))\<lparr>sQueue := Queue job\<rparr>))))) }"

definition attributeGlobalSetToQueues ::
  "codec \<Rightarrow> 'k redis_cmds \<Rightarrow> string \<Rightarrow> ((int \<Rightarrow> int) \<Rightarrow> QueueStats \<Rightarrow> QueueStats) \<Rightarrow>
   (string \<rightharpoonup> QueueStats) \<Rightarrow> ('k world, goerr + (string \<rightharpoonup> QueueStats)) state" where
  "attributeGlobalSetToQueues C R setKey upd stats = do {
     r \<leftarrow> round_trip (ZRANGE R setKey 0 (- 1));
     (case r of
        Inl err \<Rightarrow> State_Monad.return (Inl (WrapError (''zrange '' @ setKey @ '': '') err))
      | Inr ids \<Rightarrow> attribute_loop C R upd ids stats) }"

text \<open>One step of \<open>GetQueueStats\<close>: go on with the new map or return the error.\<close>

definition stats_step ::
  "(goerr \<Rightarrow> goerr) \<Rightarrow> ('m \<Rightarrow> ('w, goerr + 'm) state) \<Rightarrow> ('w, goerr + 'm) state \<Rightarrow> ('w, goerr + 'm) state" where
  "stats_step wrap f m = do {
     r \<leftarrow> m;
     (case r of
        Inl err \<Rightarrow> State_Monad.return (Inl err)
      | Inr stats \<Rightarrow> do {
          r' \<leftarrow> f stats;
          State_Monad.return (case r' of Inl err \<Rightarrow> Inl (wrap err) | Inr stats' \<Rightarrow> Inr stats') }) }"

definition redis_GetQueueStats ::
  "codec \<Rightarrow> 'k redis_cmds \<Rightarrow> ('k world, goerr + (string \<rightharpoonup> QueueStats)) state" where
  "redis_GetQueueStats C R =
     stats_step (\<lambda>e. e) (attributeGlobalSetToQueues C R activeKey sActive_update)
    (stats_step (\<lambda>e. e) (attributeGlobalSetToQueues C R scheduledKey sScheduled_update)
    (stats_step (WrapError ''scan dead queues: '')
       (scanEach R ''sidekiq:dead:*'' (count_key ''sidekiq:dead:'' (LLEN R) sDead_update))
    (stats_step (WrapError ''scan retry queues: '')
       (scanEach R ''sidekiq:retry:*'' (count_key ''sidekiq:retry:'' (ZCARD R) sRetry_update))
    (stats_step (WrapError ''scan pending queues: '')
       (scanEach R ''sidekiq:queue:*'' (count_key ''sidekiq:queue:'' (LLEN R) sEnqueued_update))
    (State_Monad.return (Inr Map.empty))))))"

definition redis_GetJob ::
  "codec \<Rightarrow> 'k redis_cmds \<Rightarrow> string \<Rightarrow> ('k world, goerr + Job option) state" where
  "redis_GetJob C R i = do {
     d \<leftarrow> redis_Get R (jobKey i);
     State_Monad.return (case d of
         Inl err \<Rightarrow>
           if err = RedisNil then Inr None
           else Inl (WrapError (''get job '' @ i @ '': '') err)
       | Inr data \<Rightarrow>
           (case jsonUnmarshal C data of
              Inl err \<Rightarrow> Inl (WrapError (''unmarshal job '' @ i @ '': '') err)
            | Inr job \<Rightarrow> Inr (Some job))) }"

definition redis_RetryDeadJob ::
  "codec \<Rightarrow> 'k redis_cmds \<Rightarrow> string \<Rightarrow> ('k world, goerr + unit) state" where
  "redis_RetryDeadJob C R i = do {
     g \<leftarrow> redis_GetJob C R i;
     (case g of
        Inl err \<Rightarrow> State_Monad.return (Inl err)
      | Inr None \<Rightarrow> State_Monad.return (Inl (ErrorString (''job '' @ i @ '' not found'')))
      | Inr (Some job0) \<Rightarrow> do {
          now \<leftarrow> time_Now;
          let job = job0\<lparr>Status := StatusPending, Attempts := 0, LastError := '''', ProcessAt := now\<rparr>;
          (case jsonMarshal C job of
             Inl err \<Rightarrow> State_Monad.return (Inl (WrapError (''marshal job '' @ i @ '': '') err))
           | Inr newData \<Rightarrow> do {
               r \<leftarrow> round_trip (retryDeadJobScript R
                      (deadKey (Queue job)) (jobKey i) (queueKey (Queue job)) i newData);
               State_Monad.return (case r of
                   Inl err \<Rightarrow> Inl (WrapError (''retry dead job '' @ i @ '': '') err)
                 | Inr n \<Rightarrow>
                     if n \<noteq> 1
                     then Inl (ErrorString
                       (''job '' @ i @ '' not found in dead-letter queue '' @ Queue job))
                     else Inr ()) }) }) }"

definition redis_DeleteJob ::
  "codec \<Rightarrow> 'k redis_cmds \<Rightarrow> string \<Rightarrow> ('k world, goerr + unit) state" where
  "redis_DeleteJob C R i = do {
     g \<leftarrow> redis_GetJob C R i;
     (case g of
        Inl err \<Rightarrow> State_Monad.return (Inl err)
      | Inr None \<Rightarrow> State_Monad.return (Inr ())
      | Inr (Some job) \<Rightarrow> do {
          r \<leftarrow> pipe_Exec [
                 any_reply (LREM R (queueKey (Queue job)) 0 i),
                 any_reply (ZREM R (retryKey (Queue job)) i),
                 any_reply (LREM R (deadKey (Queue job)) 0 i),
                 any_reply (ZREM R activeKey i),
                 any_reply (ZREM R scheduledKey i),
                 any_reply (DEL R (jobKey i))];
          State_Monad.return (case r of
              Inl err \<Rightarrow> Inl (WrapError (''delete job '' @ i @ '': '') err)
            | Inr _ \<Rightarrow> Inr ()) }) }"

text \<open>\<open>Close\<close> closes the connections of the client library; nothing is sent to the server. Whether an
  error is reported is up to the environment.\<close>

definition redis_Close :: "'k redis_cmds \<Rightarrow> ('k world, goerr + unit) state" where
  "redis_Close R = do {
     f \<leftarrow> next_fault;
     State_Monad.return (case f of Delivered _ \<Rightarrow> Inr () | _ \<Rightarrow> Inl NetError) }"

text \<open>The methods as a value of the interface type.\<close>

definition redisBroker :: "codec \<Rightarrow> 'k redis_cmds \<Rightarrow> ('k world) broker" where
  "redisBroker C R = \<lparr>
     Enqueue = redis_Enqueue C R,
     Dequeue = redis_Dequeue C R,
     Acknowledge = redis_Acknowledge R,
     Requeue = redis_Requeue C R,
     MoveToDeadLetter = redis_MoveToDeadLetter C R,
     GetJobsByStatus = redis_GetJobsByStatus C R,
     GetQueueStats = redis_GetQueueStats C R,
     PromoteDueJobs = redis_PromoteDueJobs C R,
     GetJob = redis_GetJob C R,
     RetryDeadJob = redis_RetryDeadJob C R,
     DeleteJob = redis_DeleteJob C R,
     Close = redis_Close R \<rparr>"

text \<open>\<open>dial\<close> is the client library's constructor: the commands of the server at an address.\<close>

definition newRedisBroker :: "codec \<Rightarrow> (string \<Rightarrow> 'k redis_cmds) \<Rightarrow> string \<Rightarrow> ('k world) broker" where
  "newRedisBroker C dial addr = redisBroker C (dial addr)"

section \<open>Simulation\<close>

text \<open>Every method that does not scan the keyspace behaves on the server as on the keyspace
  the server's state stands for.\<close>

context redis_server
begin

lemma redis_Enqueue_sim: "sim (wview view) (redis_Enqueue C R j) (redis_Enqueue C (redis_doc sc) j)"
  unfolding redis_Enqueue_def by (intro sim_intro script_sim)

lemma dequeue_loop_sim: "sim (wview view) (dequeue_loop R qs) (dequeue_loop (redis_doc sc) qs)"
  by (induction qs) (auto intro!: sim_intro script_sim)

lemma redis_Get_sim: "sim (wview view) (redis_Get R k) (redis_Get (redis_doc sc) k)"
  unfolding redis_Get_def redis_doc_sel by (intro sim_intro server_sim)

lemma redis_Dequeue_sim:
  "sim (wview view) (redis_Dequeue C R qs) (redis_Dequeue C (redis_doc sc) qs)"
  unfolding redis_Dequeue_def by (intro sim_intro dequeue_loop_sim redis_Get_sim)

lemma redis_Acknowledge_sim:
  "sim (wview view) (redis_Acknowledge R j) (redis_Acknowledge (redis_doc sc) j)"
  unfolding redis_Acknowledge_def redis_doc_sel by (intro sim_intro server_sim)

lemma redis_Requeue_sim:
  "sim (wview view) (redis_Requeue C R j d) (redis_Requeue C (redis_doc sc) j d)"
  unfolding redis_Requeue_def by (intro sim_intro script_sim)

lemma promote_ids_sim:
  "sim (wview view) (promote_ids C R k ids n) (promote_ids C (redis_doc sc) k ids n)"
  by (induction ids arbitrary: n) (auto intro!: sim_intro script_sim)

lemma promote_sources_sim:
  "sim (wview view) (promote_sources C R t ks n) (promote_sources C (redis_doc sc) t ks n)"
  by (induction ks arbitrary: n) (auto intro!: sim_intro server_sim promote_ids_sim)

lemma redis_PromoteDueJobs_sim:
  "sim (wview view) (redis_PromoteDueJobs C R qs) (redis_PromoteDueJobs C (redis_doc sc) qs)"
  unfolding redis_PromoteDueJobs_def by (intro sim_intro promote_sources_sim)

lemma redis_MoveToDeadLetter_sim:
  "sim (wview view) (redis_MoveToDeadLetter C R j) (redis_MoveToDeadLetter C (redis_doc sc) j)"
  unfolding redis_MoveToDeadLetter_def Let_def by (intro sim_intro script_sim)

lemma redis_GetJob_sim: "sim (wview view) (redis_GetJob C R i) (redis_GetJob C (redis_doc sc) i)"
  unfolding redis_GetJob_def by (intro sim_intro redis_Get_sim)

lemma redis_RetryDeadJob_sim:
  "sim (wview view) (redis_RetryDeadJob C R i) (redis_RetryDeadJob C (redis_doc sc) i)"
  unfolding redis_RetryDeadJob_def Let_def by (intro sim_intro redis_GetJob_sim script_sim)

lemma redis_DeleteJob_sim:
  "sim (wview view) (redis_DeleteJob C R i) (redis_DeleteJob C (redis_doc sc) i)"
  unfolding redis_DeleteJob_def redis_doc_sel
  by (intro sim_intro redis_GetJob_sim) (auto intro!: sim_intro server_sim)

end

end
