(* ===== verification/Redis_Store.thy ===== *)
theory Redis_Store
  imports Redis_Broker
begin

text \<open>
  What the broker keeps in Redis, read off a keyspace: the record of a job, the pending and
  dead-letter lists of a queue, its retry set, and the two shared sets of scheduled and
  active jobs. \<open>typed\<close> says that every key of the broker holds a value of its type (Redis
  keeps no empty lists and sorted sets);
  on a typed keyspace each script is a sequence of updates (\<open>..._run\<close>), and every
  method keeps the keyspace typed, whatever the network does.
\<close>

section \<open>Observations\<close>

definition lst :: "keyspace \<Rightarrow> string \<Rightarrow> string list" where
  "lst ks k = (case ks k of Some (RList xs) \<Rightarrow> xs | _ \<Rightarrow> [])"

definition zst :: "keyspace \<Rightarrow> string \<Rightarrow> zset" where
  "zst ks k = (case ks k of Some (RZset z) \<Rightarrow> z | _ \<Rightarrow> [])"

definition str :: "keyspace \<Rightarrow> string \<Rightarrow> string option" where
  "str ks k = (case ks k of Some (RStr v) \<Rightarrow> Some v | _ \<Rightarrow> None)"

definition is_list :: "keyspace \<Rightarrow> string \<Rightarrow> bool" where
  "is_list ks k \<longleftrightarrow> (case ks k of None \<Rightarrow> True | Some (RList xs) \<Rightarrow> xs \<noteq> [] | _ \<Rightarrow> False)"

definition is_zset :: "keyspace \<Rightarrow> string \<Rightarrow> bool" where
  "is_zset ks k \<longleftrightarrow> (case ks k of None \<Rightarrow> True | Some (RZset z) \<Rightarrow> z \<noteq> [] | _ \<Rightarrow> False)"

definition is_str :: "keyspace \<Rightarrow> string \<Rightarrow> bool" where
  "is_str ks k \<longleftrightarrow> (case ks k of None \<Rightarrow> True | Some (RStr v) \<Rightarrow> True | _ \<Rightarrow> False)"

definition typed :: "keyspace \<Rightarrow> bool" where
  "typed ks \<longleftrightarrow> (\<forall>q. is_list ks (queueKey q)) \<and> (\<forall>q. is_list ks (deadKey q))
     \<and> (\<forall>q. is_zset ks (retryKey q)) \<and> is_zset ks scheduledKey \<and> is_zset ks activeKey
     \<and> (\<forall>i. is_str ks (jobKey i))"

lemma typedD [simp]:
  assumes "typed ks"
  shows "is_list ks (queueKey q)" "is_list ks (deadKey q)" "is_zset ks (retryKey q)"
    "is_zset ks scheduledKey" "is_zset ks activeKey" "is_str ks (jobKey i)"
  using assms by (simp_all add: typed_def)

lemma typed_empty [simp]: "typed Map.empty"
  by (simp add: typed_def is_list_def is_zset_def is_str_def)

lemmas obs_defs = lst_def zst_def str_def is_list_def is_zset_def is_str_def

lemma obs_put_list [simp]:
  "lst (put k (RList xs) ks) k' = (if k' = k then xs else lst ks k')"
  "zst (put k (RList xs) ks) k' = (if k' = k then [] else zst ks k')"
  "str (put k (RList xs) ks) k' = (if k' = k then None else str ks k')"
  "is_list (put k (RList xs) ks) k' \<longleftrightarrow> k' = k \<or> is_list ks k'"
  "k' \<noteq> k \<Longrightarrow> is_zset (put k (RList xs) ks) k' \<longleftrightarrow> is_zset ks k'"
  "k' \<noteq> k \<Longrightarrow> is_str (put k (RList xs) ks) k' \<longleftrightarrow> is_str ks k'"
  by (simp_all add: obs_defs put_def)

lemma obs_put_zset [simp]:
  "lst (put k (RZset z) ks) k' = (if k' = k then [] else lst ks k')"
  "zst (put k (RZset z) ks) k' = (if k' = k then z else zst ks k')"
  "str (put k (RZset z) ks) k' = (if k' = k then None else str ks k')"
  "is_zset (put k (RZset z) ks) k' \<longleftrightarrow> k' = k \<or> is_zset ks k'"
  "k' \<noteq> k \<Longrightarrow> is_list (put k (RZset z) ks) k' \<longleftrightarrow> is_list ks k'"
  "k' \<noteq> k \<Longrightarrow> is_str (put k (RZset z) ks) k' \<longleftrightarrow> is_str ks k'"
  by (simp_all add: obs_defs put_def)

lemma obs_set_str [simp]:
  "lst (ks(k \<mapsto> RStr v)) k' = (if k' = k then [] else lst ks k')"
  "zst (ks(k \<mapsto> RStr v)) k' = (if k' = k then [] else zst ks k')"
  "str (ks(k \<mapsto> RStr v)) k' = (if k' = k then Some v else str ks k')"
  "is_str (ks(k \<mapsto> RStr v)) k' \<longleftrightarrow> k' = k \<or> is_str ks k'"
  "k' \<noteq> k \<Longrightarrow> is_list (ks(k \<mapsto> RStr v)) k' \<longleftrightarrow> is_list ks k'"
  "k' \<noteq> k \<Longrightarrow> is_zset (ks(k \<mapsto> RStr v)) k' \<longleftrightarrow> is_zset ks k'"
  by (simp_all add: obs_defs)

lemma obs_del [simp]:
  "lst (ks(k := None)) k' = (if k' = k then [] else lst ks k')"
  "zst (ks(k := None)) k' = (if k' = k then [] else zst ks k')"
  "str (ks(k := None)) k' = (if k' = k then None else str ks k')"
  "is_str (ks(k := None)) k' \<longleftrightarrow> k' = k \<or> is_str ks k'"
  "is_list (ks(k := None)) k' \<longleftrightarrow> k' = k \<or> is_list ks k'"
  "is_zset (ks(k := None)) k' \<longleftrightarrow> k' = k \<or> is_zset ks k'"
  by (simp_all add: obs_defs)

text \<open>The parts of the database.\<close>

definition record_of :: "keyspace \<Rightarrow> string \<Rightarrow> string option" where
  "record_of ks i = str ks (jobKey i)"

definition pending :: "keyspace \<Rightarrow> string \<Rightarrow> string list" where
  "pending ks q = lst ks (queueKey q)"

definition dead :: "keyspace \<Rightarrow> string \<Rightarrow> string list" where
  "dead ks q = lst ks (deadKey q)"

definition retrying :: "keyspace \<Rightarrow> string \<Rightarrow> zset" where
  "retrying ks q = zst ks (retryKey q)"

definition scheduled :: "keyspace \<Rightarrow> zset" where
  "scheduled ks = zst ks scheduledKey"

definition active :: "keyspace \<Rightarrow> zset" where
  "active ks = zst ks activeKey"

lemmas part_defs = record_of_def pending_def dead_def retrying_def scheduled_def active_def

text \<open>Each update changes one part and leaves the others alone.\<close>

lemma parts_queue [simp]:
  "pending (put (queueKey q) (RList xs) ks) q' = (if q' = q then xs else pending ks q')"
  "dead (put (queueKey q) (RList xs) ks) q' = dead ks q'"
  "retrying (put (queueKey q) (RList xs) ks) q' = retrying ks q'"
  "scheduled (put (queueKey q) (RList xs) ks) = scheduled ks"
  "active (put (queueKey q) (RList xs) ks) = active ks"
  "record_of (put (queueKey q) (RList xs) ks) i' = record_of ks i'"
  by (simp_all add: part_defs)

lemma parts_dead [simp]:
  "pending (put (deadKey q) (RList xs) ks) q' = pending ks q'"
  "dead (put (deadKey q) (RList xs) ks) q' = (if q' = q then xs else dead ks q')"
  "retrying (put (deadKey q) (RList xs) ks) q' = retrying ks q'"
  "scheduled (put (deadKey q) (RList xs) ks) = scheduled ks"
  "active (put (deadKey q) (RList xs) ks) = active ks"
  "record_of (put (deadKey q) (RList xs) ks) i' = record_of ks i'"
  by (simp_all add: part_defs)

lemma parts_retry [simp]:
  "pending (put (retryKey q) (RZset z) ks) q' = pending ks q'"
  "dead (put (retryKey q) (RZset z) ks) q' = dead ks q'"
  "retrying (put (retryKey q) (RZset z) ks) q' = (if q' = q then z else retrying ks q')"
  "scheduled (put (retryKey q) (RZset z) ks) = scheduled ks"
  "active (put (retryKey q) (RZset z) ks) = active ks"
  "record_of (put (retryKey q) (RZset z) ks) i' = record_of ks i'"
  by (simp_all add: part_defs)

lemma parts_scheduled [simp]:
  "pending (put scheduledKey (RZset z) ks) q' = pending ks q'"
  "dead (put scheduledKey (RZset z) ks) q' = dead ks q'"
  "retrying (put scheduledKey (RZset z) ks) q' = retrying ks q'"
  "scheduled (put scheduledKey (RZset z) ks) = z"
  "active (put scheduledKey (RZset z) ks) = active ks"
  "record_of (put scheduledKey (RZset z) ks) i' = record_of ks i'"
  by (simp_all add: part_defs)

lemma parts_active [simp]:
  "pending (put activeKey (RZset z) ks) q' = pending ks q'"
  "dead (put activeKey (RZset z) ks) q' = dead ks q'"
  "retrying (put activeKey (RZset z) ks) q' = retrying ks q'"
  "scheduled (put activeKey (RZset z) ks) = scheduled ks"
  "active (put activeKey (RZset z) ks) = z"
  "record_of (put activeKey (RZset z) ks) i' = record_of ks i'"
  by (simp_all add: part_defs)

lemma parts_record [simp]:
  "pending (ks(jobKey i \<mapsto> RStr d)) q' = pending ks q'"
  "dead (ks(jobKey i \<mapsto> RStr d)) q' = dead ks q'"
  "retrying (ks(jobKey i \<mapsto> RStr d)) q' = retrying ks q'"
  "scheduled (ks(jobKey i \<mapsto> RStr d)) = scheduled ks"
  "active (ks(jobKey i \<mapsto> RStr d)) = active ks"
  "record_of (ks(jobKey i \<mapsto> RStr d)) i' = (if i' = i then Some d else record_of ks i')"
  by (simp_all add: part_defs)

lemma parts_delete [simp]:
  "pending (ks(jobKey i := None)) q' = pending ks q'"
  "dead (ks(jobKey i := None)) q' = dead ks q'"
  "retrying (ks(jobKey i := None)) q' = retrying ks q'"
  "scheduled (ks(jobKey i := None)) = scheduled ks"
  "active (ks(jobKey i := None)) = active ks"
  "record_of (ks(jobKey i := None)) i' = (if i' = i then None else record_of ks i')"
  by (simp_all add: part_defs)

lemma typed_updates [simp]:
  assumes "typed ks"
  shows "typed (put (deadKey q) (RList xs) ks)" "typed (put (queueKey q) (RList xs) ks)"
    "typed (put (retryKey q) (RZset z) ks)" "typed (put activeKey (RZset z) ks)"
    "typed (put scheduledKey (RZset z) ks)" "typed (ks(jobKey i := None))"
    "typed (ks(jobKey i \<mapsto> RStr d))"
  using assms by (simp_all add: typed_def del: typedD)

lemma zmem_iff: "zmem m z \<longleftrightarrow> (\<exists>s. (s, m) \<in> set z)"
  by (force simp: zmem_def members_def)

lemma set_members: "set (members z) = {m. zmem m z}"
  by (simp add: zmem_def)

lemma set_zadd: "set (zadd s m z) = insert (s, m) {p \<in> set z. snd p \<noteq> m}"
  by (auto simp: zadd_def set_insort_key)

lemma zmem_Nil [simp]: "\<not> zmem m []"
  by (simp add: zmem_iff)

lemma zmem_zadd [simp]: "zmem m (zadd s m' z) \<longleftrightarrow> m = m' \<or> zmem m z"
  by (auto simp: zmem_iff set_zadd)

lemma zmem_zrem [simp]: "zmem m (zrem m' z) \<longleftrightarrow> m \<noteq> m' \<and> zmem m z"
  by (auto simp: zmem_iff zrem_def)

lemma zrem_idle: "\<not> zmem m z \<Longrightarrow> zrem m z = z"
  by (auto simp: zmem_iff zrem_def filter_id_conv)

section \<open>Commands on a typed keyspace\<close>

lemma put_list_same: "is_list ks k \<Longrightarrow> xs = lst ks k \<Longrightarrow> put k (RList xs) ks = ks"
  by (auto simp: put_def obs_defs fun_eq_iff split: option.splits rvalue.splits)

lemma put_zset_same: "is_zset ks k \<Longrightarrow> z = zst ks k \<Longrightarrow> put k (RZset z) ks = ks"
  by (auto simp: put_def obs_defs fun_eq_iff split: option.splits rvalue.splits)

lemma on_list_run:
  "is_list ks k \<Longrightarrow> run_state (on_list k f) ks =
     (Inr (fst (f (lst ks k))), put k (RList (snd (f (lst ks k)))) ks)"
  by (auto simp: on_list_def obs_defs split_beta split: option.splits rvalue.splits)

lemma on_zset_run:
  "is_zset ks k \<Longrightarrow> run_state (on_zset k f) ks =
     (Inr (fst (f (zst ks k))), put k (RZset (snd (f (zst ks k)))) ks)"
  by (auto simp: on_zset_def obs_defs split_beta split: option.splits rvalue.splits)

lemma read_list_run: "is_list ks k \<Longrightarrow> run_state (read_list k f) ks = (Inr (f (lst ks k)), ks)"
  by (auto simp: read_list_def obs_defs split: option.splits rvalue.splits)

lemma read_zset_run: "is_zset ks k \<Longrightarrow> run_state (read_zset k f) ks = (Inr (f (zst ks k)), ks)"
  by (auto simp: read_zset_def obs_defs split: option.splits rvalue.splits)

lemma doc_GET_run: "is_str ks k \<Longrightarrow> run_state (doc_GET k) ks = (Inr (str ks k), ks)"
  by (auto simp: doc_GET_def obs_defs split: option.splits rvalue.splits)

lemma doc_SET_run: "run_state (doc_SET k v) ks = (Inr (), ks(k \<mapsto> RStr v))"
  by (simp add: doc_SET_def)

lemma doc_DEL_run: "run_state (doc_DEL k) ks = (Inr (if ks k = None then 0 else 1), ks(k := None))"
  by (simp add: doc_DEL_def)

lemmas cmd_run = on_list_run on_zset_run read_list_run read_zset_run doc_GET_run doc_SET_run
  doc_DEL_run doc_list_cmds doc_zset_cmds

section \<open>Scripts on a typed keyspace\<close>

text \<open>The database after each script has run.\<close>

definition db_enqueue :: "string \<Rightarrow> string \<Rightarrow> string \<Rightarrow> int \<Rightarrow> int \<Rightarrow> keyspace \<Rightarrow> keyspace" where
  "db_enqueue i d q at now ks =
     (let ks1 = ks(jobKey i \<mapsto> RStr d) in
      if at \<le> now then put (queueKey q) (RList (i # pending ks q)) ks1
      else put scheduledKey (RZset (zadd at i (scheduled ks))) ks1)"

definition db_claim :: "string \<Rightarrow> int \<Rightarrow> keyspace \<Rightarrow> string option \<times> keyspace" where
  "db_claim q deadline ks =
     (if pending ks q = [] then (None, ks)
      else (Some (last (pending ks q)),
        put activeKey (RZset (zadd deadline (last (pending ks q)) (active ks)))
          (put (queueKey q) (RList (butlast (pending ks q))) ks)))"

definition db_requeue :: "string \<Rightarrow> string \<Rightarrow> string \<Rightarrow> int \<Rightarrow> keyspace \<Rightarrow> keyspace" where
  "db_requeue i d q at ks =
     put activeKey (RZset (zrem i (active ks)))
       (put (retryKey q) (RZset (zadd at i (retrying ks q))) (ks(jobKey i \<mapsto> RStr d)))"

definition db_bury :: "string \<Rightarrow> string \<Rightarrow> string \<Rightarrow> keyspace \<Rightarrow> keyspace" where
  "db_bury i d q ks =
     put activeKey (RZset (zrem i (active ks)))
       (put (deadKey q) (RList (i # dead ks q)) (ks(jobKey i \<mapsto> RStr d)))"

definition db_revive :: "string \<Rightarrow> string \<Rightarrow> string \<Rightarrow> keyspace \<Rightarrow> keyspace" where
  "db_revive i d q ks =
     put (queueKey q) (RList (i # pending ks q))
       ((put (deadKey q) (RList (remove1 i (dead ks q))) ks)(jobKey i \<mapsto> RStr d))"

lemma rpopZaddScript_run:
  "typed ks \<Longrightarrow> run_state (rpopZaddScript (redis_doc sc) (queueKey q) activeKey n) ks =
     (Inr (fst (db_claim q n ks)), snd (db_claim q n ks))"
  by (simp add: rpopZaddScript_def cmd_run db_claim_def part_defs put_list_same)

lemma setBranchLpushZaddScript_run:
  "typed ks \<Longrightarrow>
   run_state (setBranchLpushZaddScript (redis_doc sc) (jobKey i) (queueKey q) scheduledKey d at now q' i) ks =
     (Inr 1, db_enqueue i d q at now ks)"
  by (simp add: setBranchLpushZaddScript_def cmd_run db_enqueue_def part_defs Let_def)

lemma setZaddZremScript_run:
  "typed ks \<Longrightarrow>
   run_state (setZaddZremScript (redis_doc sc) (jobKey i) (retryKey q) activeKey d at i) ks =
     (Inr 1, db_requeue i d q at ks)"
  by (simp add: setZaddZremScript_def cmd_run db_requeue_def part_defs Let_def)

lemma setLpushZremScript_run:
  "typed ks \<Longrightarrow>
   run_state (setLpushZremScript (redis_doc sc) (jobKey i) (deadKey q) activeKey d i) ks =
     (Inr 1, db_bury i d q ks)"
  by (simp add: setLpushZremScript_def cmd_run db_bury_def part_defs)

lemma lrem_1: "lrem 1 x xs = remove1 x xs"
  by (simp add: lrem_def remove_n_1)

lemma lrem_0: "lrem 0 x xs = removeAll x xs"
  by (simp add: lrem_def)

lemma retryDeadJobScript_run:
  "typed ks \<Longrightarrow>
   run_state (retryDeadJobScript (redis_doc sc) (deadKey q) (jobKey i) (queueKey q) i d) ks =
     (if i \<in> set (dead ks q) then (Inr 1, db_revive i d q ks)
      else (Inr 0, ks))"
  by (auto simp: retryDeadJobScript_def cmd_run db_revive_def part_defs lrem_1 length_remove1
      remove1_idem put_list_same length_greater_0_conv [symmetric] simp del: length_greater_0_conv
      dest: length_pos_if_in_set)

lemma queueKey_fold: "''sidekiq:queue:'' @ q = queueKey q"
  by (simp add: queueKey_def)

definition db_promote :: "codec \<Rightarrow> string \<Rightarrow> string \<Rightarrow> keyspace \<Rightarrow> (redis_err + int) \<times> keyspace" where
  "db_promote C src i ks =
     (let ks1 = put src (RZset (zrem i (zst ks src))) ks in
      if \<not> zmem i (zst ks src) then (Inr 0, ks)
      else case record_of ks i of
          None \<Rightarrow> (Inr 0, ks1)
        | Some d \<Rightarrow> (case cjson_queue C d of
            Inl e \<Rightarrow> (Inl e, ks1)
          | Inr q \<Rightarrow> (Inr 1, put (queueKey q) (RList (i # pending ks q)) ks1)))"

lemma promoteJobScript_run:
  assumes "typed ks" "src = scheduledKey \<or> src = retryKey p"
  shows "run_state (promoteJobScript C (redis_doc sc) src (jobKey i) i) ks = db_promote C src i ks"
  using assms unfolding promoteJobScript_def queueKey_fold
  by (elim disjE) (simp_all add: cmd_run db_promote_def part_defs Let_def zrem_idle put_zset_same
      split: option.split sum.split)

lemmas script_run = rpopZaddScript_run setBranchLpushZaddScript_run setZaddZremScript_run
  setLpushZremScript_run retryDeadJobScript_run promoteJobScript_run

end
