(* ===== verification/Redis_Requests.thy ===== *)
theory Redis_Requests
  imports Redis_Broker
begin

text \<open>
  The methods of \<open>internal/broker/redis.go\<close> request by request. A method of \<open>Redis_Broker\<close> runs from its beginning to its end; here
  it is the sequence of its steps (reading the clock, each execution of a request, each command of a pipeline), so that the steps of calls that
  clients make at the same time can be interleaved. Run alone, the steps make the method.
\<close>

section \<open>Resumptions\<close>

text \<open>What a call still has to do: it has returned, or its next step answers and changes the world, and leaves the rest of
  the call. \<open>run_prog\<close> runs a call alone, from the beginning to the end.\<close>

datatype ('w, 'a) prog = Ret 'a | Req "'w \<Rightarrow> ('w, 'a) prog \<times> 'w"

primrec run_prog :: "('w, 'a) prog \<Rightarrow> 'w \<Rightarrow> 'a \<times> 'w" where
  "run_prog (Ret x) = (\<lambda>w. (x, w))"
| "run_prog (Req f) = (\<lambda>w. let (g, w') = (map_prod run_prog id \<circ> f) w in g w')"

primrec pbind :: "('w, 'a) prog \<Rightarrow> ('a \<Rightarrow> ('w, 'b) prog) \<Rightarrow> ('w, 'b) prog" where
  "pbind (Ret x) g = g x"
| "pbind (Req f) g = Req (map_prod (\<lambda>p. pbind p g) id \<circ> f)"

definition atomically :: "('w, 'a) state \<Rightarrow> ('w, 'a) prog" where
  "atomically m = Req (\<lambda>w. case run_state m w of (x, w') \<Rightarrow> (Ret x, w'))"

lemma prog_induct [case_names Ret Req]:
  assumes "\<And>x. P (Ret x)" "\<And>f. (\<And>w. P (fst (f w))) \<Longrightarrow> P (Req f)"
  shows "P p"
proof (induction p)
  case (Req f)
  have "P (fst (f w))" for w by (rule Req [OF rangeI [of f w]]) (cases "f w"; simp)
  then show ?case by (rule assms(2))
qed (rule assms(1))

lemma run_prog_Req: "run_prog (Req f) w = run_prog (fst (f w)) (snd (f w))"
  by (simp add: split_beta Let_def)

declare run_prog.simps(2) [simp del] run_prog_Req [simp]

lemma run_pbind [simp]: "run_prog (pbind p g) w = (case run_prog p w of (x, w') \<Rightarrow> run_prog (g x) w')"
  by (induction p arbitrary: w rule: prog_induct) simp_all

lemma pbind_assoc: "pbind (pbind p f) g = pbind p (\<lambda>x. pbind (f x) g)"
  by (induction p rule: prog_induct) (simp_all add: fun_eq_iff prod_eq_iff)

lemma pbind_Ret: "pbind p Ret = p"
  by (induction p rule: prog_induct) (simp_all add: fun_eq_iff prod_eq_iff)

lemma run_atomically [simp]: "run_prog (atomically m) w = run_state m w"
  by (simp add: atomically_def split_beta)

section \<open>Requests\<close>

fun p_times :: "nat \<Rightarrow> ('k, 'a) state \<Rightarrow> ('k world, unit) prog" where
  "p_times 0 m = Ret ()"
| "p_times (Suc n) m = pbind (atomically (on_store m)) (\<lambda>_. p_times n m)"

definition p_round_trip :: "('k, 'a) cmd \<Rightarrow> ('k world, goerr + 'a) prog" where
  "p_round_trip m = pbind (atomically next_fault) (\<lambda>f. case f of
       Delivered n \<Rightarrow> pbind (p_times n m) (\<lambda>_. pbind (atomically (on_store m)) (\<lambda>r.
         Ret (case r of Inl e \<Rightarrow> Inl (RedisError e) | Inr x \<Rightarrow> Inr x)))
     | Failed n \<Rightarrow> pbind (p_times n m) (\<lambda>_. Ret (Inl NetError))
     | Cut n \<Rightarrow> pbind (p_times (min n 1) m) (\<lambda>_. Ret (Inl NetError)))"

fun p_pipeline :: "('k, unit) cmd list \<Rightarrow> ('k world, string + unit) prog" where
  "p_pipeline [] = Ret (Inr ())"
| "p_pipeline (m # ms) = pbind (atomically (on_store m)) (\<lambda>r. pbind (p_pipeline ms) (\<lambda>r'.
     Ret (case r of Inl e \<Rightarrow> Inl e | Inr _ \<Rightarrow> r')))"

fun p_pipelines :: "nat \<Rightarrow> ('k, unit) cmd list \<Rightarrow> ('k world, unit) prog" where
  "p_pipelines 0 ms = Ret ()"
| "p_pipelines (Suc n) ms = pbind (p_pipeline ms) (\<lambda>_. p_pipelines n ms)"

definition p_pipe_Exec :: "('k, unit) cmd list \<Rightarrow> ('k world, goerr + unit) prog" where
  "p_pipe_Exec ms = pbind (atomically next_fault) (\<lambda>f. case f of
       Delivered n \<Rightarrow> pbind (p_pipelines n ms) (\<lambda>_. pbind (p_pipeline ms) (\<lambda>r.
         Ret (case r of Inl e \<Rightarrow> Inl (RedisError e) | Inr x \<Rightarrow> Inr x)))
     | Failed n \<Rightarrow> pbind (p_pipelines n ms) (\<lambda>_. Ret (Inl NetError))
     | Cut n \<Rightarrow> pbind (p_pipeline (take n ms)) (\<lambda>_. Ret (Inl NetError)))"

lemma run_on_store: "run_state (on_store m) w = (case run_state m (store w) of (r, s) \<Rightarrow> (r, w\<lparr>store := s\<rparr>))"
  by (simp add: on_store_def split_beta)

lemma run_times: "run_prog (p_times n m) w = run_state (on_store (times n m)) w"
proof (induction n arbitrary: w)
  case (Suc n)
  then show ?case by (simp add: run_on_store times_def exec_def split_beta funpow_swap1)
qed (simp add: run_on_store times_def)

lemma run_round_trip [simp]: "run_prog (p_round_trip m) w = run_state (round_trip m) w"
  by (simp add: p_round_trip_def round_trip_def run_times split_beta split: net.split)

lemma run_pipeline: "run_prog (p_pipeline ms) w = run_state (on_store (pipeline ms)) w"
  by (induction ms arbitrary: w) (simp_all add: run_on_store split_beta split: sum.split)

lemma run_pipelines: "run_prog (p_pipelines n ms) w = run_state (on_store (times n (pipeline ms))) w"
proof (induction n arbitrary: w)
  case (Suc n)
  then show ?case by (simp add: run_pipeline run_on_store times_def exec_def split_beta funpow_swap1)
qed (simp add: run_on_store times_def)

lemma run_pipe_Exec [simp]: "run_prog (p_pipe_Exec ms) w = run_state (pipe_Exec ms) w"
  by (simp add: p_pipe_Exec_def pipe_Exec_def run_pipelines run_pipeline split_beta split: net.split)

section \<open>The methods, request by request\<close>

definition p_Enqueue :: "codec \<Rightarrow> 'k redis_cmds \<Rightarrow> Job \<Rightarrow> ('k world, goerr + unit) prog" where
  "p_Enqueue C R job =
     (case jsonMarshal C job of
        Inl err \<Rightarrow> Ret (Inl (WrapError ''marshal job: '' err))
      | Inr data \<Rightarrow>
          pbind (atomically time_Now) (\<lambda>now.
          pbind (p_round_trip (setBranchLpushZaddScript R
                 (jobKey (ID job)) (queueKey (Queue job)) scheduledKey
                 data (Unix (ProcessAt job)) (Unix now) (Queue job) (ID job))) (\<lambda>r.
          Ret (case r of
              Inl err \<Rightarrow> Inl (WrapError ''atomic enqueu: '' err)
            | Inr _ \<Rightarrow> Inr ()))))"

fun p_dequeue_loop :: "'k redis_cmds \<Rightarrow> string list \<Rightarrow> ('k world, goerr + string) prog" where
  "p_dequeue_loop R [] = Ret (Inr '''')"
| "p_dequeue_loop R (queue # queues) =
     pbind (atomically time_Now) (\<lambda>now.
     pbind (p_round_trip (rpopZaddScript R (queueKey queue) activeKey (Unix (now + 30 * Second)))) (\<lambda>r.
     (case nil_reply r of
        Inl err \<Rightarrow>
          if err = RedisNil then p_dequeue_loop R queues
          else Ret (Inl (WrapError ''script run '' err))
      | Inr jobID \<Rightarrow> Ret (Inr jobID))))"

definition p_Get :: "'k redis_cmds \<Rightarrow> string \<Rightarrow> ('k world, goerr + string) prog" where
  "p_Get R key = pbind (p_round_trip (GET R key)) (\<lambda>r. Ret (nil_reply r))"

definition p_Dequeue :: "codec \<Rightarrow> 'k redis_cmds \<Rightarrow> string list \<Rightarrow> ('k world, goerr + Job option) prog" where
  "p_Dequeue C R queues =
     pbind (p_dequeue_loop R queues) (\<lambda>r. case r of
        Inl err \<Rightarrow> Ret (Inl err)
      | Inr jobID \<Rightarrow>
          if jobID = '''' then Ret (Inr None)
          else pbind (p_Get R (jobKey jobID)) (\<lambda>d.
            Ret (case d of
                Inl err \<Rightarrow> Inl (WrapError ''get job in dequeue: '' err)
              | Inr data \<Rightarrow>
                  (case jsonUnmarshal C data of
                     Inl err \<Rightarrow> Inl (WrapError ''job unmarshal: '' err)
                   | Inr job \<Rightarrow> Inr (Some job)))))"

definition p_Acknowledge :: "'k redis_cmds \<Rightarrow> Job \<Rightarrow> ('k world, goerr + unit) prog" where
  "p_Acknowledge R job =
     pbind (p_round_trip (ZREM R activeKey (ID job))) (\<lambda>r. case r of
        Inl err \<Rightarrow> Ret (Inl (WrapError ''remove from active: '' err))
      | Inr _ \<Rightarrow> pbind (p_round_trip (DEL R (jobKey (ID job)))) (\<lambda>r'.
          Ret (case r' of
              Inl err \<Rightarrow> Inl (WrapError ''delete job key: '' err)
            | Inr _ \<Rightarrow> Inr ())))"

definition p_Requeue :: "codec \<Rightarrow> 'k redis_cmds \<Rightarrow> Job \<Rightarrow> duration \<Rightarrow> ('k world, goerr + unit) prog" where
  "p_Requeue C R job delay =
     (case jsonMarshal C job of
        Inl err \<Rightarrow> Ret (Inl (WrapError ''job data marshal: '' err))
      | Inr data \<Rightarrow>
          pbind (atomically time_Now) (\<lambda>now.
          pbind (p_round_trip (setZaddZremScript R
                 (jobKey (ID job)) (retryKey (Queue job)) activeKey
                 data (Unix (now + delay)) (ID job))) (\<lambda>r.
          Ret (case r of
              Inl err \<Rightarrow> Inl (WrapError ''atomic requeue: '' err)
            | Inr _ \<Rightarrow> Inr ()))))"

fun p_promote_ids ::
  "codec \<Rightarrow> 'k redis_cmds \<Rightarrow> string \<Rightarrow> string list \<Rightarrow> int \<Rightarrow> ('k world, int \<times> goerr option) prog" where
  "p_promote_ids C R sourceKey [] promoted = Ret (promoted, None)"
| "p_promote_ids C R sourceKey (i # ids) promoted =
     pbind (p_round_trip (promoteJobScript C R sourceKey (jobKey i) i)) (\<lambda>r. case r of
        Inl err \<Rightarrow> Ret (promoted, Some (WrapError (''promote job '' @ i @ '': '') err))
      | Inr n \<Rightarrow> p_promote_ids C R sourceKey ids (if n = 1 then promoted + 1 else promoted))"

fun p_promote_sources ::
  "codec \<Rightarrow> 'k redis_cmds \<Rightarrow> int \<Rightarrow> string list \<Rightarrow> int \<Rightarrow> ('k world, int \<times> goerr option) prog" where
  "p_promote_sources C R now [] promoted = Ret (promoted, None)"
| "p_promote_sources C R now (sourceKey # sourceKeys) promoted =
     pbind (p_round_trip (ZRANGEBYSCORE R sourceKey now)) (\<lambda>r. case r of
        Inl err \<Rightarrow> Ret (promoted, Some (WrapError (''zrangebyscore '' @ sourceKey @ '': '') err))
      | Inr ids \<Rightarrow>
          pbind (p_promote_ids C R sourceKey ids promoted) (\<lambda>p. case snd p of
             Some err \<Rightarrow> Ret p
           | None \<Rightarrow> p_promote_sources C R now sourceKeys (fst p)))"

definition p_PromoteDueJobs :: "codec \<Rightarrow> 'k redis_cmds \<Rightarrow> string list \<Rightarrow> ('k world, int \<times> goerr option) prog" where
  "p_PromoteDueJobs C R queues =
     pbind (atomically time_Now) (\<lambda>t. p_promote_sources C R (Unix t) (scheduledKey # map retryKey queues) 0)"

definition p_MoveToDeadLetter :: "codec \<Rightarrow> 'k redis_cmds \<Rightarrow> Job \<Rightarrow> ('k world, (goerr + unit) \<times> Job) prog" where
  "p_MoveToDeadLetter C R job0 =
     (let job = job0\<lparr>Status := StatusDead\<rparr> in
      case jsonMarshal C job of
        Inl err \<Rightarrow> Ret (Inl (WrapError ''job data marshal: '' err), job)
      | Inr data \<Rightarrow>
          pbind (p_round_trip (setLpushZremScript R
                 (jobKey (ID job)) (deadKey (Queue job)) activeKey data (ID job))) (\<lambda>r.
          Ret (case r of
              Inl err \<Rightarrow> (Inl (WrapError ''atomic move to dead letter: '' err), job)
            | Inr _ \<Rightarrow> (Inr (), job))))"

definition p_GetJob :: "codec \<Rightarrow> 'k redis_cmds \<Rightarrow> string \<Rightarrow> ('k world, goerr + Job option) prog" where
  "p_GetJob C R i =
     pbind (p_Get R (jobKey i)) (\<lambda>d.
     Ret (case d of
         Inl err \<Rightarrow>
           if err = RedisNil then Inr None
           else Inl (WrapError (''get job '' @ i @ '': '') err)
       | Inr data \<Rightarrow>
           (case jsonUnmarshal C data of
              Inl err \<Rightarrow> Inl (WrapError (''unmarshal job '' @ i @ '': '') err)
            | Inr job \<Rightarrow> Inr (Some job))))"

definition p_RetryDeadJob :: "codec \<Rightarrow> 'k redis_cmds \<Rightarrow> string \<Rightarrow> ('k world, goerr + unit) prog" where
  "p_RetryDeadJob C R i =
     pbind (p_GetJob C R i) (\<lambda>g. case g of
        Inl err \<Rightarrow> Ret (Inl err)
      | Inr None \<Rightarrow> Ret (Inl (ErrorString (''job '' @ i @ '' not found'')))
      | Inr (Some job0) \<Rightarrow> pbind (atomically time_Now) (\<lambda>now.
          let job = job0\<lparr>Status := StatusPending, Attempts := 0, LastError := '''', ProcessAt := now\<rparr> in
          case jsonMarshal C job of
             Inl err \<Rightarrow> Ret (Inl (WrapError (''marshal job '' @ i @ '': '') err))
           | Inr newData \<Rightarrow>
               pbind (p_round_trip (retryDeadJobScript R
                      (deadKey (Queue job)) (jobKey i) (queueKey (Queue job)) i newData)) (\<lambda>r.
               Ret (case r of
                   Inl err \<Rightarrow> Inl (WrapError (''retry dead job '' @ i @ '': '') err)
                 | Inr n \<Rightarrow>
                     if n \<noteq> 1
                     then Inl (ErrorString
                       (''job '' @ i @ '' not found in dead-letter queue '' @ Queue job))
                     else Inr ()))))"

definition p_DeleteJob :: "codec \<Rightarrow> 'k redis_cmds \<Rightarrow> string \<Rightarrow> ('k world, goerr + unit) prog" where
  "p_DeleteJob C R i =
     pbind (p_GetJob C R i) (\<lambda>g. case g of
        Inl err \<Rightarrow> Ret (Inl err)
      | Inr None \<Rightarrow> Ret (Inr ())
      | Inr (Some job) \<Rightarrow>
          pbind (p_pipe_Exec [
                 any_reply (LREM R (queueKey (Queue job)) 0 i),
                 any_reply (ZREM R (retryKey (Queue job)) i),
                 any_reply (LREM R (deadKey (Queue job)) 0 i),
                 any_reply (ZREM R activeKey i),
                 any_reply (ZREM R scheduledKey i),
                 any_reply (DEL R (jobKey i))]) (\<lambda>r.
          Ret (case r of
              Inl err \<Rightarrow> Inl (WrapError (''delete job '' @ i @ '': '') err)
            | Inr _ \<Rightarrow> Inr ())))"

text \<open>A call, its result ignored. Reading calls change nothing, and are one step.\<close>

definition silently :: "('w, 'a) prog \<Rightarrow> ('w, unit) prog" where
  "silently p = pbind p (\<lambda>_. Ret ())"

fun call_prog :: "codec \<Rightarrow> 'k redis_cmds \<Rightarrow> call \<Rightarrow> ('k world, unit) prog" where
  "call_prog C R (CEnqueue j) = silently (p_Enqueue C R j)"
| "call_prog C R (CDequeue qs) = silently (p_Dequeue C R qs)"
| "call_prog C R (CAcknowledge j) = silently (p_Acknowledge R j)"
| "call_prog C R (CRequeue j d) = silently (p_Requeue C R j d)"
| "call_prog C R (CMoveToDeadLetter j) = silently (p_MoveToDeadLetter C R j)"
| "call_prog C R (CPromoteDueJobs qs) = silently (p_PromoteDueJobs C R qs)"
| "call_prog C R (CGetJob i) = silently (p_GetJob C R i)"
| "call_prog C R (CRetryDeadJob i) = silently (p_RetryDeadJob C R i)"
| "call_prog C R (CDeleteJob i) = silently (p_DeleteJob C R i)"
| "call_prog C R c = atomically (run_call (redisBroker C R) c)"

section \<open>Alone, the requests make the call\<close>

lemma run_Get [simp]: "run_prog (p_Get R k) w = run_state (redis_Get R k) w"
  by (simp add: p_Get_def redis_Get_def)

lemma run_GetJob [simp]: "run_prog (p_GetJob C R i) w = run_state (redis_GetJob C R i) w"
  by (simp add: p_GetJob_def redis_GetJob_def)

lemma run_Enqueue [simp]: "run_prog (p_Enqueue C R j) w = run_state (redis_Enqueue C R j) w"
  by (simp add: p_Enqueue_def redis_Enqueue_def split_beta split: sum.split)

lemma run_dequeue_loop [simp]: "run_prog (p_dequeue_loop R qs) w = run_state (dequeue_loop R qs) w"
  by (induction qs arbitrary: w) (simp_all add: split_beta split: sum.split)

lemma run_Dequeue [simp]: "run_prog (p_Dequeue C R qs) w = run_state (redis_Dequeue C R qs) w"
  by (simp add: p_Dequeue_def redis_Dequeue_def split_beta split: sum.split)

lemma run_Acknowledge [simp]: "run_prog (p_Acknowledge R j) w = run_state (redis_Acknowledge R j) w"
  by (simp add: p_Acknowledge_def redis_Acknowledge_def split_beta split: sum.split)

lemma run_Requeue [simp]: "run_prog (p_Requeue C R j d) w = run_state (redis_Requeue C R j d) w"
  by (simp add: p_Requeue_def redis_Requeue_def split_beta split: sum.split)

lemma run_MoveToDeadLetter [simp]: "run_prog (p_MoveToDeadLetter C R j) w = run_state (redis_MoveToDeadLetter C R j) w"
  by (simp add: p_MoveToDeadLetter_def redis_MoveToDeadLetter_def Let_def split_beta split: sum.split)

lemma run_promote_ids [simp]: "run_prog (p_promote_ids C R k ids n) w = run_state (promote_ids C R k ids n) w"
  by (induction ids arbitrary: n w) (simp_all add: split_beta split: sum.split)

lemma run_promote_sources [simp]: "run_prog (p_promote_sources C R t ks n) w = run_state (promote_sources C R t ks n) w"
  by (induction ks arbitrary: n w) (simp_all add: split_beta split: sum.split option.split)

lemma run_PromoteDueJobs [simp]: "run_prog (p_PromoteDueJobs C R qs) w = run_state (redis_PromoteDueJobs C R qs) w"
  by (simp add: p_PromoteDueJobs_def redis_PromoteDueJobs_def del: promote_sources.simps p_promote_sources.simps)

lemma run_RetryDeadJob [simp]: "run_prog (p_RetryDeadJob C R i) w = run_state (redis_RetryDeadJob C R i) w"
  by (simp add: p_RetryDeadJob_def redis_RetryDeadJob_def Let_def split_beta split: sum.split option.split)

lemma run_DeleteJob [simp]: "run_prog (p_DeleteJob C R i) w = run_state (redis_DeleteJob C R i) w"
  by (simp add: p_DeleteJob_def redis_DeleteJob_def split_beta split: sum.split option.split)

lemma run_silently: "(\<And>w. run_prog p w = run_state m w) \<Longrightarrow> run_prog (silently p) w = run_state (ignore m) w"
  by (simp add: silently_def ignore_def split_beta)

lemma run_silently_alone: "run_prog p w = (x, w') \<Longrightarrow> run_prog (silently p) w = ((), w')"
  by (simp add: silently_def)

lemma run_call_prog: "run_prog (call_prog C R c) w = run_state (run_call (redisBroker C R) c) w"
  by (cases c) (simp_all add: redisBroker_def run_silently)

section \<open>Invariants of the steps\<close>

text \<open>Every step of the call, from any world that satisfies the invariant and whatever happened since the step before,
  keeps the invariant.\<close>

inductive step_keeps :: "('w \<Rightarrow> bool) \<Rightarrow> ('w, 'a) prog \<Rightarrow> bool" for P :: "'w \<Rightarrow> bool" where
  Ret: "step_keeps P (Ret x)"
| Req: "(\<And>w. P w \<Longrightarrow> P (snd (f w)) \<and> step_keeps P (fst (f w))) \<Longrightarrow> step_keeps P (Req f)"

inductive_cases step_keeps_ReqE: "step_keeps P (Req f)"

declare step_keeps.Ret [keep_intro]

lemma step_keeps_atomically [keep_intro]: "keeps P m \<Longrightarrow> step_keeps P (atomically m)"
  unfolding atomically_def by (intro step_keeps.Req) (auto simp: keeps_def split_beta intro: step_keeps.Ret)

lemma step_keeps_pbind [keep_intro]:
  assumes "step_keeps P p" "\<And>x. step_keeps P (g x)"
  shows "step_keeps P (pbind p g)"
  using assms(1) by induction (auto intro: step_keeps.Req assms(2))

lemma step_keeps_case_sum [keep_intro]:
  assumes "\<And>e. step_keeps P (f e)" "\<And>x. step_keeps P (g x)"
  shows "step_keeps P (case r of Inl e \<Rightarrow> f e | Inr x \<Rightarrow> g x)"
  using assms by (cases r) simp_all

lemma step_keeps_case_option [keep_intro]:
  assumes "step_keeps P f" "\<And>x. step_keeps P (g x)"
  shows "step_keeps P (case r of None \<Rightarrow> f | Some x \<Rightarrow> g x)"
  using assms by (cases r) simp_all

lemma step_keeps_if [keep_intro]: "step_keeps P f \<Longrightarrow> step_keeps P g \<Longrightarrow> step_keeps P (if b then f else g)"
  by simp

lemma step_keeps_case_net [keep_intro]:
  assumes "\<And>n. step_keeps P (f n)" "\<And>n. step_keeps P (g n)" "\<And>n. step_keeps P (h n)"
  shows "step_keeps P (case r of Delivered n \<Rightarrow> f n | Failed n \<Rightarrow> g n | Cut n \<Rightarrow> h n)"
  using assms by (cases r) simp_all

lemma step_keeps_times [keep_intro]: "keeps P m \<Longrightarrow> step_keeps (winv P G) (p_times n m)"
  by (induction n) (auto intro!: keep_intro)

lemma step_keeps_round_trip [keep_intro]: "keeps P m \<Longrightarrow> step_keeps (winv P G) (p_round_trip m)"
  unfolding p_round_trip_def by (intro keep_intro)

lemma step_keeps_pipeline [keep_intro]:
  "(\<And>m. m \<in> set ms \<Longrightarrow> keeps P m) \<Longrightarrow> step_keeps (winv P G) (p_pipeline ms)"
  by (induction ms) (auto intro!: keep_intro)

lemma step_keeps_pipelines [keep_intro]:
  "(\<And>m. m \<in> set ms \<Longrightarrow> keeps P m) \<Longrightarrow> step_keeps (winv P G) (p_pipelines n ms)"
  by (induction n) (auto intro!: keep_intro)

lemma step_keeps_pipe_Exec [keep_intro]:
  "(\<And>m. m \<in> set ms \<Longrightarrow> keeps P m) \<Longrightarrow> step_keeps (winv P G) (p_pipe_Exec ms)"
  unfolding p_pipe_Exec_def by (intro keep_intro) (auto dest: in_set_takeD)

lemma step_keeps_silently [keep_intro]: "step_keeps P p \<Longrightarrow> step_keeps P (silently p)"
  unfolding silently_def by (intro keep_intro)

text \<open>An invariant of the steps is one of the whole call.\<close>

lemma run_step_keeps: "step_keeps P p \<Longrightarrow> P w \<Longrightarrow> P (snd (run_prog p w))"
  by (induction arbitrary: w rule: step_keeps.induct) auto

lemma keeps_steps: "step_keeps P p \<Longrightarrow> (\<And>w. run_prog p w = run_state m w) \<Longrightarrow> keeps P m"
  by (rule keepsI) (metis run_step_keeps)

section \<open>Calls side by side\<close>

text \<open>Any number of calls that clients have begun, on one world: one of them makes its next step. A call whose client has
  died, or that begins later, is one that makes no step.\<close>

inductive conc_step :: "('w, 'a) prog list \<times> 'w \<Rightarrow> ('w, 'a) prog list \<times> 'w \<Rightarrow> bool" where
  "k < length ps \<Longrightarrow> ps ! k = Req f \<Longrightarrow> conc_step (ps, w) (ps[k := fst (f w)], snd (f w))"

inductive_cases conc_stepE: "conc_step (ps, w) c"

lemma conc_keeps:
  assumes "conc_step\<^sup>*\<^sup>* (ps, w) (ps', w')" "P w" "\<forall>p \<in> set ps. step_keeps P p"
  shows "P w'"
proof -
  have "P (snd c) \<and> (\<forall>p \<in> set (fst c). step_keeps P p)" if "conc_step\<^sup>*\<^sup>* (ps, w) c" for c
    using that
  proof (induction rule: rtranclp_induct)
    case (step c d)
    obtain qs v where c: "c = (qs, v)" by (rule prod.exhaust)
    from step.hyps(2) [unfolded c] obtain k f where
      k: "k < length qs" "qs ! k = Req f" "d = (qs[k := fst (f v)], snd (f v))" by (rule conc_stepE)
    from k step.IH c have "step_keeps P (Req f)" "P v" by (metis fst_conv nth_mem, simp)
    then have "P (snd (f v)) \<and> step_keeps P (fst (f v))" by (blast elim: step_keeps_ReqE)
    with step.IH c k show ?case by (auto dest!: subsetD [OF set_update_subset_insert])
  qed (use assms(2,3) in simp)
  from this [OF assms(1)] show ?thesis by simp
qed

text \<open>A call, or a prefix of one, may run undisturbed.\<close>

lemma conc_pbind:
  assumes "k < length ps" "ps ! k = pbind p g" "run_prog p w = (x, w')"
  shows "conc_step\<^sup>*\<^sup>* (ps, w) (ps[k := g x], w')"
  using assms
proof (induction p arbitrary: ps w rule: prog_induct)
  case (Ret y)
  then have "ps[k := g x] = ps" using list_update_id [of ps k] by simp
  with Ret show ?case by simp
next
  case (Req f)
  let ?p = "fst (f w)" and ?w = "snd (f w)"
  have "conc_step (ps, w) (ps[k := pbind ?p g], ?w)"
    using conc_step.intros [OF Req.prems(1), where w = w] Req.prems(2) by fastforce
  moreover have "conc_step\<^sup>*\<^sup>* (ps[k := pbind ?p g], ?w) (ps[k := pbind ?p g, k := g x], w')"
    by (rule Req.IH) (use Req.prems in simp_all)
  ultimately show ?case by (simp add: converse_rtranclp_into_rtranclp)
qed

lemma conc_call:
  assumes "k < length ps" "run_prog (ps ! k) w = (x, w')"
  shows "conc_step\<^sup>*\<^sup>* (ps, w) (ps[k := Ret x], w')"
  using conc_pbind [OF assms(1) _ assms(2), of Ret] by (simp add: pbind_Ret)

lemma conc_silently:
  assumes "k < length ps" "ps ! k = silently (pbind p g)" "run_prog p w = (x, w')" "p' = g x"
  shows "conc_step\<^sup>*\<^sup>* (ps, w) (ps[k := silently p'], w')"
  using conc_pbind [OF assms(1) _ assms(3), of "\<lambda>x. silently (g x)"] assms(2,4) by (simp add: silently_def pbind_assoc)

end
