(* ===== verification/Redis_Safety.thy ===== *)
theory Redis_Safety
  imports Redis_Store Redis_Requests
begin

text \<open>
  What no call of the Redis broker ever does, whatever the network does to its requests: put a
  value of the wrong type under a key, or lose a job. \<open>typed\<close> and \<open>live\<close> are
  invariants of the scripts, hence of the methods, hence of every history of calls.
\<close>

section \<open>Key types\<close>

lemma typed_db [simp]:
  assumes "typed ks"
  shows "typed (db_enqueue i d q at now ks)" "typed (snd (db_claim q n ks))"
    "typed (db_requeue i d q at ks)" "typed (db_bury i d q ks)" "typed (db_revive i d q ks)"
  using assms
  by (simp_all add: db_enqueue_def db_claim_def db_requeue_def db_bury_def db_revive_def Let_def)

lemma typed_db_promote:
  "typed ks \<Longrightarrow> src = scheduledKey \<or> src = retryKey p \<Longrightarrow> typed (snd (db_promote C src i ks))"
  by (auto simp: db_promote_def Let_def split: option.split sum.split)

section \<open>Jobs are not lost\<close>

text \<open>A job is live while it is somewhere the broker will look, and its record is there and names
  a queue.\<close>

definition located :: "string \<Rightarrow> keyspace \<Rightarrow> bool" where
  "located i ks \<longleftrightarrow> (\<exists>q. i \<in> set (pending ks q)) \<or> (\<exists>q. i \<in> set (dead ks q))
     \<or> (\<exists>q. zmem i (retrying ks q)) \<or> zmem i (scheduled ks) \<or> zmem i (active ks)"

definition recorded :: "codec \<Rightarrow> string \<Rightarrow> keyspace \<Rightarrow> bool" where
  "recorded C i ks \<longleftrightarrow> (\<exists>d q. record_of ks i = Some d \<and> cjson_queue C d = Inr q)"

definition live :: "codec \<Rightarrow> string \<Rightarrow> keyspace \<Rightarrow> bool" where
  "live C i ks \<longleftrightarrow> typed ks \<and> recorded C i ks \<and> located i ks"

text \<open>Lua reads the queue of every record the program writes.\<close>

definition codec_queue :: "codec \<Rightarrow> bool" where
  "codec_queue C \<longleftrightarrow> (\<forall>j d. jsonMarshal C j = Inr d \<longrightarrow> (\<exists>q. cjson_queue C d = Inr q))"

lemma live_typed: "live C i ks \<Longrightarrow> typed ks"
  by (simp add: live_def)

lemma recorded_set: "recorded C i ks \<Longrightarrow> cjson_queue C d = Inr q \<Longrightarrow> recorded C i (ks(jobKey j \<mapsto> RStr d))"
  by (auto simp: recorded_def)

lemma located_set [simp]: "located i (ks(jobKey j \<mapsto> RStr d)) \<longleftrightarrow> located i ks"
  by (simp add: located_def)

lemma recorded_put [simp]:
  "recorded C i (put (queueKey q) (RList xs) ks) \<longleftrightarrow> recorded C i ks"
  "recorded C i (put (deadKey q) (RList xs) ks) \<longleftrightarrow> recorded C i ks"
  "recorded C i (put (retryKey q) (RZset z) ks) \<longleftrightarrow> recorded C i ks"
  "recorded C i (put activeKey (RZset z) ks) \<longleftrightarrow> recorded C i ks"
  "recorded C i (put scheduledKey (RZset z) ks) \<longleftrightarrow> recorded C i ks"
  by (simp_all add: recorded_def)

text \<open>Where a job can be, as introduction rules.\<close>

lemma locatedI:
  "i \<in> set (pending ks q) \<Longrightarrow> located i ks" "i \<in> set (dead ks q) \<Longrightarrow> located i ks"
  "zmem i (retrying ks q) \<Longrightarrow> located i ks" "zmem i (scheduled ks) \<Longrightarrow> located i ks"
  "zmem i (active ks) \<Longrightarrow> located i ks"
  by (auto simp: located_def)

text \<open>A job stays located when the part in which it was found keeps it.\<close>

lemma located_mono:
  assumes "located i ks"
    and "\<And>q. i \<in> set (pending ks q) \<Longrightarrow> located i ks'"
    and "\<And>q. i \<in> set (dead ks q) \<Longrightarrow> located i ks'"
    and "\<And>q. zmem i (retrying ks q) \<Longrightarrow> located i ks'"
    and "zmem i (scheduled ks) \<Longrightarrow> located i ks'"
    and "zmem i (active ks) \<Longrightarrow> located i ks'"
  shows "located i ks'"
  using assms unfolding located_def by blast

lemma located_put_list:
  assumes "located i ks"
  shows "i \<in> set xs \<or> i \<notin> set (pending ks q) \<Longrightarrow> located i (put (queueKey q) (RList xs) ks)"
    and "i \<in> set xs \<or> i \<notin> set (dead ks q) \<Longrightarrow> located i (put (deadKey q) (RList xs) ks)"
  using assms unfolding located_def by (simp_all, metis+)

lemma located_put_zset:
  assumes "located i ks"
  shows "zmem i z \<or> \<not> zmem i (retrying ks q) \<Longrightarrow> located i (put (retryKey q) (RZset z) ks)"
    and "zmem i z \<or> \<not> zmem i (scheduled ks) \<Longrightarrow> located i (put scheduledKey (RZset z) ks)"
    and "zmem i z \<or> \<not> zmem i (active ks) \<Longrightarrow> located i (put activeKey (RZset z) ks)"
  using assms unfolding located_def by (simp_all, metis+)

lemma live_enqueue:
  assumes "live C i ks" "cjson_queue C d = Inr q'"
  shows "live C i (db_enqueue j d q at now ks)"
  using assms
  by (auto simp: live_def db_enqueue_def Let_def intro!: recorded_set located_put_list located_put_zset)

lemma in_butlast_or_last: "x \<in> set xs \<Longrightarrow> x \<in> set (butlast xs) \<or> x = last xs"
  by (induction xs) auto

lemma live_claim:
  assumes "live C i ks"
  shows "live C i (snd (db_claim q n ks))"
proof (cases "i = last (pending ks q)")
  case True
  with assms show ?thesis
    by (auto simp: live_def db_claim_def intro: located_put_list locatedI)
next
  case False
  then have "i \<in> set (pending ks q) \<Longrightarrow> i \<in> set (butlast (pending ks q))"
    using in_butlast_or_last by metis
  with assms show ?thesis
    by (auto simp: live_def db_claim_def intro!: located_put_list located_put_zset)
qed

lemma live_requeue:
  assumes "live C i ks" "cjson_queue C d = Inr q'"
  shows "live C i (db_requeue j d q at ks)"
proof (cases "i = j")
  case True
  with assms show ?thesis
    by (auto simp: live_def db_requeue_def intro: recorded_set locatedI(3) [where q = q])
next
  case False
  with assms show ?thesis
    by (auto simp: live_def db_requeue_def intro!: recorded_set located_put_zset)
qed

lemma live_bury:
  assumes "live C i ks" "cjson_queue C d = Inr q'"
  shows "live C i (db_bury j d q ks)"
proof (cases "i = j")
  case True
  with assms show ?thesis
    by (auto simp: live_def db_bury_def intro: recorded_set locatedI(2) [where q = q])
next
  case False
  with assms show ?thesis
    by (auto simp: live_def db_bury_def intro!: recorded_set located_put_zset located_put_list)
qed

lemma live_revive:
  assumes "live C i ks" "cjson_queue C d = Inr q'"
  shows "live C i (db_revive j d q ks)"
proof (cases "i = j")
  case True
  with assms show ?thesis
    by (auto simp: live_def db_revive_def intro: recorded_set locatedI(1) [where q = q])
next
  case False
  with assms show ?thesis
    by (auto simp: live_def db_revive_def in_set_remove1 intro!: recorded_set located_put_list)
qed

lemma live_promote:
  assumes "live C i ks" "src = scheduledKey \<or> src = retryKey p"
  shows "live C i (snd (db_promote C src j ks))"
proof (cases "i = j")
  case True
  from assms(1) obtain d q where "record_of ks i = Some d" "cjson_queue C d = Inr q"
    by (auto simp: live_def recorded_def)
  with True assms show ?thesis
    by (auto simp: live_def db_promote_def Let_def scheduled_def [symmetric] retrying_def [symmetric]
        intro: locatedI(1) [where q = q] located_put_zset)
next
  case False
  with assms show ?thesis
    by (auto simp: live_def db_promote_def Let_def scheduled_def [symmetric] retrying_def [symmetric]
        split: option.split sum.split intro!: located_put_zset located_put_list)
qed

section \<open>Invariants of the requests\<close>

lemma keeps_reads [keep_intro]:
  "keeps P (read_list k f)" "keeps P (read_zset k g)" "keeps P (doc_GET k)"
  by (auto simp: keeps_def read_list_def read_zset_def doc_GET_def split: option.splits rvalue.splits)

lemma keeps_read_cmds [keep_intro]:
  "keeps P (doc_LRANGE k i j)" "keeps P (doc_LLEN k)" "keeps P (doc_ZRANGE k i j)"
  "keeps P (doc_ZRANGEBYSCORE k mx)" "keeps P (doc_ZCARD k)"
  by (simp_all add: doc_list_cmds doc_zset_cmds keeps_reads)

lemma keeps_typed_scripts:
  "keeps typed (rpopZaddScript (redis_doc sc) (queueKey q) activeKey n)"
  "keeps typed (setBranchLpushZaddScript (redis_doc sc) (jobKey i) (queueKey q) scheduledKey d at now q' i)"
  "keeps typed (setZaddZremScript (redis_doc sc) (jobKey i) (retryKey q) activeKey d at i)"
  "keeps typed (setLpushZremScript (redis_doc sc) (jobKey i) (deadKey q) activeKey d i)"
  "keeps typed (retryDeadJobScript (redis_doc sc) (deadKey q) (jobKey i) (queueKey q) i d)"
  "src = scheduledKey \<or> src = retryKey p \<Longrightarrow>
     keeps typed (promoteJobScript C (redis_doc sc) src (jobKey i) i)"
  by (auto simp: keeps_def script_run typed_db_promote)

lemma keeps_typed_cmds:
  "keeps typed (doc_ZREM activeKey m)" "keeps typed (doc_ZREM scheduledKey m)"
  "keeps typed (doc_ZREM (retryKey q) m)" "keeps typed (doc_LREM (queueKey q) n m)"
  "keeps typed (doc_LREM (deadKey q) n m)" "keeps typed (doc_DEL (jobKey i))"
  by (auto simp: keeps_def cmd_run)

lemma keeps_live_scripts:
  "keeps (live C j) (rpopZaddScript (redis_doc sc) (queueKey q) activeKey n)"
  "cjson_queue C d = Inr qd \<Longrightarrow> keeps (live C j)
     (setBranchLpushZaddScript (redis_doc sc) (jobKey i) (queueKey q) scheduledKey d at now q' i)"
  "cjson_queue C d = Inr qd \<Longrightarrow> keeps (live C j)
     (setZaddZremScript (redis_doc sc) (jobKey i) (retryKey q) activeKey d at i)"
  "cjson_queue C d = Inr qd \<Longrightarrow> keeps (live C j)
     (setLpushZremScript (redis_doc sc) (jobKey i) (deadKey q) activeKey d i)"
  "cjson_queue C d = Inr qd \<Longrightarrow> keeps (live C j)
     (retryDeadJobScript (redis_doc sc) (deadKey q) (jobKey i) (queueKey q) i d)"
  "src = scheduledKey \<or> src = retryKey p \<Longrightarrow>
     keeps (live C j) (promoteJobScript C (redis_doc sc) src (jobKey i) i)"
  by (auto simp: keeps_def script_run live_typed live_claim live_enqueue live_requeue live_bury
      live_revive live_promote)

lemma recorded_del [simp]: "i \<noteq> j \<Longrightarrow> recorded C i (ks(jobKey j := None)) \<longleftrightarrow> recorded C i ks"
  by (simp add: recorded_def)

lemma located_del [simp]: "located i (ks(jobKey j := None)) \<longleftrightarrow> located i ks"
  by (simp add: located_def)

lemma keeps_live_cmds:
  assumes "i \<noteq> j"
  shows "keeps (live C i) (doc_ZREM activeKey j)" "keeps (live C i) (doc_ZREM scheduledKey j)"
    "keeps (live C i) (doc_ZREM (retryKey q) j)" "keeps (live C i) (doc_LREM (queueKey q) 0 j)"
    "keeps (live C i) (doc_LREM (deadKey q) 0 j)" "keeps (live C i) (doc_DEL (jobKey j))"
  using assms
  by (auto simp: keeps_def live_def cmd_run lrem_0
      retrying_def [symmetric] scheduled_def [symmetric] active_def [symmetric]
      pending_def [symmetric] dead_def [symmetric]
      intro!: located_put_list located_put_zset)

section \<open>From requests to methods\<close>

text \<open>Methods that only read keep every property of the keyspace.\<close>

context redis_server
begin

lemmas read_inv =
  keeps_sim [OF GET_law keeps_reads(3)] keeps_sim [OF LRANGE_law keeps_read_cmds(1)]
  keeps_sim [OF LLEN_law keeps_read_cmds(2)] keeps_sim [OF ZRANGE_law keeps_read_cmds(3)]
  keeps_sim [OF ZRANGEBYSCORE_law keeps_read_cmds(4)] keeps_sim [OF ZCARD_law keeps_read_cmds(5)]

lemma SCAN_inv: "keeps (\<lambda>s. P (view s)) (SCAN R pat)"
  by (simp add: keeps_def SCAN_pure)

lemma Get_steps: "step_keeps (winv (\<lambda>s. P (view s)) G) (p_Get R k)"
  unfolding p_Get_def by (intro keep_intro read_inv)

lemma GetJob_steps: "step_keeps (winv (\<lambda>s. P (view s)) G) (p_GetJob C R i)"
  unfolding p_GetJob_def by (intro keep_intro Get_steps)

lemmas Get_inv = keeps_steps [OF Get_steps run_Get]
lemmas GetJob_inv = keeps_steps [OF GetJob_steps run_GetJob]

lemma scan_iter_inv: "keeps (winv (\<lambda>s. P (view s)) G) (scan_iter (SCAN R) pat)"
  unfolding scan_iter_def by (intro keep_intro SCAN_inv)

lemma collect_loop_inv: "keeps (winv (\<lambda>s. P (view s)) G) (collect_loop R pat l ids ks e)"
  by (induction ks arbitrary: ids) (auto intro!: keep_intro read_inv)

lemma fetch_jobs_inv: "keeps (winv (\<lambda>s. P (view s)) G) (fetch_jobs C R ids js)"
  by (induction ids arbitrary: js) (auto intro!: keep_intro Get_inv)

lemma GetJobsByStatus_inv: "keeps (winv (\<lambda>s. P (view s)) G) (redis_GetJobsByStatus C R st l)"
  unfolding redis_GetJobsByStatus_def redis_ids_by_status_def collectIDsFromLists_def
  by (intro keep_intro scan_iter_inv collect_loop_inv fetch_jobs_inv read_inv)

lemma scan_each_loop_inv:
  "(\<And>k m. keeps (winv (\<lambda>s. P (view s)) G) (fn k m)) \<Longrightarrow>
   keeps (winv (\<lambda>s. P (view s)) G) (scan_each_loop fn ks e m)"
  by (induction ks arbitrary: m) (auto intro!: keep_intro)

lemma attribute_loop_inv: "keeps (winv (\<lambda>s. P (view s)) G) (attribute_loop C R u ids m)"
  by (induction ids arbitrary: m) (auto intro!: keep_intro Get_inv)

lemma Close_inv: "keeps (winv (\<lambda>s. P (view s)) G) (redis_Close R)"
  unfolding redis_Close_def by (intro keep_intro)

lemma GetQueueStats_inv: "keeps (winv (\<lambda>s. P (view s)) G) (redis_GetQueueStats C R)"
  unfolding redis_GetQueueStats_def stats_step_def scanEach_def attributeGlobalSetToQueues_def
    count_key_def Let_def
  by (intro keep_intro scan_iter_inv scan_each_loop_inv attribute_loop_inv read_inv)

end

text \<open>
  An invariant of the keyspace that every script keeps, and that the commands which remove a job
  keep for the jobs in \<open>safe\<close>. Every method then keeps it on any server, whatever the
  network does.
\<close>

locale request_invariant = redis_server R view for R :: "'k redis_cmds" and view +
  fixes P :: "keyspace \<Rightarrow> bool" and safe :: "string \<Rightarrow> bool" and C :: codec
  assumes claim_inv: "keeps P (rpopZaddScript (redis_doc sc) (queueKey q) activeKey n)"
    and enqueue_inv: "jsonMarshal C j = Inr d \<Longrightarrow> keeps P
      (setBranchLpushZaddScript (redis_doc sc) (jobKey i) (queueKey q) scheduledKey d at now q' i)"
    and requeue_inv: "jsonMarshal C j = Inr d \<Longrightarrow> keeps P
      (setZaddZremScript (redis_doc sc) (jobKey i) (retryKey q) activeKey d at i)"
    and bury_inv: "jsonMarshal C j = Inr d \<Longrightarrow> keeps P
      (setLpushZremScript (redis_doc sc) (jobKey i) (deadKey q) activeKey d i)"
    and revive_inv: "jsonMarshal C j = Inr d \<Longrightarrow> keeps P
      (retryDeadJobScript (redis_doc sc) (deadKey q) (jobKey i) (queueKey q) i d)"
    and promote_inv: "src = scheduledKey \<or> src = retryKey p \<Longrightarrow>
      keeps P (promoteJobScript C (redis_doc sc) src (jobKey i) i)"
    and removal_inv: "safe i \<Longrightarrow>
      keeps P (doc_ZREM activeKey i) \<and> keeps P (doc_ZREM scheduledKey i)
      \<and> keeps P (doc_ZREM (retryKey q) i) \<and> keeps P (doc_LREM (queueKey q) 0 i)
      \<and> keeps P (doc_LREM (deadKey q) 0 i) \<and> keeps P (doc_DEL (jobKey i))"
begin

lemmas request_inv =
  keeps_sim [OF rpopZaddScript_sim claim_inv]
  keeps_sim [OF setBranchLpushZaddScript_sim enqueue_inv]
  keeps_sim [OF setZaddZremScript_sim requeue_inv]
  keeps_sim [OF setLpushZremScript_sim bury_inv]
  keeps_sim [OF retryDeadJobScript_sim revive_inv]
  keeps_sim [OF promoteJobScript_sim promote_inv]

lemma removal_inv_R:
  assumes "safe i"
  shows "keeps (\<lambda>s. P (view s)) (ZREM R activeKey i)"
    "keeps (\<lambda>s. P (view s)) (ZREM R scheduledKey i)"
    "keeps (\<lambda>s. P (view s)) (ZREM R (retryKey q) i)"
    "keeps (\<lambda>s. P (view s)) (LREM R (queueKey q) 0 i)"
    "keeps (\<lambda>s. P (view s)) (LREM R (deadKey q) 0 i)"
    "keeps (\<lambda>s. P (view s)) (DEL R (jobKey i))"
  by (simp_all add: keeps_sim [OF ZREM_law] keeps_sim [OF LREM_law] keeps_sim [OF DEL_law]
      removal_inv [OF assms])

lemma Enqueue_steps: "step_keeps (winv (\<lambda>s. P (view s)) G) (p_Enqueue C R j)"
  unfolding p_Enqueue_def
  by (cases "jsonMarshal C j") (auto intro!: keep_intro request_inv)

lemma dequeue_loop_steps: "step_keeps (winv (\<lambda>s. P (view s)) G) (p_dequeue_loop R qs)"
  by (induction qs) (auto intro!: keep_intro request_inv)

lemma Dequeue_steps: "step_keeps (winv (\<lambda>s. P (view s)) G) (p_Dequeue C R qs)"
  unfolding p_Dequeue_def by (intro keep_intro dequeue_loop_steps Get_steps)

lemma Acknowledge_steps: "safe (ID j) \<Longrightarrow> step_keeps (winv (\<lambda>s. P (view s)) G) (p_Acknowledge R j)"
  unfolding p_Acknowledge_def by (intro keep_intro removal_inv_R)

lemma Requeue_steps: "step_keeps (winv (\<lambda>s. P (view s)) G) (p_Requeue C R j t)"
  unfolding p_Requeue_def
  by (cases "jsonMarshal C j") (auto intro!: keep_intro request_inv)

lemma promote_ids_steps:
  "src = scheduledKey \<or> src = retryKey p \<Longrightarrow> step_keeps (winv (\<lambda>s. P (view s)) G) (p_promote_ids C R src ids n)"
  by (induction ids arbitrary: n) (auto intro!: keep_intro request_inv)

lemma promote_sources_steps:
  "(\<And>k. k \<in> set ks \<Longrightarrow> k = scheduledKey \<or> (\<exists>p. k = retryKey p)) \<Longrightarrow> step_keeps (winv (\<lambda>s. P (view s)) G) (p_promote_sources C R t ks n)"
proof (induction ks arbitrary: n)
  case (Cons k ks)
  then have "step_keeps (winv (\<lambda>s. P (view s)) G) (p_promote_ids C R k ids m)" for ids m
    using promote_ids_steps by (metis list.set_intros(1))
  with Cons show ?case by (auto intro!: keep_intro read_inv)
qed (simp add: step_keeps.Ret)

lemma PromoteDueJobs_steps: "step_keeps (winv (\<lambda>s. P (view s)) G) (p_PromoteDueJobs C R qs)"
  unfolding p_PromoteDueJobs_def by (intro keep_intro promote_sources_steps) auto

lemma MoveToDeadLetter_steps: "step_keeps (winv (\<lambda>s. P (view s)) G) (p_MoveToDeadLetter C R j)"
  unfolding p_MoveToDeadLetter_def Let_def
  by (cases "jsonMarshal C (j\<lparr>Status := StatusDead\<rparr>)") (auto intro!: keep_intro request_inv)

lemma revive_steps:
  "step_keeps (winv (\<lambda>s. P (view s)) G)
     (case jsonMarshal C j of Inl e \<Rightarrow> Ret (f e)
      | Inr d \<Rightarrow> pbind (p_round_trip (retryDeadJobScript R (deadKey q) (jobKey i) (queueKey q) i d)) (\<lambda>r. Ret (g r)))"
  by (cases "jsonMarshal C j") (auto intro!: keep_intro request_inv)

lemma RetryDeadJob_steps: "step_keeps (winv (\<lambda>s. P (view s)) G) (p_RetryDeadJob C R i)"
  unfolding p_RetryDeadJob_def Let_def by (intro keep_intro GetJob_steps revive_steps)

lemma DeleteJob_steps: "safe i \<Longrightarrow> step_keeps (winv (\<lambda>s. P (view s)) G) (p_DeleteJob C R i)"
  unfolding p_DeleteJob_def
  by (intro keep_intro GetJob_steps) (auto intro!: keep_intro removal_inv_R)

lemmas method_steps = Enqueue_steps Dequeue_steps Acknowledge_steps Requeue_steps PromoteDueJobs_steps
  MoveToDeadLetter_steps GetJob_steps RetryDeadJob_steps DeleteJob_steps

lemmas PromoteDueJobs_inv = keeps_steps [OF PromoteDueJobs_steps run_PromoteDueJobs]

lemma call_steps:
  assumes "\<And>i. removes i c \<Longrightarrow> safe i"
  shows "step_keeps (winv (\<lambda>s. P (view s)) G) (call_prog C R c)"
  using assms
  by (cases c) (auto simp: redisBroker_def removes_def
      intro!: keep_intro method_steps Close_inv GetJobsByStatus_inv GetQueueStats_inv)

lemma run_call_inv:
  assumes "\<And>i. removes i c \<Longrightarrow> safe i"
  shows "keeps (winv (\<lambda>s. P (view s)) G) (run_call (redisBroker C R) c)"
  by (rule keeps_steps [OF call_steps [OF assms] run_call_prog])

lemma run_calls_inv:
  assumes "\<And>c i. c \<in> set cs \<Longrightarrow> removes i c \<Longrightarrow> safe i"
  shows "keeps (winv (\<lambda>s. P (view s)) G) (run_calls (redisBroker C R) cs)"
  using assms by (intro keeps_run_calls run_call_inv) blast

end

text \<open>Both invariants are instances, on every server.\<close>

sublocale redis_server \<subseteq> typed: request_invariant R view typed "\<lambda>_. True" C for C
  by unfold_locales (simp_all add: keeps_typed_scripts keeps_typed_cmds)

locale redis_codec = redis_server R view for R :: "'k redis_cmds" and view +
  fixes C :: codec
  assumes codec: "codec_queue C"
begin

lemma marshal_queue: "jsonMarshal C j = Inr d \<Longrightarrow> \<exists>q. cjson_queue C d = Inr q"
  using codec by (simp add: codec_queue_def)

lemma marshal_live:
  assumes "jsonMarshal C j = Inr d"
  shows "keeps (live C i)
      (setBranchLpushZaddScript (redis_doc sc) (jobKey k) (queueKey q) scheduledKey d at now q' k)"
    "keeps (live C i) (setZaddZremScript (redis_doc sc) (jobKey k) (retryKey q) activeKey d at k)"
    "keeps (live C i) (setLpushZremScript (redis_doc sc) (jobKey k) (deadKey q) activeKey d k)"
    "keeps (live C i) (retryDeadJobScript (redis_doc sc) (deadKey q) (jobKey k) (queueKey q) k d)"
proof -
  obtain qd where "cjson_queue C d = Inr qd" using marshal_queue [OF assms] ..
  note rules = keeps_live_scripts(2-5) [OF this]
  show "keeps (live C i)
      (setBranchLpushZaddScript (redis_doc sc) (jobKey k) (queueKey q) scheduledKey d at now q' k)"
    by (rule rules)
  show "keeps (live C i) (setZaddZremScript (redis_doc sc) (jobKey k) (retryKey q) activeKey d at k)"
    by (rule rules)
  show "keeps (live C i) (setLpushZremScript (redis_doc sc) (jobKey k) (deadKey q) activeKey d k)"
    by (rule rules)
  show "keeps (live C i) (retryDeadJobScript (redis_doc sc) (deadKey q) (jobKey k) (queueKey q) k d)"
    by (rule rules)
qed

end

sublocale redis_codec \<subseteq> live: request_invariant R view "live C i" "\<lambda>j. j \<noteq> i" C for i
  by unfold_locales (auto simp: keeps_live_cmds intro: keeps_live_scripts(1,6) marshal_live)


section \<open>Histories\<close>

context redis_server
begin

lemma history_typed:
  assumes "typed (view (store w))"
  shows "typed (view (store (snd (run_state (run_calls (redisBroker C R) cs) w))))"
  using typed.run_calls_inv [where G = "\<lambda>_. True" and C = C and cs = cs] assms
  by (simp add: keeps_def winv_def)

end

context redis_codec
begin

lemma history_live:
  assumes "live C i (view (store w))" "\<forall>c \<in> set cs. \<not> removes i c"
  shows "live C i (view (store (snd (run_state (run_calls (redisBroker C R) cs) w))))"
proof -
  have "keeps (winv (\<lambda>s. live C i (view s)) (\<lambda>_. True)) (run_calls (redisBroker C R) cs)"
    using assms(2) by (intro live.run_calls_inv) blast
  with assms(1) show ?thesis by (simp add: keeps_def winv_def)
qed

end

text \<open>Calls side by side.\<close>

context request_invariant
begin

lemma concurrent_inv:
  assumes "conc_step\<^sup>*\<^sup>* (map (call_prog C R) cs, w) (ps, w')" "P (view (store w))"
    and "\<And>c i. c \<in> set cs \<Longrightarrow> removes i c \<Longrightarrow> safe i"
  shows "P (view (store w'))"
proof -
  have "winv (\<lambda>s. P (view s)) (\<lambda>_. True) w'"
  proof (rule conc_keeps [OF assms(1)])
    show "winv (\<lambda>s. P (view s)) (\<lambda>_. True) w" using assms(2) by (simp add: winv_def)
    show "\<forall>p \<in> set (map (call_prog C R) cs). step_keeps (winv (\<lambda>s. P (view s)) (\<lambda>_. True)) p"
      using assms(3) by (auto intro: call_steps)
  qed
  then show ?thesis by (simp add: winv_def)
qed

end

context redis_server
begin

lemma concurrent_typed:
  assumes "conc_step\<^sup>*\<^sup>* (map (call_prog C R) cs, w) (ps, w')" "typed (view (store w))"
  shows "typed (view (store w'))"
  by (rule typed.concurrent_inv [OF assms]) simp

end

context redis_codec
begin

lemma concurrent_live:
  assumes "conc_step\<^sup>*\<^sup>* (map (call_prog C R) cs, w) (ps, w')" "live C i (view (store w))" "\<forall>c \<in> set cs. \<not> removes i c"
  shows "live C i (view (store w'))"
  by (rule live.concurrent_inv [OF assms(1,2)]) (use assms(3) in blast)

end

end
