(* ===== verification/Codec.thy ===== *)
theory Codec
  imports Redis_Scripts
begin

text \<open>
  What the Redis broker relies on in the encoders of job records: the locale \<open>job_codec\<close>. Go's
  encoder turns every storable job into text that its decoder accepts; \<open>canon\<close> is the job
  that comes back (an encoder may normalise the payload or replace bytes that are not
  text), with the same identifier and queue, and the queue is also what the Lua decoder
  reads. The fields that the program itself rewrites do not decide whether a job is
  storable. \<open>text_codec\<close>, a self-delimiting text format for all jobs, interprets the locale.
\<close>

locale job_codec =
  fixes C :: codec and storable :: "Job \<Rightarrow> bool" and canon :: "Job \<Rightarrow> Job"
  assumes marshal_total: "storable j \<Longrightarrow> \<exists>d. jsonMarshal C j = Inr d"
    and unmarshal_marshal: "storable j \<Longrightarrow> jsonMarshal C j = Inr d \<Longrightarrow> jsonUnmarshal C d = Inr (canon j)"
    and cjson_marshal: "storable j \<Longrightarrow> jsonMarshal C j = Inr d \<Longrightarrow> cjson_queue C d = Inr (Queue j)"
    and canon_ID: "storable j \<Longrightarrow> ID (canon j) = ID j"
    and canon_Queue: "storable j \<Longrightarrow> Queue (canon j) = Queue j"
    and canon_storable: "storable j \<Longrightarrow> storable (canon j)"
    and storable_update: "storable j \<Longrightarrow>
          storable (j\<lparr>Status := st, Attempts := a, LastError := e, ProcessAt := t\<rparr>)"
begin

lemma marshalE:
  assumes "storable j"
  obtains d where "jsonMarshal C j = Inr d" "jsonUnmarshal C d = Inr (canon j)"
    "cjson_queue C d = Inr (Queue j)"
  using assms marshal_total unmarshal_marshal cjson_marshal by blast

lemma storable_fields:
  assumes "storable j"
  shows "storable (j\<lparr>Status := st\<rparr>)" "storable (j\<lparr>LastError := e\<rparr>)" "storable (j\<lparr>Attempts := a\<rparr>)"
proof -
  have "storable (j\<lparr>Status := st, Attempts := Attempts j, LastError := LastError j, ProcessAt := ProcessAt j\<rparr>)"
    "storable (j\<lparr>Status := Status j, Attempts := Attempts j, LastError := e, ProcessAt := ProcessAt j\<rparr>)"
    "storable (j\<lparr>Status := Status j, Attempts := a, LastError := LastError j, ProcessAt := ProcessAt j\<rparr>)"
    by (rule storable_update [OF assms])+
  then show "storable (j\<lparr>Status := st\<rparr>)" "storable (j\<lparr>LastError := e\<rparr>)" "storable (j\<lparr>Attempts := a\<rparr>)"
    by simp_all
qed

end

section \<open>A text format\<close>

text \<open>A string is written with a plus sign before each character and a full stop at its end.\<close>

fun enc_str :: "string \<Rightarrow> string" where
  "enc_str [] = ''.''"
| "enc_str (c # s) = CHR ''+'' # c # enc_str s"

fun dec_str :: "string \<Rightarrow> (string \<times> string) option" where
  "dec_str (x # xs) =
     (if x = CHR ''.'' then Some ([], xs)
      else case xs of [] \<Rightarrow> None
        | c # rest \<Rightarrow> (case dec_str rest of None \<Rightarrow> None | Some (s, r) \<Rightarrow> Some (c # s, r)))"
| "dec_str [] = None"

lemma dec_enc_str [simp]: "dec_str (enc_str s @ r) = Some (s, r)"
  by (induction s) simp_all

definition enc_strs :: "string list \<Rightarrow> string" where
  "enc_strs ss = concat (map enc_str ss)"

fun dec_strs :: "nat \<Rightarrow> string \<Rightarrow> string list option" where
  "dec_strs 0 xs = Some []"
| "dec_strs (Suc n) xs =
     (case dec_str xs of None \<Rightarrow> None
      | Some (s, r) \<Rightarrow> (case dec_strs n r of None \<Rightarrow> None | Some ss \<Rightarrow> Some (s # ss)))"

lemma dec_enc_strs: "dec_strs (length ss) (enc_strs ss) = Some ss"
  by (induction ss) (simp_all add: enc_strs_def)

text \<open>Numbers are written in binary after their sign.\<close>

fun bits :: "nat \<Rightarrow> string" where
  "bits n = (if n = 0 then [] else (if odd n then CHR ''1'' else CHR ''0'') # bits (n div 2))"

declare bits.simps [simp del]

fun of_bits :: "string \<Rightarrow> nat" where
  "of_bits [] = 0"
| "of_bits (c # s) = (if c = CHR ''1'' then 1 else 0) + 2 * of_bits s"

lemma of_bits_bits: "of_bits (bits n) = n"
proof (induction n rule: bits.induct)
  case (1 n)
  then show ?case by (subst bits.simps) (auto elim: oddE)
qed

definition enc_int :: "int \<Rightarrow> string" where
  "enc_int n = (if n < 0 then CHR ''-'' # bits (nat (- n)) else CHR '' '' # bits (nat n))"

fun dec_int :: "string \<Rightarrow> int" where
  "dec_int [] = 0"
| "dec_int (c # s) = (if c = CHR ''-'' then - int (of_bits s) else int (of_bits s))"

lemma dec_enc_int [simp]: "dec_int (enc_int n) = n"
  by (simp add: enc_int_def of_bits_bits)

definition job_fields :: "Job \<Rightarrow> string list" where
  "job_fields j = [ID j, Queue j, Type j, Payload j, enc_int (Priority j), enc_int (CreatedAt j),
     enc_int (EnqueuedAt j), enc_int (ProcessAt j), enc_int (Attempts j), enc_int (MaxAttempts j),
     LastError j, UniqueKey j, Status j]"

fun of_fields :: "string list \<Rightarrow> Job option" where
  "of_fields [i, q, ty, p, pr, ca, ea, pa, at, ma, le, uk, st] = Some
     \<lparr> ID = i, Queue = q, Type = ty, Payload = p, Priority = dec_int pr, CreatedAt = dec_int ca,
       EnqueuedAt = dec_int ea, ProcessAt = dec_int pa, Attempts = dec_int at,
       MaxAttempts = dec_int ma, LastError = le, UniqueKey = uk, Status = st \<rparr>"
| "of_fields _ = None"

lemma of_job_fields: "of_fields (job_fields j) = Some j"
  by (simp add: job_fields_def)

definition text_job :: "string \<Rightarrow> Job option" where
  "text_job d = (case dec_strs 13 d of None \<Rightarrow> None | Some ss \<Rightarrow> of_fields ss)"

definition text_codec :: codec where
  "text_codec = \<lparr>
     jsonMarshal = (\<lambda>j. Inr (enc_strs (job_fields j))),
     jsonUnmarshal = (\<lambda>d. case text_job d of None \<Rightarrow> Inl (ErrorString ''bad record'') | Some j \<Rightarrow> Inr j),
     cjson_queue = (\<lambda>d. case text_job d of None \<Rightarrow> Inl ''bad record'' | Some j \<Rightarrow> Inr (Queue j)) \<rparr>"

lemma text_job_enc: "text_job (enc_strs (job_fields j)) = Some j"
proof -
  have "length (job_fields j) = 13" by (simp add: job_fields_def)
  then have "dec_strs 13 (enc_strs (job_fields j)) = Some (job_fields j)"
    by (metis dec_enc_strs)
  then show ?thesis by (simp add: text_job_def of_job_fields)
qed

interpretation text_fmt: job_codec text_codec "\<lambda>_. True" "\<lambda>j. j"
  by unfold_locales (auto simp: text_codec_def text_job_enc)

end
