(* ===== verification/Redis_Places.thy ===== *)
theory Redis_Places
  imports Redis_Safety Codec
begin

text \<open>
  Where each job is. A job has a place in the database (a queue, a dead-letter list, a retry set,
  the scheduled or the active set); \<open>well_placed\<close> says that it has at most one, occurs
  there once, and has a record that fits the place and
  reads as a job with the property \<open>st\<close>. Each script moves one job from one
  place to another (\<open>moved\<close>) and keeps the database well placed.
\<close>

datatype place = Pending string | Dead string | Retrying string | Scheduled | Active

fun occ :: "keyspace \<Rightarrow> place \<Rightarrow> string \<Rightarrow> nat" where
  "occ ks (Pending q) i = count_list (pending ks q) i"
| "occ ks (Dead q) i = count_list (dead ks q) i"
| "occ ks (Retrying q) i = count_list (members (retrying ks q)) i"
| "occ ks Scheduled i = count_list (members (scheduled ks)) i"
| "occ ks Active i = count_list (members (active ks)) i"

definition exclusive :: "keyspace \<Rightarrow> bool" where
  "exclusive ks \<longleftrightarrow> (\<forall>i p. occ ks p i \<le> 1)
     \<and> (\<forall>i p p'. 0 < occ ks p i \<longrightarrow> 0 < occ ks p' i \<longrightarrow> p = p')"

fun fits :: "place \<Rightarrow> Job \<Rightarrow> bool" where
  "fits (Pending q) j = (Queue j = q)"
| "fits (Dead q) j = (Queue j = q)"
| "fits (Retrying q) j = (Queue j = q)"
| "fits Scheduled j = True"
| "fits Active j = True"

text \<open>The record of \<open>i\<close> reads as the job \<open>j\<close>, for Go and for Lua.\<close>

definition reads_as :: "codec \<Rightarrow> keyspace \<Rightarrow> string \<Rightarrow> Job \<Rightarrow> bool" where
  "reads_as C ks i j \<longleftrightarrow> (\<exists>d. record_of ks i = Some d \<and> jsonUnmarshal C d = Inr j
     \<and> cjson_queue C d = Inr (Queue j)) \<and> ID j = i"

definition well_placed :: "codec \<Rightarrow> (Job \<Rightarrow> bool) \<Rightarrow> keyspace \<Rightarrow> bool" where
  "well_placed C st ks \<longleftrightarrow> typed ks \<and> exclusive ks
     \<and> (\<forall>i p. 0 < occ ks p i \<longrightarrow> (\<exists>j. reads_as C ks i j \<and> fits p j \<and> st j))"

text \<open>\<open>moved ks ks' i p\<close>: in \<open>ks'\<close> the job \<open>i\<close> is at \<open>p\<close>, once, and nowhere else; every
  other job is where it was in \<open>ks\<close>, with the record it had.\<close>

definition moved :: "keyspace \<Rightarrow> keyspace \<Rightarrow> string \<Rightarrow> place option \<Rightarrow> bool" where
  "moved ks ks' i p \<longleftrightarrow> (\<forall>k x. k \<noteq> i \<longrightarrow> occ ks' x k = occ ks x k)
     \<and> (\<forall>k. k \<noteq> i \<longrightarrow> record_of ks' k = record_of ks k)
     \<and> (\<forall>x. occ ks' x i = (if Some x = p then 1 else 0))"

section \<open>Counting\<close>

lemma count_list_pos: "0 < count_list xs x \<longleftrightarrow> x \<in> set xs"
  by (auto simp: count_list_0_iff neq0_conv [symmetric] simp del: neq0_conv)

lemma occ_pos:
  "0 < occ ks (Pending q) i \<longleftrightarrow> i \<in> set (pending ks q)" "0 < occ ks (Dead q) i \<longleftrightarrow> i \<in> set (dead ks q)"
  "0 < occ ks (Retrying q) i \<longleftrightarrow> zmem i (retrying ks q)" "0 < occ ks Scheduled i \<longleftrightarrow> zmem i (scheduled ks)"
  "0 < occ ks Active i \<longleftrightarrow> zmem i (active ks)"
  by (simp_all add: count_list_pos zmem_def)

lemma located_iff_occ: "located i ks \<longleftrightarrow> (\<exists>p. 0 < occ ks p i)"
proof
  assume "located i ks"
  then show "\<exists>p. 0 < occ ks p i"
    unfolding located_def using occ_pos by blast
next
  assume "\<exists>p. 0 < occ ks p i"
  then obtain p where p: "0 < occ ks p i" ..
  then show "located i ks"
    by (cases p) (auto simp: located_def count_list_pos zmem_def)
qed

lemma count_members_filter:
  "count_list (members (filter (\<lambda>p. snd p \<noteq> m) z)) k = (if k = m then 0 else count_list (members z) k)"
  by (induction z) (auto simp: members_def)

lemma count_members_insort:
  "count_list (members (insort p z)) k = count_list (members z) k + (if snd p = k then 1 else 0)"
  by (induction z) (auto simp: members_def)

lemma count_members_zadd [simp]:
  "count_list (members (zadd s m z)) k = (if k = m then 1 else count_list (members z) k)"
  by (simp add: zadd_def count_members_insort count_members_filter)

lemma count_members_zrem [simp]:
  "count_list (members (zrem m z)) k = (if k = m then 0 else count_list (members z) k)"
  by (simp add: zrem_def count_members_filter)

lemma count_butlast: "xs \<noteq> [] \<Longrightarrow> count_list (butlast xs) k = count_list xs k - (if last xs = k then 1 else 0)"
proof (induction xs rule: rev_induct)
  case (snoc x xs)
  then show ?case by (simp add: count_list_append)
qed simp

section \<open>Moves\<close>

lemma exclusive_elsewhere: "exclusive ks \<Longrightarrow> 0 < occ ks p i \<Longrightarrow> x \<noteq> p \<Longrightarrow> occ ks x i = 0"
  unfolding exclusive_def by (metis not_gr_zero)

lemma exclusive_once: "exclusive ks \<Longrightarrow> 0 < occ ks p i \<Longrightarrow> occ ks p i = 1"
  unfolding exclusive_def by (metis One_nat_def Suc_leI le_antisym)

lemma exclusive_moved:
  assumes "exclusive ks" "moved ks ks' i p"
  shows "exclusive ks'"
  unfolding exclusive_def
proof (intro conjI allI impI)
  fix k x
  show "occ ks' x k \<le> 1"
    using assms by (cases "k = i") (simp_all add: moved_def exclusive_def)
next
  fix k x x'
  assume "0 < occ ks' x k" "0 < occ ks' x' k"
  then show "x = x'"
    using assms by (cases "k = i") (auto simp: moved_def exclusive_def split: if_splits)
qed

lemma well_placed_moved:
  assumes "well_placed C st ks" "typed ks'" "moved ks ks' i p"
    and "\<And>x. p = Some x \<Longrightarrow> \<exists>j. reads_as C ks' i j \<and> fits x j \<and> st j"
  shows "well_placed C st ks'"
  unfolding well_placed_def
proof (intro conjI allI impI)
  show "typed ks'" by fact
  show "exclusive ks'" using assms(1,3) by (auto simp: well_placed_def intro: exclusive_moved)
  fix k x
  assume k: "0 < occ ks' x k"
  show "\<exists>j. reads_as C ks' k j \<and> fits x j \<and> st j"
  proof (cases "k = i")
    case True
    with k assms(3) have "p = Some x" by (auto simp: moved_def split: if_splits)
    with True assms(4) show ?thesis by simp
  next
    case False
    with k assms(3) have "0 < occ ks x k" "record_of ks' k = record_of ks k"
      by (simp_all add: moved_def)
    with assms(1) show ?thesis by (auto simp: well_placed_def reads_as_def)
  qed
qed

lemma all_places:
  "(\<forall>x. P x) \<longleftrightarrow> (\<forall>q. P (Pending q)) \<and> (\<forall>q. P (Dead q)) \<and> (\<forall>q. P (Retrying q)) \<and> P Scheduled \<and> P Active"
  by (metis place.exhaust)

lemma moved_iff:
  "moved ks ks' i p \<longleftrightarrow> (\<forall>k. k \<noteq> i \<longrightarrow> record_of ks' k = record_of ks k)
     \<and> (\<forall>x k. occ ks' x k = (if k = i then (if Some x = p then 1 else 0) else occ ks x k))"
  by (auto simp: moved_def)

lemma moved_enqueue:
  assumes "\<And>x. occ ks x i = 0"
  shows "moved ks (db_enqueue i d q at now ks) i (Some (if at \<le> now then Pending q else Scheduled))"
  using assms [of "Pending _"] assms [of "Dead _"] assms [of "Retrying _"] assms [of Scheduled]
    assms [of Active]
  by (auto simp: moved_iff all_places db_enqueue_def Let_def)

lemma moved_claim:
  assumes "exclusive ks" "pending ks q \<noteq> []"
  shows "moved ks (snd (db_claim q n ks)) (last (pending ks q)) (Some Active)"
proof -
  let ?i = "last (pending ks q)"
  have p: "0 < occ ks (Pending q) ?i" using assms(2) by (simp add: count_list_pos)
  have "count_list (pending ks q) ?i = 1" using exclusive_once [OF assms(1) p] by simp
  moreover have "count_list (pending ks q') ?i = 0" if "q' \<noteq> q" for q'
    using exclusive_elsewhere [OF assms(1) p, of "Pending q'"] that by simp
  moreover have "count_list (dead ks q') ?i = 0" "count_list (members (retrying ks q')) ?i = 0"
    "count_list (members (scheduled ks)) ?i = 0" for q'
    using exclusive_elsewhere [OF assms(1) p, of "Dead q'"]
      exclusive_elsewhere [OF assms(1) p, of "Retrying q'"]
      exclusive_elsewhere [OF assms(1) p, of Scheduled] by simp_all
  ultimately show ?thesis
    using assms(2) by (auto simp: moved_iff all_places db_claim_def count_butlast)
qed

lemma moved_requeue:
  assumes "\<And>x. x \<noteq> Active \<Longrightarrow> occ ks x i = 0"
  shows "moved ks (db_requeue i d q at ks) i (Some (Retrying q))"
  using assms [of "Pending _"] assms [of "Dead _"] assms [of "Retrying _"] assms [of Scheduled]
  by (auto simp: moved_iff all_places db_requeue_def)

lemma moved_bury:
  assumes "\<And>x. x \<noteq> Active \<Longrightarrow> occ ks x i = 0"
  shows "moved ks (db_bury i d q ks) i (Some (Dead q))"
  using assms [of "Pending _"] assms [of "Dead _"] assms [of "Retrying _"] assms [of Scheduled]
  by (auto simp: moved_iff all_places db_bury_def)

lemma moved_revive:
  assumes "exclusive ks" "i \<in> set (dead ks q)"
  shows "moved ks (db_revive i d q ks) i (Some (Pending q))"
proof -
  have p: "0 < occ ks (Dead q) i" using assms(2) by (simp add: count_list_pos)
  have "count_list (dead ks q) i = 1" using exclusive_once [OF assms(1) p] by simp
  moreover have "count_list (dead ks q') i = 0" if "q' \<noteq> q" for q'
    using exclusive_elsewhere [OF assms(1) p, of "Dead q'"] that by simp
  moreover have "count_list (pending ks q') i = 0" "count_list (members (retrying ks q')) i = 0"
    "count_list (members (scheduled ks)) i = 0" "count_list (members (active ks)) i = 0" for q'
    using exclusive_elsewhere [OF assms(1) p, of "Pending q'"]
      exclusive_elsewhere [OF assms(1) p, of "Retrying q'"]
      exclusive_elsewhere [OF assms(1) p, of Scheduled]
      exclusive_elsewhere [OF assms(1) p, of Active] by simp_all
  ultimately show ?thesis
    by (auto simp: moved_iff all_places db_revive_def count_list_remove1)
qed

text \<open>The two kinds of sorted sets from which jobs are promoted.\<close>

definition source_place :: "string \<Rightarrow> place \<Rightarrow> bool" where
  "source_place src p \<longleftrightarrow> src = scheduledKey \<and> p = Scheduled \<or> (\<exists>q. src = retryKey q \<and> p = Retrying q)"

lemma source_zst:
  assumes "source_place src p"
  shows "zmem i (zst ks src) \<longleftrightarrow> 0 < occ ks p i"
  using assms by (auto simp: source_place_def count_list_pos zmem_def scheduled_def retrying_def)

lemma moved_promote:
  assumes "exclusive ks" "source_place src p" "0 < occ ks p i"
    and "record_of ks i = Some d" "cjson_queue C d = Inr q"
  shows "fst (db_promote C src i ks) = Inr 1"
    and "moved ks (snd (db_promote C src i ks)) i (Some (Pending q))"
proof -
  have m: "zmem i (zst ks src)" using assms(2,3) by (simp add: source_zst)
  with assms(4,5) show "fst (db_promote C src i ks) = Inr 1"
    by (simp add: db_promote_def)
  have e: "x \<noteq> p \<Longrightarrow> occ ks x i = 0" for x by (rule exclusive_elsewhere [OF assms(1,3)])
  have "count_list (pending ks q') i = 0" "count_list (dead ks q') i = 0"
    "count_list (members (active ks)) i = 0" for q'
    using e [of "Pending q'"] e [of "Dead q'"] e [of Active] assms(2)
    by (auto simp: source_place_def)
  moreover have "p \<noteq> Retrying q' \<Longrightarrow> count_list (members (retrying ks q')) i = 0" for q'
    using e [of "Retrying q'"] by auto
  moreover have "p \<noteq> Scheduled \<Longrightarrow> count_list (members (scheduled ks)) i = 0"
    using e [of Scheduled] by auto
  ultimately show "moved ks (snd (db_promote C src i ks)) i (Some (Pending q))"
    using m assms(2,4,5)
    by (auto simp: moved_iff all_places db_promote_def source_place_def
        scheduled_def [symmetric] retrying_def [symmetric])
qed

lemma moved_ack:
  assumes "\<And>x. x \<noteq> Active \<Longrightarrow> occ ks x i = 0"
  shows "moved ks (put activeKey (RZset (zrem i (active ks))) ks) i None"
  using assms [of "Pending _"] assms [of "Dead _"] assms [of "Retrying _"] assms [of Scheduled]
  by (auto simp: moved_iff all_places)

lemma moved_forget: "moved ks ks' i None \<Longrightarrow> moved ks (ks'(jobKey i := None)) i None"
  by (simp add: moved_iff all_places)

section \<open>Removing a job step by step\<close>

text \<open>\<open>cleared ks ks' i\<close>: some of the places of \<open>i\<close> have been cleared and nothing else happened.\<close>

definition cleared :: "keyspace \<Rightarrow> keyspace \<Rightarrow> string \<Rightarrow> bool" where
  "cleared ks ks' i \<longleftrightarrow> typed ks' \<and> record_of ks' = record_of ks
     \<and> (\<forall>x k. occ ks' x k = occ ks x k \<or> k = i \<and> occ ks' x k = 0)"

lemma cleared_refl: "typed ks \<Longrightarrow> cleared ks ks i"
  by (simp add: cleared_def)

lemma cleared_moved:
  assumes "exclusive ks" "cleared ks ks' i"
  shows "moved ks ks' i None \<or> (\<exists>p. 0 < occ ks p i \<and> moved ks ks' i (Some p))"
proof (cases "\<exists>p. 0 < occ ks' p i")
  case True
  then obtain p where p: "0 < occ ks' p i" ..
  have p': "occ ks' p i = occ ks p i" using assms(2) p unfolding cleared_def by (metis less_irrefl)
  with p have o: "0 < occ ks p i" by simp
  have "occ ks' x i = (if Some x = Some p then 1 else 0)" for x
    using assms(2) p' exclusive_once [OF assms(1) o] exclusive_elsewhere [OF assms(1) o, of x]
    by (cases "x = p") (simp_all add: cleared_def, metis)
  moreover have "k \<noteq> i \<Longrightarrow> occ ks' x k = occ ks x k" for x k
    using assms(2) by (auto simp: cleared_def)
  ultimately have "moved ks ks' i (Some p)" using assms(2) by (simp add: moved_def cleared_def)
  with o show ?thesis by blast
next
  case False
  with assms(2) show ?thesis by (auto simp: moved_def cleared_def)
qed

lemma cleared_step:
  assumes "cleared ks ks' i" "typed ks''" "record_of ks'' = record_of ks'"
    and "\<And>x k. occ ks'' x k = occ ks' x k \<or> k = i \<and> occ ks'' x k = 0"
  shows "cleared ks ks'' i"
  unfolding cleared_def
proof (intro conjI allI)
  show "typed ks''" "record_of ks'' = record_of ks"
    using assms(1-3) by (simp_all add: cleared_def)
  fix x k
  show "occ ks'' x k = occ ks x k \<or> k = i \<and> occ ks'' x k = 0"
    using assms(1) assms(4) [of x k] unfolding cleared_def by metis
qed

lemma removal_run:
  assumes "typed ks"
  shows "snd (run_state (any_reply (doc_LREM (queueKey q) 0 i)) ks) =
      put (queueKey q) (RList (removeAll i (pending ks q))) ks"
    "snd (run_state (any_reply (doc_ZREM (retryKey q) i)) ks) =
      put (retryKey q) (RZset (zrem i (retrying ks q))) ks"
    "snd (run_state (any_reply (doc_LREM (deadKey q) 0 i)) ks) =
      put (deadKey q) (RList (removeAll i (dead ks q))) ks"
    "snd (run_state (any_reply (doc_ZREM activeKey i)) ks) =
      put activeKey (RZset (zrem i (active ks))) ks"
    "snd (run_state (any_reply (doc_ZREM scheduledKey i)) ks) =
      put scheduledKey (RZset (zrem i (scheduled ks))) ks"
    "snd (run_state (any_reply (doc_DEL (jobKey i))) ks) = ks(jobKey i := None)"
  using assms by (simp_all add: any_reply_def cmd_run lrem_0 part_defs)

lemma record_of_put [simp]:
  "record_of (put (queueKey q) (RList xs) ks) = record_of ks"
  "record_of (put (deadKey q) (RList xs) ks) = record_of ks"
  "record_of (put (retryKey q) (RZset z) ks) = record_of ks"
  "record_of (put activeKey (RZset z) ks) = record_of ks"
  "record_of (put scheduledKey (RZset z) ks) = record_of ks"
  by (simp_all add: fun_eq_iff)

lemma keeps_clearedI:
  assumes "\<And>ks'. typed ks' \<Longrightarrow> snd (run_state m ks') = u ks' \<and> typed (u ks')"
    and "\<And>ks'. record_of (u ks') = record_of ks'"
    and "\<And>ks' x k. occ (u ks') x k = occ ks' x k \<or> k = i \<and> occ (u ks') x k = 0"
  shows "keeps (\<lambda>ks'. cleared ks ks' i) m"
proof (rule keepsI)
  fix ks'
  assume c: "cleared ks ks' i"
  then have "typed ks'" by (simp add: cleared_def)
  with assms(1) have "snd (run_state m ks') = u ks'" "typed (u ks')" by simp_all
  with c assms(2,3) show "cleared ks (snd (run_state m ks')) i" by (simp add: cleared_step)
qed

lemma keeps_cleared:
  "keeps (\<lambda>ks'. cleared ks ks' i) (any_reply (doc_LREM (queueKey q) 0 i))"
  "keeps (\<lambda>ks'. cleared ks ks' i) (any_reply (doc_ZREM (retryKey q) i))"
  "keeps (\<lambda>ks'. cleared ks ks' i) (any_reply (doc_LREM (deadKey q) 0 i))"
  "keeps (\<lambda>ks'. cleared ks ks' i) (any_reply (doc_ZREM activeKey i))"
  "keeps (\<lambda>ks'. cleared ks ks' i) (any_reply (doc_ZREM scheduledKey i))"
proof -
  have c: "occ (put (queueKey q) (RList (removeAll i (pending ks' q))) ks') x k = occ ks' x k
      \<or> k = i \<and> occ (put (queueKey q) (RList (removeAll i (pending ks' q))) ks') x k = 0"
    "occ (put (retryKey q) (RZset (zrem i (retrying ks' q))) ks') x k = occ ks' x k
      \<or> k = i \<and> occ (put (retryKey q) (RZset (zrem i (retrying ks' q))) ks') x k = 0"
    "occ (put (deadKey q) (RList (removeAll i (dead ks' q))) ks') x k = occ ks' x k
      \<or> k = i \<and> occ (put (deadKey q) (RList (removeAll i (dead ks' q))) ks') x k = 0"
    "occ (put activeKey (RZset (zrem i (active ks'))) ks') x k = occ ks' x k
      \<or> k = i \<and> occ (put activeKey (RZset (zrem i (active ks'))) ks') x k = 0"
    "occ (put scheduledKey (RZset (zrem i (scheduled ks'))) ks') x k = occ ks' x k
      \<or> k = i \<and> occ (put scheduledKey (RZset (zrem i (scheduled ks'))) ks') x k = 0" for ks' x k
    by (cases x; simp add: count_list_removeAll)+
  show "keeps (\<lambda>ks'. cleared ks ks' i) (any_reply (doc_LREM (queueKey q) 0 i))"
    by (rule keeps_clearedI [OF _ _ c(1)]) (simp_all add: removal_run)
  show "keeps (\<lambda>ks'. cleared ks ks' i) (any_reply (doc_ZREM (retryKey q) i))"
    by (rule keeps_clearedI [OF _ _ c(2)]) (simp_all add: removal_run)
  show "keeps (\<lambda>ks'. cleared ks ks' i) (any_reply (doc_LREM (deadKey q) 0 i))"
    by (rule keeps_clearedI [OF _ _ c(3)]) (simp_all add: removal_run)
  show "keeps (\<lambda>ks'. cleared ks ks' i) (any_reply (doc_ZREM activeKey i))"
    by (rule keeps_clearedI [OF _ _ c(4)]) (simp_all add: removal_run)
  show "keeps (\<lambda>ks'. cleared ks ks' i) (any_reply (doc_ZREM scheduledKey i))"
    by (rule keeps_clearedI [OF _ _ c(5)]) (simp_all add: removal_run)
qed

text \<open>The five removals of \<open>DeleteJob\<close> clear every place a job of the queue \<open>q\<close> can have.\<close>

definition removals :: "string \<Rightarrow> string \<Rightarrow> (keyspace, unit) cmd list" where
  "removals q i = [any_reply (doc_LREM (queueKey q) 0 i), any_reply (doc_ZREM (retryKey q) i),
     any_reply (doc_LREM (deadKey q) 0 i), any_reply (doc_ZREM activeKey i),
     any_reply (doc_ZREM scheduledKey i)]"

lemma cleared_removals:
  "typed ks \<Longrightarrow> cleared ks (snd (run_state (pipeline (take n (removals q i))) ks)) i"
proof -
  have "m \<in> set (removals q i) \<Longrightarrow> keeps (\<lambda>ks'. cleared ks ks' i) m" for m
    by (auto simp: removals_def keeps_cleared)
  then have "keeps (\<lambda>ks'. cleared ks ks' i) (pipeline (take n (removals q i)))"
    by (auto intro!: keeps_pipeline dest: in_set_takeD)
  then show "typed ks \<Longrightarrow> ?thesis" by (simp add: keeps_def cleared_refl)
qed

lemma pipeline_snd: "snd (run_state (pipeline (m # ms)) s) = snd (run_state (pipeline ms) (snd (run_state m s)))"
  by (simp add: split_beta)

lemma pipeline_append:
  "snd (run_state (pipeline (ms @ ns)) s) = snd (run_state (pipeline ns) (snd (run_state (pipeline ms) s)))"
  by (induction ms arbitrary: s) (simp_all add: pipeline_snd del: pipeline.simps(2))

lemma removals_all:
  assumes "typed ks" "\<And>p. 0 < occ ks p i \<Longrightarrow> fits p j"
  shows "moved ks (snd (run_state (pipeline (removals (Queue j) i)) ks)) i None"
proof -
  have "occ ks p i = 0" if "\<not> fits p j" for p using assms(2) that by auto
  from this [of "Pending _"] this [of "Retrying _"] this [of "Dead _"]
  show ?thesis
    using assms(1) by (auto simp: removals_def pipeline_snd removal_run moved_iff all_places
        count_list_removeAll simp del: pipeline.simps(2))
qed

end
