(* ===== verification/Broker_Contract.thy ===== *)
theory Broker_Contract
  imports Broker
begin

text \<open>
  What the rest of the program relies on in a \<open>Broker\<close>: the locale \<open>broker_contract\<close>. The contract
  speaks of the phase of each job: not (or no longer) held by the broker, waiting in a
  queue, a retry set or a schedule, handed out to a worker, or dead. A method that
  returns normally has changed the phase of the job it is about and of no other job; a
  method that returns an error may or may not have done so, because an error can also mean
  that a reply was lost. \<open>storable\<close> says which jobs the broker keeps faithfully, and \<open>fresh\<close>
  which jobs can be enqueued as new ones.
\<close>

datatype phase = Gone | Queued | Running | Buried

text \<open>The effect of a method on the phase of one job.\<close>

definition phase_change ::
  "goerr + 'a \<Rightarrow> (string \<Rightarrow> phase) \<Rightarrow> (string \<Rightarrow> phase) \<Rightarrow> string \<Rightarrow> phase \<Rightarrow> bool" where
  "phase_change r ph ph' i p \<longleftrightarrow> ph' = ph(i := p) \<or> (\<exists>e. r = Inl e) \<and> ph' = ph"

lemma phase_change_ok: "phase_change (Inr x) ph ph' i p \<longleftrightarrow> ph' = ph(i := p)"
  by (simp add: phase_change_def)

lemma phase_change_other: "phase_change r ph ph' i p \<Longrightarrow> k \<noteq> i \<Longrightarrow> ph' k = ph k"
  by (auto simp: phase_change_def)

lemma phase_change_self: "phase_change r ph ph' i p \<Longrightarrow> ph' i = p \<or> ph' i = ph i"
  by (auto simp: phase_change_def)

locale broker_contract =
  fixes B :: "'s broker" and inv :: "'s \<Rightarrow> bool" and phase :: "'s \<Rightarrow> string \<Rightarrow> phase"
    and storable :: "Job \<Rightarrow> bool" and fresh :: "'s \<Rightarrow> Job \<Rightarrow> bool"
  assumes storable_upd: "storable j \<Longrightarrow> storable (j\<lparr>Status := st, Attempts := a, LastError := e\<rparr>)"
    and Enqueue_spec: "inv s \<Longrightarrow> storable j \<Longrightarrow> fresh s j \<Longrightarrow>
      run_state (Enqueue B j) s = (r, s') \<Longrightarrow>
      inv s' \<and> phase s (ID j) = Gone \<and> phase_change r (phase s) (phase s') (ID j) Queued"
    and Dequeue_job: "inv s \<Longrightarrow> run_state (Dequeue B qs) s = (Inr (Some j), s') \<Longrightarrow>
      inv s' \<and> storable j \<and> phase s (ID j) = Queued \<and> phase s' = (phase s)(ID j := Running)"
    and Dequeue_none: "inv s \<Longrightarrow> run_state (Dequeue B qs) s = (Inr None, s') \<Longrightarrow>
      inv s' \<and> phase s' = phase s"
    and Dequeue_err: "inv s \<Longrightarrow> run_state (Dequeue B qs) s = (Inl err, s') \<Longrightarrow>
      inv s' \<and> (phase s' = phase s
        \<or> (\<exists>i. phase s i = Queued \<and> phase s' = (phase s)(i := Running)))"
    and Acknowledge_spec: "inv s \<Longrightarrow> phase s (ID j) = Running \<Longrightarrow>
      run_state (Acknowledge B j) s = (r, s') \<Longrightarrow>
      inv s' \<and> phase_change r (phase s) (phase s') (ID j) Gone"
    and Requeue_spec: "inv s \<Longrightarrow> storable j \<Longrightarrow> phase s (ID j) = Running \<Longrightarrow>
      run_state (Requeue B j d) s = (r, s') \<Longrightarrow>
      inv s' \<and> phase_change r (phase s) (phase s') (ID j) Queued"
    and MoveToDeadLetter_spec: "inv s \<Longrightarrow> storable j \<Longrightarrow> phase s (ID j) = Running \<Longrightarrow>
      run_state (MoveToDeadLetter B j) s = ((r, j'), s') \<Longrightarrow>
      inv s' \<and> phase_change r (phase s) (phase s') (ID j) Buried"
    and PromoteDueJobs_spec: "inv s \<Longrightarrow> run_state (PromoteDueJobs B qs) s = (r', s') \<Longrightarrow>
      inv s' \<and> phase s' = phase s"
    and RetryDeadJob_spec: "inv s \<Longrightarrow> run_state (RetryDeadJob B i) s = (r, s') \<Longrightarrow>
      inv s' \<and> (phase s i = Buried \<and> phase s' = (phase s)(i := Queued)
        \<or> (\<exists>e. r = Inl e) \<and> phase s' = phase s)"
    and DeleteJob_spec: "inv s \<Longrightarrow> run_state (DeleteJob B i) s = (r, s') \<Longrightarrow>
      inv s' \<and> phase_change r (phase s) (phase s') i Gone"
    and GetJob_spec: "inv s \<Longrightarrow> run_state (GetJob B i) s = (g, s') \<Longrightarrow> inv s' \<and> phase s' = phase s"
    and GetJobsByStatus_spec: "inv s \<Longrightarrow> run_state (GetJobsByStatus B st l) s = (js, s') \<Longrightarrow>
      inv s' \<and> phase s' = phase s"
    and GetQueueStats_spec: "inv s \<Longrightarrow> run_state (GetQueueStats B) s = (m, s') \<Longrightarrow>
      inv s' \<and> phase s' = phase s"
    and Close_spec: "inv s \<Longrightarrow> run_state (Close B) s = (r, s') \<Longrightarrow> inv s' \<and> phase s' = phase s"
begin

text \<open>A job handed out by \<open>Dequeue\<close> is not handed out again while it is running.\<close>

lemma Dequeue_not_running:
  assumes "inv s" "phase s i = Running" "run_state (Dequeue B qs) s = (Inr (Some j), s')"
  shows "ID j \<noteq> i" "phase s' i = Running"
  using Dequeue_job [OF assms(1,3)] assms(2) by auto

text \<open>Dequeuing never takes a job out of the broker, not even when it fails.\<close>

lemma Dequeue_not_gone:
  assumes "inv s" "run_state (Dequeue B qs) s = (r, s')" "phase s i \<noteq> Gone"
  shows "phase s' i \<noteq> Gone"
proof (cases r)
  case (Inl e)
  with assms(1,2) have "phase s' = phase s \<or> (\<exists>k. phase s k = Queued \<and> phase s' = (phase s)(k := Running))"
    using Dequeue_err by blast
  with assms(3) show ?thesis by (auto split: if_splits)
next
  case (Inr x)
  show ?thesis
  proof (cases x)
    case None
    with Inr assms Dequeue_none [of s qs s'] show ?thesis by simp
  next
    case (Some j)
    with Inr assms Dequeue_job [of s qs j s'] show ?thesis by auto
  qed
qed

end

end
