(* ===== verification/Redis_Contract.thy ===== *)
theory Redis_Contract
  imports Redis_Places Broker_Contract
begin

text \<open>
  The Redis broker meets the contract of a broker, on a network that executes no request twice:
  the interpretation \<open>redis_broker\<close> of \<open>broker_contract\<close>. The phase of a job is read off its
  place in the database.
\<close>

section \<open>Phases\<close>

definition places :: "keyspace \<Rightarrow> string \<Rightarrow> place set" where
  "places ks i = {p. 0 < occ ks p i}"

definition kphase :: "keyspace \<Rightarrow> string \<Rightarrow> phase" where
  "kphase ks i = (if Active \<in> places ks i then Running
     else if \<exists>q. Dead q \<in> places ks i then Buried
     else if places ks i \<noteq> {} then Queued else Gone)"

fun place_phase :: "place option \<Rightarrow> phase" where
  "place_phase None = Gone"
| "place_phase (Some Active) = Running"
| "place_phase (Some (Dead q)) = Buried"
| "place_phase (Some p) = Queued"

lemma kphase_places: "places ks i = set_option p \<Longrightarrow> kphase ks i = place_phase p"
  by (cases p rule: place_phase.cases) (simp_all add: kphase_def)

lemma places_moved:
  "moved ks ks' i p \<Longrightarrow> places ks' k = (if k = i then set_option p else places ks k)"
  by (auto simp: moved_def places_def split: if_splits)

lemma kphase_moved: "moved ks ks' i p \<Longrightarrow> kphase ks' = (kphase ks)(i := place_phase p)"
proof
  fix k
  assume m: "moved ks ks' i p"
  show "kphase ks' k = ((kphase ks)(i := place_phase p)) k"
  proof (cases "k = i")
    case True
    with m show ?thesis by (simp add: kphase_places places_moved)
  next
    case False
    with m show ?thesis by (simp add: kphase_def places_moved)
  qed
qed

lemma places_empty: "places ks i = {} \<longleftrightarrow> (\<forall>x. occ ks x i = 0)"
  by (simp add: places_def)

lemma kphase_Gone: "kphase ks i = Gone \<longleftrightarrow> places ks i = {}"
  by (auto simp: kphase_def)

lemma places_exclusive: "exclusive ks \<Longrightarrow> 0 < occ ks p i \<Longrightarrow> places ks i = {p}"
  by (auto simp: places_def exclusive_def)

lemma kphase_at: "exclusive ks \<Longrightarrow> 0 < occ ks p i \<Longrightarrow> kphase ks i = place_phase (Some p)"
  by (simp add: kphase_places places_exclusive)

lemma kphase_Running:
  "exclusive ks \<Longrightarrow> kphase ks i = Running \<Longrightarrow> x \<noteq> Active \<Longrightarrow> occ ks x i = 0"
  by (auto simp: kphase_def places_def dest: exclusive_elsewhere split: if_splits)

section \<open>A network without resending\<close>

definition once :: "net \<Rightarrow> bool" where
  "once f \<longleftrightarrow> (case f of Delivered n \<Rightarrow> n = 0 | Failed n \<Rightarrow> n \<le> 1 | Cut n \<Rightarrow> True)"

text \<open>The invariant: the database is well placed and the network resends nothing.\<close>

definition nameable :: "(Job \<Rightarrow> bool) \<Rightarrow> Job \<Rightarrow> bool" where
  "nameable st j \<longleftrightarrow> st j \<and> ID j \<noteq> ''''"

definition redis_inv ::
  "('k \<Rightarrow> keyspace) \<Rightarrow> codec \<Rightarrow> (Job \<Rightarrow> bool) \<Rightarrow> 'k world \<Rightarrow> bool" where
  "redis_inv view C st = winv (\<lambda>s. well_placed C (nameable st) (view s)) once"

definition redis_phase :: "('k \<Rightarrow> keyspace) \<Rightarrow> 'k world \<Rightarrow> string \<Rightarrow> phase" where
  "redis_phase view w = kphase (view (store w))"

definition same_store :: "'k world \<Rightarrow> 'k world \<Rightarrow> bool" where
  "same_store w w' \<longleftrightarrow> store w' = store w \<and> set (faults w') \<subseteq> set (faults w)"

lemma time_Now_same: "run_state time_Now w = (t, w') \<Longrightarrow> same_store w w'"
  by (auto simp: time_Now_def same_store_def)

context redis_server
begin

text \<open>On such a network a request has run once or not at all, and once if there is a reply,
  which is then that of the server.\<close>

lemma round_trip_once:
  assumes "sim view m n" "\<forall>f \<in> set (faults w). once f" "run_state (round_trip m) w = (r, w')"
  shows "(\<exists>e. r = Inl e) \<and> view (store w') = view (store w)
      \<or> view (store w') = snd (run_state n (view (store w)))
        \<and> (\<forall>x. r = Inr x \<longrightarrow> fst (run_state n (view (store w))) = Inr x)"
proof -
  obtain f u where f: "run_state next_fault w = (f, u)" by (cases "run_state next_fault w")
  then have u: "once f" "store u = store w"
    using assms(2) by (auto simp: next_fault_def once_def split: list.splits)
  have n: "run_state n (view s) = apsnd view (run_state m s)" for s
    using assms(1) by (simp add: sim_def)
  show ?thesis
  proof (cases f)
    case (Delivered i)
    with assms(3) f u n show ?thesis
      by (auto simp: round_trip_def on_store_def times_def once_def split_beta split: sum.splits)
  next
    case (Failed i)
    with u have "i = 0 \<or> i = 1" by (auto simp: once_def)
    with Failed assms(3) f u n show ?thesis
      by (auto simp: round_trip_def on_store_def times_def exec_def split_beta)
  next
    case (Cut i)
    have "min i 1 = 0 \<or> min i 1 = 1" by auto
    with Cut assms(3) f u n show ?thesis
      by (auto simp: round_trip_def on_store_def times_def exec_def split_beta)
  qed
qed

lemma round_trip_faults:
  "run_state (round_trip m) w = (r, w') \<Longrightarrow> set (faults w') \<subseteq> set (faults w)"
  by (auto simp: round_trip_def next_fault_def on_store_def split_beta
      split: list.splits net.splits)

text \<open>A pipeline has run up to some command, and to its end unless an error is reported.\<close>

lemma pipe_once:
  assumes "list_all2 (sim view) ms ns" "\<forall>f \<in> set (faults w). once f" "run_state (pipe_Exec ms) w = (r, w')"
  shows "(\<exists>e n. r = Inl e \<and> view (store w') = snd (run_state (pipeline (take n ns)) (view (store w))))
    \<or> view (store w') = snd (run_state (pipeline ns) (view (store w)))"
    and "set (faults w') \<subseteq> set (faults w)"
proof -
  obtain f u where f: "run_state next_fault w = (f, u)" by (cases "run_state next_fault w")
  then have u: "once f" "store u = store w" "set (faults u) \<subseteq> set (faults w)"
    using assms(2) by (auto simp: next_fault_def once_def split: list.splits)
  have all: "view (snd (run_state (pipeline ms) s)) = snd (run_state (pipeline ns) (view s))" for s
    by (rule sim_snd [OF sim_pipeline [OF assms(1)]])
  have part: "view (snd (run_state (pipeline (take n ms)) s)) = snd (run_state (pipeline (take n ns)) (view s))" for n s
    by (rule sim_snd [OF sim_pipeline]) (simp add: assms(1) list_all2_takeI)
  show "(\<exists>e n. r = Inl e \<and> view (store w') = snd (run_state (pipeline (take n ns)) (view (store w))))
    \<or> view (store w') = snd (run_state (pipeline ns) (view (store w)))"
  proof (cases f)
    case (Delivered i)
    with assms(3) f u all show ?thesis
      by (auto simp: pipe_Exec_def on_store_def times_def once_def split_beta)
  next
    case (Failed i)
    with u have "i = 0 \<or> i = 1" by (auto simp: once_def)
    with Failed assms(3) f u all show ?thesis
      by (auto simp: pipe_Exec_def on_store_def times_def exec_def split_beta intro: exI [of _ 0])
  next
    case (Cut i)
    with assms(3) f u part [of i] show ?thesis
      by (auto simp: pipe_Exec_def on_store_def split_beta)
  qed
  show "set (faults w') \<subseteq> set (faults w)"
    using assms(3) f u by (auto simp: pipe_Exec_def on_store_def split_beta split: net.splits)
qed

end

lemma round_trip_not_nil: "run_state (round_trip m) w = (r, w') \<Longrightarrow> r \<noteq> Inl RedisNil"
  by (auto simp: round_trip_def next_fault_def on_store_def split_beta
      split: list.splits net.splits sum.splits)

locale redis_broker = redis_server R view + job_codec C storable canon
  for R :: "'k redis_cmds" and view and C and storable and canon
begin

lemma inv_same:
  assumes "redis_inv view C storable w" "view (store w') = view (store w)" "set (faults w') \<subseteq> set (faults w)"
  shows "redis_inv view C storable w'"
  using assms by (auto simp: redis_inv_def winv_def)

lemma inv_faults: "redis_inv view C storable w \<Longrightarrow> \<forall>f \<in> set (faults w). once f"
  by (simp add: redis_inv_def winv_def)

lemma inv_placed: "redis_inv view C storable w \<Longrightarrow> well_placed C (nameable storable) (view (store w))"
  by (simp add: redis_inv_def winv_def)

lemma inv_typed: "redis_inv view C storable w \<Longrightarrow> typed (view (store w))"
  by (simp add: redis_inv_def winv_def well_placed_def)

lemma inv_exclusive: "redis_inv view C storable w \<Longrightarrow> exclusive (view (store w))"
  by (simp add: redis_inv_def winv_def well_placed_def)

text \<open>One request that moves a job, on such a network.\<close>

lemma request_move:
  assumes inv: "redis_inv view C storable w"
    and run: "sim view m n" "run_state (round_trip m) w = (r, w')"
    and eff: "snd (run_state n (view (store w))) = ks'" "moved (view (store w)) ks' i p" "typed ks'"
      "\<And>x. p = Some x \<Longrightarrow> \<exists>j. reads_as C ks' i j \<and> fits x j \<and> nameable storable j"
  shows "redis_inv view C storable w'"
    and "(\<exists>e. r = Inl e) \<and> view (store w') = view (store w) \<or> view (store w') = ks'"
    and "phase_change r (redis_phase view w) (redis_phase view w') i (place_phase p)"
proof -
  have w': "(\<exists>e. r = Inl e) \<and> view (store w') = view (store w) \<or> view (store w') = ks'"
    using round_trip_once [OF run(1) inv_faults [OF inv] run(2)] eff(1) by blast
  then show "(\<exists>e. r = Inl e) \<and> view (store w') = view (store w) \<or> view (store w') = ks'" .
  have "well_placed C (nameable storable) ks'"
    by (rule well_placed_moved [OF inv_placed [OF inv] eff(3,2,4)])
  with w' inv round_trip_faults [OF run(2)] show "redis_inv view C storable w'"
    by (auto simp: redis_inv_def winv_def)
  show "phase_change r (redis_phase view w) (redis_phase view w') i (place_phase p)"
    using w' kphase_moved [OF eff(2)] by (auto simp: phase_change_def redis_phase_def)
qed

text \<open>The record written for a job reads as that job.\<close>

lemma record_reads:
  assumes "nameable storable j" "jsonMarshal C j = Inr d" "record_of ks (ID j) = Some d" "fits x j"
  shows "\<exists>j'. reads_as C ks (ID j) j' \<and> fits x j' \<and> nameable storable j'"
proof -
  have st: "storable j" using assms(1) by (simp add: nameable_def)
  then have "reads_as C ks (ID j) (canon j)"
    using assms unmarshal_marshal cjson_marshal canon_ID canon_Queue by (auto simp: reads_as_def)
  moreover have "fits x (canon j)" using st assms(4) canon_Queue by (cases x) auto
  ultimately show ?thesis
    using st assms(1) canon_storable canon_ID by (auto simp: nameable_def)
qed

lemma Enqueue_contract:
  assumes inv: "redis_inv view C storable w" and j: "nameable storable j"
    and gone: "redis_phase view w (ID j) = Gone" and run: "run_state (redis_Enqueue C R j) w = (r, w')"
  shows "redis_inv view C storable w' \<and> phase_change r (redis_phase view w) (redis_phase view w') (ID j) Queued"
proof -
  obtain d where d: "jsonMarshal C j = Inr d"
    using j marshal_total by (auto simp: nameable_def)
  obtain t u where u: "run_state time_Now w = (t, u)" by (cases "run_state time_Now w")
  have su: "store u = store w" "set (faults u) \<subseteq> set (faults w)"
    using time_Now_same [OF u] by (simp_all add: same_store_def)
  have iu: "redis_inv view C storable u" by (rule inv_same [OF inv]) (simp_all add: su)
  let ?at = "Unix (ProcessAt j)"
  let ?ks' = "db_enqueue (ID j) d (Queue j) ?at (Unix t) (view (store u))"
  let ?p = "if ?at \<le> Unix t then Pending (Queue j) else Scheduled"
  obtain r0 where r0: "run_state (round_trip (setBranchLpushZaddScript R (jobKey (ID j))
       (queueKey (Queue j)) scheduledKey d ?at (Unix t) (Queue j) (ID j))) u = (r0, w')"
    and r: "r = (case r0 of Inl err \<Rightarrow> Inl (WrapError ''atomic enqueu: '' err) | Inr _ \<Rightarrow> Inr ())"
    using run d u by (auto simp: redis_Enqueue_def split: prod.splits)
  have "moved (view (store u)) ?ks' (ID j) (Some ?p)"
    using gone by (intro moved_enqueue) (simp add: su redis_phase_def kphase_Gone places_empty)
  moreover have "\<exists>j'. reads_as C ?ks' (ID j) j' \<and> fits x j' \<and> nameable storable j'"
    if "Some ?p = Some x" for x
    using that by (intro record_reads [OF j d]) (auto simp: db_enqueue_def Let_def)
  ultimately have "redis_inv view C storable w'"
    "phase_change r0 (redis_phase view u) (redis_phase view w') (ID j) (place_phase (Some ?p))"
    using request_move [OF iu setBranchLpushZaddScript_sim r0, where ks' = ?ks' and p = "Some ?p"]
    by (simp_all add: setBranchLpushZaddScript_run inv_typed [OF iu])
  moreover have "redis_phase view u = redis_phase view w" by (simp add: redis_phase_def su)
  ultimately show ?thesis
    using r by (auto simp: phase_change_def split: sum.splits if_splits)
qed

text \<open>Reading a record.\<close>

lemma Get_contract:
  assumes inv: "redis_inv view C storable w" and run: "run_state (redis_Get R (jobKey i)) w = (d, w')"
  shows "redis_inv view C storable w'" "redis_phase view w' = redis_phase view w"
    and "d = Inr x \<Longrightarrow> record_of (view (store w)) i = Some x"
    and "d = Inl RedisNil \<Longrightarrow> record_of (view (store w)) i = None"
    and "view (store w') = view (store w)"
proof -
  obtain r where r: "run_state (round_trip (GET R (jobKey i))) w = (r, w')" "d = nil_reply r"
    using run by (auto simp: redis_Get_def split: prod.splits)
  have g: "run_state (doc_GET (jobKey i)) (view (store w)) = (Inr (record_of (view (store w)) i), view (store w))"
    using inv_typed [OF inv] by (simp add: doc_GET_run record_of_def)
  have o: "view (store w') = view (store w) \<and> (\<forall>x. r = Inr x \<longrightarrow> record_of (view (store w)) i = x)"
    using round_trip_once [OF GET_law inv_faults [OF inv] r(1)] g by auto
  then show "redis_inv view C storable w'" "redis_phase view w' = redis_phase view w"
    "view (store w') = view (store w)"
    using inv_same [OF inv] round_trip_faults [OF r(1)] by (simp_all add: redis_phase_def)
  show "record_of (view (store w)) i = Some x" if "d = Inr x"
    using that o r(2) by (auto simp: nil_reply_def split: sum.splits option.splits)
  show "record_of (view (store w)) i = None" if "d = Inl RedisNil"
    using that o r(2) round_trip_not_nil [OF r(1)]
    by (auto simp: nil_reply_def split: sum.splits option.splits)
qed

lemma GetJob_contract:
  assumes inv: "redis_inv view C storable w" and run: "run_state (redis_GetJob C R i) w = (g, w')"
  shows "redis_inv view C storable w'" "redis_phase view w' = redis_phase view w"
    and "g = Inr (Some j) \<Longrightarrow> \<exists>d. record_of (view (store w)) i = Some d \<and> jsonUnmarshal C d = Inr j"
    and "g = Inr None \<Longrightarrow> record_of (view (store w)) i = None"
    and "view (store w') = view (store w)"
proof -
  obtain d where d: "run_state (redis_Get R (jobKey i)) w = (d, w')"
    "g = (case d of
         Inl err \<Rightarrow> if err = RedisNil then Inr None else Inl (WrapError (''get job '' @ i @ '': '') err)
       | Inr data \<Rightarrow> (case jsonUnmarshal C data of
              Inl err \<Rightarrow> Inl (WrapError (''unmarshal job '' @ i @ '': '') err)
            | Inr job \<Rightarrow> Inr (Some job)))"
    using run by (auto simp: redis_GetJob_def split: prod.splits)
  note G = Get_contract [OF inv d(1)]
  show "redis_inv view C storable w'" "redis_phase view w' = redis_phase view w"
    "view (store w') = view (store w)" by (fact G)+
  show "\<exists>d. record_of (view (store w)) i = Some d \<and> jsonUnmarshal C d = Inr j" if "g = Inr (Some j)"
    using that d(2) G(3) by (auto split: sum.splits if_splits)
  show "record_of (view (store w)) i = None" if "g = Inr None"
    using that d(2) G(4) by (auto split: sum.splits if_splits)
qed

text \<open>A job that has a place has a record.\<close>

lemma phase_record:
  assumes "redis_inv view C storable w" "redis_phase view w i \<noteq> Gone"
  shows "\<exists>j p. 0 < occ (view (store w)) p i \<and> reads_as C (view (store w)) i j \<and> fits p j
    \<and> nameable storable j \<and> redis_phase view w i = place_phase (Some p)"
proof -
  let ?ks = "view (store w)"
  from assms(2) obtain p where p: "0 < occ ?ks p i"
    by (auto simp: redis_phase_def kphase_Gone places_def)
  with inv_placed [OF assms(1)] obtain j where "reads_as C ?ks i j" "fits p j" "nameable storable j"
    by (auto simp: well_placed_def)
  moreover have "redis_phase view w i = place_phase (Some p)"
    using kphase_at [OF inv_exclusive [OF assms(1)] p] by (simp add: redis_phase_def)
  ultimately show ?thesis using p by blast
qed

definition claimed :: "'k world \<Rightarrow> 'k world \<Rightarrow> string \<Rightarrow> bool" where
  "claimed w w' i \<longleftrightarrow> redis_phase view w i = Queued \<and> redis_phase view w' = (redis_phase view w)(i := Running)"

lemma claim_contract:
  assumes inv: "redis_inv view C storable w"
    and run: "run_state (round_trip (rpopZaddScript R (queueKey q) activeKey n)) w = (r, w')"
  shows "redis_inv view C storable w'"
    and "r = Inr (Some i) \<Longrightarrow> i \<noteq> '''' \<and> claimed w w' i"
    and "r = Inr None \<Longrightarrow> redis_phase view w' = redis_phase view w"
    and "r = Inl e \<Longrightarrow> redis_phase view w' = redis_phase view w \<or> (\<exists>i. claimed w w' i)"
proof -
  let ?ks = "view (store w)"
  let ?i = "last (pending ?ks q)"
  note once = round_trip_once [OF rpopZaddScript_sim inv_faults [OF inv] run,
      unfolded rpopZaddScript_run [OF inv_typed [OF inv]]]
  have "redis_inv view C storable w' \<and> (r = Inr (Some i) \<longrightarrow> i \<noteq> '''' \<and> claimed w w' i)
    \<and> (r = Inr None \<longrightarrow> redis_phase view w' = redis_phase view w)
    \<and> (r = Inl e \<longrightarrow> redis_phase view w' = redis_phase view w \<or> (\<exists>i. claimed w w' i))"
  proof (cases "pending ?ks q = []")
    case True
    then have "view (store w') = ?ks" "r \<noteq> Inr (Some i)"
      using once by (auto simp: db_claim_def)
    then show ?thesis
      using inv_same [OF inv] round_trip_faults [OF run] by (simp add: redis_phase_def)
  next
    case False
    have occ: "0 < occ ?ks (Pending q) ?i" using False by (simp add: count_list_pos)
    obtain j where j: "reads_as C ?ks ?i j" "nameable storable j"
      using inv_placed [OF inv] occ unfolding well_placed_def by blast
    have mv: "moved ?ks (snd (db_claim q n ?ks)) ?i (Some Active)"
      by (rule moved_claim [OF inv_exclusive [OF inv] False])
    have "record_of (snd (db_claim q n ?ks)) ?i = record_of ?ks ?i"
      by (simp add: db_claim_def)
    then have "redis_inv view C storable w'"
      and "phase_change r (redis_phase view w) (redis_phase view w') ?i Running"
      using request_move [OF inv rpopZaddScript_sim run _ mv] j inv_typed [OF inv]
      by (auto simp: rpopZaddScript_run reads_as_def)
    moreover have "redis_phase view w ?i = Queued"
      using kphase_at [OF inv_exclusive [OF inv] occ] by (simp add: redis_phase_def)
    moreover have "?i \<noteq> ''''" using j by (auto simp: reads_as_def nameable_def)
    moreover have "r = Inr x \<Longrightarrow> x = Some ?i" for x
      using once False by (auto simp: db_claim_def)
    ultimately show ?thesis by (auto simp: phase_change_def claimed_def)
  qed
  then show "redis_inv view C storable w'"
    "r = Inr (Some i) \<Longrightarrow> i \<noteq> '''' \<and> claimed w w' i"
    "r = Inr None \<Longrightarrow> redis_phase view w' = redis_phase view w"
    "r = Inl e \<Longrightarrow> redis_phase view w' = redis_phase view w \<or> (\<exists>i. claimed w w' i)"
    by blast+
qed

lemma time_Now_inv:
  assumes "redis_inv view C storable w" "run_state time_Now w = (t, u)"
  shows "redis_inv view C storable u" "view (store u) = view (store w)"
    "redis_phase view u = redis_phase view w"
  using time_Now_same [OF assms(2)] inv_same [OF assms(1), of u]
  by (simp_all add: same_store_def redis_phase_def)

lemma claimed_cong:
  "redis_phase view u = redis_phase view w \<Longrightarrow> claimed u w' i \<longleftrightarrow> claimed w w' i"
  by (simp add: claimed_def)

lemma dequeue_loop_contract:
  assumes "redis_inv view C storable w" "run_state (dequeue_loop R qs) w = (r, w')"
  shows "redis_inv view C storable w' \<and>
    (case r of
       Inl _ \<Rightarrow> redis_phase view w' = redis_phase view w \<or> (\<exists>i. claimed w w' i)
     | Inr i \<Rightarrow> if i = '''' then redis_phase view w' = redis_phase view w else claimed w w' i)"
  using assms
proof (induction qs arbitrary: w)
  case (Cons q qs)
  obtain t u where u: "run_state time_Now w = (t, u)" by (cases "run_state time_Now w")
  note U = time_Now_inv [OF Cons.prems(1) u]
  obtain r0 v where v: "run_state (round_trip (rpopZaddScript R (queueKey q) activeKey
      (Unix (t + 30 * Second)))) u = (r0, v)" (is "?run = _") by (cases ?run)
  note V = claim_contract [OF U(1) v]
  have run: "run_state (case nil_reply r0 of
        Inl err \<Rightarrow> if err = RedisNil then dequeue_loop R qs
          else State_Monad.return (Inl (WrapError ''script run '' err))
      | Inr jobID \<Rightarrow> State_Monad.return (Inr jobID)) v = (r, w')"
    using Cons.prems(2) u v by simp
  consider (err) e where "r0 = Inl e" | (none) "r0 = Inr None" | (some) i where "r0 = Inr (Some i)"
    by (cases r0; cases "projr r0") auto
  then show ?case
  proof cases
    case err
    then have "r = Inl (WrapError ''script run '' e)" "w' = v"
      using run round_trip_not_nil [OF v] by (auto simp: nil_reply_def)
    with V(1) V(4) [OF err] U show ?thesis by (simp add: claimed_cong [OF U(3)])
  next
    case none
    then have "run_state (dequeue_loop R qs) v = (r, w')" using run by (simp add: nil_reply_def)
    moreover have ph: "redis_phase view v = redis_phase view w" using V(3) [OF none] U by simp
    moreover have "claimed v = claimed w" by (simp add: fun_eq_iff claimed_cong [OF ph])
    ultimately show ?thesis using Cons.IH [OF V(1)] by (auto split: sum.splits if_splits)
  next
    case some
    then have "r = Inr i" "w' = v" using run by (auto simp: nil_reply_def)
    with V(1) V(2) [OF some] U show ?thesis by (simp add: claimed_cong [OF U(3)])
  qed
qed auto

lemma Dequeue_contract:
  assumes inv: "redis_inv view C storable w" and run: "run_state (redis_Dequeue C R qs) w = (r, w')"
  shows "redis_inv view C storable w'"
    and "r = Inr (Some j) \<Longrightarrow> nameable storable j \<and> claimed w w' (ID j)"
    and "r = Inr None \<Longrightarrow> redis_phase view w' = redis_phase view w"
    and "r = Inl e \<Longrightarrow> redis_phase view w' = redis_phase view w \<or> (\<exists>i. claimed w w' i)"
proof -
  obtain r0 u where u: "run_state (dequeue_loop R qs) w = (r0, u)" by (cases "run_state (dequeue_loop R qs) w")
  note U = dequeue_loop_contract [OF inv u]
  have "redis_inv view C storable w' \<and> (r = Inr (Some j) \<longrightarrow> nameable storable j \<and> claimed w w' (ID j))
    \<and> (r = Inr None \<longrightarrow> redis_phase view w' = redis_phase view w)
    \<and> (r = Inl e \<longrightarrow> redis_phase view w' = redis_phase view w \<or> (\<exists>i. claimed w w' i))"
  proof (cases "r0 = Inr '''' \<or> (\<exists>e. r0 = Inl e)")
    case True
    then have "w' = u" "r \<noteq> Inr (Some j)" "r = Inr None \<Longrightarrow> r0 = Inr ''''" "r = Inl e \<Longrightarrow> r0 = Inl e"
      using run u by (auto simp: redis_Dequeue_def)
    with U show ?thesis by auto
  next
    case False
    then obtain i where i: "r0 = Inr i" "i \<noteq> ''''" by (cases r0) auto
    with U have c: "claimed w u i" and iu: "redis_inv view C storable u" by auto
    then obtain j' where j': "reads_as C (view (store u)) i j'" "nameable storable j'"
      using phase_record [OF iu, of i] by (auto simp: claimed_def)
    obtain d where d: "run_state (redis_Get R (jobKey i)) u = (d, w')"
      "r = (case d of Inl err \<Rightarrow> Inl (WrapError ''get job in dequeue: '' err)
         | Inr data \<Rightarrow> (case jsonUnmarshal C data of
              Inl err \<Rightarrow> Inl (WrapError ''job unmarshal: '' err) | Inr job \<Rightarrow> Inr (Some job)))"
      using run u i by (auto simp: redis_Dequeue_def split: prod.splits)
    note D = Get_contract [OF iu d(1)]
    have c': "claimed w w' i" using c D(2) by (simp add: claimed_def)
    moreover have "r = Inr (Some j) \<Longrightarrow> j = j'"
      using d(2) D(3) j' by (auto simp: reads_as_def split: sum.splits)
    moreover have "r \<noteq> Inr None" using d(2) by (auto split: sum.splits)
    ultimately show ?thesis using D(1) j' by (auto simp: reads_as_def)
  qed
  then show "redis_inv view C storable w'"
    "r = Inr (Some j) \<Longrightarrow> nameable storable j \<and> claimed w w' (ID j)"
    "r = Inr None \<Longrightarrow> redis_phase view w' = redis_phase view w"
    "r = Inl e \<Longrightarrow> redis_phase view w' = redis_phase view w \<or> (\<exists>i. claimed w w' i)"
    by blast+
qed

lemma running_elsewhere:
  assumes "redis_inv view C storable w" "redis_phase view w i = Running" "x \<noteq> Active"
  shows "occ (view (store w)) x i = 0"
  using assms kphase_Running [OF inv_exclusive [OF assms(1)]] by (simp add: redis_phase_def)

lemma gone_moved: "redis_phase view u i = Gone \<Longrightarrow> moved (view (store u)) (view (store u)) i None"
  by (simp add: redis_phase_def kphase_Gone places_empty moved_def)

lemma Acknowledge_contract:
  assumes inv: "redis_inv view C storable w" and ph: "redis_phase view w (ID j) = Running"
    and run: "run_state (redis_Acknowledge R j) w = (r, w')"
  shows "redis_inv view C storable w' \<and> phase_change r (redis_phase view w) (redis_phase view w') (ID j) Gone"
proof -
  let ?ks = "view (store w)"
  let ?ks' = "put activeKey (RZset (zrem (ID j) (active ?ks))) ?ks"
  obtain r0 u where u: "run_state (round_trip (ZREM R activeKey (ID j))) w = (r0, u)" (is "?run = _")
    by (cases ?run)
  have mv: "moved ?ks ?ks' (ID j) None"
    by (rule moved_ack [OF running_elsewhere [OF inv ph]])
  have U: "redis_inv view C storable u" "phase_change r0 (redis_phase view w) (redis_phase view u) (ID j) Gone"
    using request_move [OF inv ZREM_law u _ mv] inv_typed [OF inv]
    by (simp_all add: cmd_run active_def)
  show ?thesis
  proof (cases r0)
    case (Inl e)
    then have "w' = u" "r = Inl (WrapError ''remove from active: '' e)"
      using run u by (auto simp: redis_Acknowledge_def)
    with U show ?thesis by (auto simp: phase_change_def)
  next
    case (Inr x)
    obtain r1 where r1: "run_state (round_trip (DEL R (jobKey (ID j)))) u = (r1, w')"
      using run u Inr by (auto simp: redis_Acknowledge_def split: prod.splits)
    have g: "redis_phase view u = (redis_phase view w)(ID j := Gone)"
      using U(2) Inr by (simp add: phase_change_ok)
    have "moved (view (store u)) (view (store u)) (ID j) None"
      using g by (intro gone_moved) simp
    note mv2 = moved_forget [OF this]
    have "redis_inv view C storable w'" "phase_change r1 (redis_phase view u) (redis_phase view w') (ID j) Gone"
      using request_move [OF U(1) DEL_law r1 _ mv2] inv_typed [OF U(1)] by (simp_all add: doc_DEL_run)
    with g show ?thesis by (auto simp: phase_change_def)
  qed
qed

text \<open>The scripts that take a job out of the active set, run for a job that is running.\<close>

lemma release_contract:
  assumes inv: "redis_inv view C storable w" and j: "nameable storable j"
    and ph: "redis_phase view w (ID j) = Running" and d: "jsonMarshal C j = Inr d"
    and run: "sim view m n" "run_state (round_trip m) w = (r, w')"
    and eff: "snd (run_state n (view (store w))) = ks'" "moved (view (store w)) ks' (ID j) (Some p)"
      "typed ks'" "record_of ks' (ID j) = Some d" "fits p j"
  shows "redis_inv view C storable w'"
    "phase_change r (redis_phase view w) (redis_phase view w') (ID j) (place_phase (Some p))"
proof -
  have "\<exists>j'. reads_as C ks' (ID j) j' \<and> fits x j' \<and> nameable storable j'" if "Some p = Some x" for x
    using that record_reads [OF j d eff(4,5)] by auto
  then show "redis_inv view C storable w'"
    "phase_change r (redis_phase view w) (redis_phase view w') (ID j) (place_phase (Some p))"
    using request_move [OF inv run eff(1-3)] by blast+
qed

lemma Requeue_contract:
  assumes inv: "redis_inv view C storable w" and j: "nameable storable j"
    and ph: "redis_phase view w (ID j) = Running"
    and run: "run_state (redis_Requeue C R j delay) w = (r, w')"
  shows "redis_inv view C storable w' \<and> phase_change r (redis_phase view w) (redis_phase view w') (ID j) Queued"
proof -
  obtain d where d: "jsonMarshal C j = Inr d" using j marshal_total by (auto simp: nameable_def)
  obtain t u where u: "run_state time_Now w = (t, u)" by (cases "run_state time_Now w")
  note U = time_Now_inv [OF inv u]
  obtain r0 where r0: "run_state (round_trip (setZaddZremScript R (jobKey (ID j)) (retryKey (Queue j))
       activeKey d (Unix (t + delay)) (ID j))) u = (r0, w')"
    and r: "r = (case r0 of Inl err \<Rightarrow> Inl (WrapError ''atomic requeue: '' err) | Inr _ \<Rightarrow> Inr ())"
    using run d u by (auto simp: redis_Requeue_def split: prod.splits)
  have ru: "redis_phase view u (ID j) = Running" using ph U by simp
  note mv = moved_requeue [OF running_elsewhere [OF U(1) ru]]
  have "redis_inv view C storable w'" "phase_change r0 (redis_phase view u) (redis_phase view w') (ID j) Queued"
    using release_contract [OF U(1) j ru d setZaddZremScript_sim r0 _ mv] inv_typed [OF U(1)]
    by (simp_all add: setZaddZremScript_run, simp_all add: db_requeue_def)
  then show ?thesis using r U(3) by (auto simp: phase_change_def split: sum.splits)
qed

lemma MoveToDeadLetter_contract:
  assumes inv: "redis_inv view C storable w" and j: "nameable storable j"
    and ph: "redis_phase view w (ID j) = Running"
    and run: "run_state (redis_MoveToDeadLetter C R j) w = ((r, j'), w')"
  shows "redis_inv view C storable w' \<and> phase_change r (redis_phase view w) (redis_phase view w') (ID j) Buried"
proof -
  let ?j = "j\<lparr>Status := StatusDead\<rparr>"
  have nj: "nameable storable ?j" using j storable_fields by (simp add: nameable_def)
  then obtain d where d: "jsonMarshal C ?j = Inr d" using marshal_total by (auto simp: nameable_def)
  obtain r0 where r0: "run_state (round_trip (setLpushZremScript R (jobKey (ID ?j)) (deadKey (Queue ?j))
       activeKey d (ID ?j))) w = (r0, w')"
    and r: "r = (case r0 of Inl err \<Rightarrow> Inl (WrapError ''atomic move to dead letter: '' err) | Inr _ \<Rightarrow> Inr ())"
    using run d by (auto simp: redis_MoveToDeadLetter_def Let_def split: prod.splits sum.splits)
  have rj: "redis_phase view w (ID ?j) = Running" using ph by simp
  note mv = moved_bury [OF running_elsewhere [OF inv rj]]
  have "redis_inv view C storable w'" "phase_change r0 (redis_phase view w) (redis_phase view w') (ID ?j) Buried"
    using release_contract [OF inv nj rj d setLpushZremScript_sim r0 _ mv] inv_typed [OF inv]
    by (simp_all add: setLpushZremScript_run, simp_all add: db_bury_def)
  then show ?thesis using r by (auto simp: phase_change_def split: sum.splits)
qed

text \<open>Reading methods and promotions keep every phase; as invariants of requests.\<close>

definition phased :: "(string \<Rightarrow> phase) \<Rightarrow> keyspace \<Rightarrow> bool" where
  "phased f ks \<longleftrightarrow> well_placed C (nameable storable) ks \<and> kphase ks = f"

lemma phasedD:
  assumes "keeps (winv (\<lambda>s. phased (redis_phase view w) (view s)) once) m"
    and "redis_inv view C storable w" "run_state m w = (r, w')"
  shows "redis_inv view C storable w' \<and> redis_phase view w' = redis_phase view w"
  using assms by (auto simp: keeps_def winv_def phased_def redis_inv_def redis_phase_def)

lemma promote_phased:
  assumes "source_place src p"
  shows "keeps (phased f) (promoteJobScript C (redis_doc sc) src (jobKey i) i)"
proof (rule keepsI)
  fix ks
  assume "phased f ks"
  then have wp: "well_placed C (nameable storable) ks" "typed ks" "exclusive ks" and f: "kphase ks = f"
    by (simp_all add: phased_def well_placed_def)
  have src: "src = scheduledKey \<or> (\<exists>q. src = retryKey q)" using assms by (auto simp: source_place_def)
  let ?ks' = "snd (db_promote C src i ks)"
  have "phased f ?ks'"
  proof (cases "0 < occ ks p i")
    case True
    obtain j where j: "reads_as C ks i j" "nameable storable j"
      using wp(1) True unfolding well_placed_def by blast
    then obtain d where d: "record_of ks i = Some d" "cjson_queue C d = Inr (Queue j)"
      by (auto simp: reads_as_def)
    note mv = moved_promote(2) [OF wp(3) assms True d]
    have "record_of ?ks' i = record_of ks i"
      using src by (auto simp: db_promote_def Let_def split: option.split sum.split)
    then have "well_placed C (nameable storable) ?ks'"
      using src j by (intro well_placed_moved [OF wp(1) _ mv])
        (auto simp: reads_as_def intro: typed_db_promote wp(2))
    moreover have "kphase ks i = Queued"
      using kphase_at [OF wp(3) True] assms by (auto simp: source_place_def)
    then have "kphase ?ks' = kphase ks" using kphase_moved [OF mv] by (auto simp: fun_eq_iff)
    ultimately show ?thesis using f by (simp add: phased_def)
  next
    case False
    then have "\<not> zmem i (zst ks src)" using source_zst [OF assms] by simp
    then show ?thesis using \<open>phased f ks\<close> by (simp add: db_promote_def)
  qed
  with src wp(2) show "phased f (snd (run_state (promoteJobScript C (redis_doc sc) src (jobKey i) i) ks))"
    by (auto simp: promoteJobScript_run)
qed

lemma promote_ids_phased:
  "source_place src p \<Longrightarrow> keeps (winv (\<lambda>s. phased f (view s)) G) (promote_ids C R src ids n)"
  by (induction ids arbitrary: n)
    (auto intro!: keep_intro keeps_sim [OF promoteJobScript_sim promote_phased])

lemma promote_sources_phased:
  "(\<And>k. k \<in> set ks \<Longrightarrow> \<exists>p. source_place k p) \<Longrightarrow>
   keeps (winv (\<lambda>s. phased f (view s)) G) (promote_sources C R t ks n)"
proof (induction ks arbitrary: n)
  case (Cons k ks)
  then obtain p where "source_place k p" by auto
  with Cons show ?case by (auto intro!: keep_intro read_inv promote_ids_phased)
qed (simp add: keeps_return)

lemma PromoteDueJobs_phased:
  "keeps (winv (\<lambda>s. phased f (view s)) G) (redis_PromoteDueJobs C R qs)"
  unfolding redis_PromoteDueJobs_def
  by (intro keep_intro promote_sources_phased) (auto simp: source_place_def)

text \<open>The script of \<open>RetryDeadJob\<close>, run with the record of the job it names.\<close>

lemma revive_contract:
  assumes inv: "redis_inv view C storable v"
    and j0: "record_of (view (store v)) i = Some d0" "jsonUnmarshal C d0 = Inr j0"
    and d: "jsonMarshal C (j0\<lparr>Status := StatusPending, Attempts := 0, LastError := '''', ProcessAt := t\<rparr>) = Inr d"
    and run: "run_state (round_trip (retryDeadJobScript R (deadKey (Queue j0)) (jobKey i)
          (queueKey (Queue j0)) i d)) v = (r, w')"
  shows "redis_inv view C storable w' \<and>
    (redis_phase view v i = Buried \<and> redis_phase view w' = (redis_phase view v)(i := Queued)
     \<or> r \<noteq> Inr 1 \<and> redis_phase view w' = redis_phase view v)"
proof (cases "i \<in> set (dead (view (store v)) (Queue j0))")
  case True
  let ?j = "j0\<lparr>Status := StatusPending, Attempts := 0, LastError := '''', ProcessAt := t\<rparr>"
  let ?ks = "view (store v)" and ?ks' = "db_revive i d (Queue j0) (view (store v))"
  have occ: "0 < occ ?ks (Dead (Queue j0)) i" using True by (simp add: count_list_pos)
  then obtain j' where j': "reads_as C ?ks i j'" "nameable storable j'"
    using inv_placed [OF inv] unfolding well_placed_def by blast
  with j0 have "j' = j0" by (auto simp: reads_as_def)
  with j' have i: "ID ?j = i" and nj: "nameable storable ?j"
    using storable_update by (auto simp: reads_as_def nameable_def)
  have "record_of ?ks' (ID ?j) = Some d" using i by (simp add: db_revive_def)
  then have rd: "\<exists>j. reads_as C ?ks' i j \<and> fits x j \<and> nameable storable j"
    if "Some (Pending (Queue j0)) = Some x" for x
    using record_reads [OF nj d, of ?ks' x] that i by auto
  have "redis_inv view C storable w'" "phase_change r (redis_phase view v) (redis_phase view w') i Queued"
    using request_move [OF inv retryDeadJobScript_sim run _ moved_revive [OF inv_exclusive [OF inv] True] _ rd]
      inv_typed [OF inv] True by (simp_all add: retryDeadJobScript_run)
  moreover have "redis_phase view v i = Buried"
    using kphase_at [OF inv_exclusive [OF inv] occ] by (simp add: redis_phase_def)
  ultimately show ?thesis by (auto simp: phase_change_def)
next
  case False
  then have "view (store w') = view (store v)" "r \<noteq> Inr 1"
    using round_trip_once [OF retryDeadJobScript_sim inv_faults [OF inv] run] inv_typed [OF inv]
    by (auto simp: retryDeadJobScript_run)
  with inv round_trip_faults [OF run] show ?thesis
    by (auto simp: redis_phase_def intro: inv_same)
qed

lemma RetryDeadJob_contract:
  assumes inv: "redis_inv view C storable w" and run: "run_state (redis_RetryDeadJob C R i) w = (r, w')"
  shows "redis_inv view C storable w' \<and> (redis_phase view w i = Buried
      \<and> redis_phase view w' = (redis_phase view w)(i := Queued)
    \<or> (\<exists>e. r = Inl e) \<and> redis_phase view w' = redis_phase view w)"
proof -
  obtain g u where u: "run_state (redis_GetJob C R i) w = (g, u)" by (cases "run_state (redis_GetJob C R i) w")
  note U = GetJob_contract [OF inv u]
  obtain t v where v: "run_state time_Now u = (t, v)" by (cases "run_state time_Now u")
  note V = time_Now_inv [OF U(1) v]
  consider (stop) "\<And>j0. g \<noteq> Inr (Some j0)"
    | (fail) j0 e where "g = Inr (Some j0)"
        "jsonMarshal C (j0\<lparr>Status := StatusPending, Attempts := 0, LastError := '''', ProcessAt := t\<rparr>) = Inl e"
    | (go) j0 d where "g = Inr (Some j0)"
        "jsonMarshal C (j0\<lparr>Status := StatusPending, Attempts := 0, LastError := '''', ProcessAt := t\<rparr>) = Inr d"
    by (metis sum.exhaust_sel)
  then show ?thesis
  proof cases
    case stop
    then have "w' = u" "\<exists>e. r = Inl e"
      using run u by (auto simp: redis_RetryDeadJob_def split: sum.splits option.splits)
    with U show ?thesis by simp
  next
    case fail
    with run u v have "w' = v" "\<exists>e. r = Inl e" by (auto simp: redis_RetryDeadJob_def Let_def)
    with V U show ?thesis by simp
  next
    case go
    obtain r0 where r0: "run_state (round_trip (retryDeadJobScript R (deadKey (Queue j0)) (jobKey i)
        (queueKey (Queue j0)) i d)) v = (r0, w')" "r0 \<noteq> Inr 1 \<Longrightarrow> \<exists>e. r = Inl e"
      using run u v go by (auto simp: redis_RetryDeadJob_def Let_def split: prod.splits sum.splits)
    obtain d0 where "record_of (view (store v)) i = Some d0" "jsonUnmarshal C d0 = Inr j0"
      using U(3) [OF go(1)] U(5) V(2) by auto
    from revive_contract [OF V(1) this go(2) r0(1)] r0(2) V(3) U(2) show ?thesis by auto
  qed
qed

text \<open>\<open>DeleteJob\<close>: the pipeline has cleared some of the places of the job, all of them when it has
  run to its end, which is also when the record is deleted.\<close>

lemma cleared_contract:
  assumes wp: "well_placed C (nameable storable) ks" and c: "cleared ks ks' i"
  shows "well_placed C (nameable storable) ks'"
    and "kphase ks' = kphase ks \<or> kphase ks' = (kphase ks)(i := Gone)"
proof -
  have ex: "exclusive ks" using wp by (simp add: well_placed_def)
  have "well_placed C (nameable storable) ks' \<and> (kphase ks' = kphase ks \<or> kphase ks' = (kphase ks)(i := Gone))"
    using cleared_moved [OF ex c]
  proof (elim disjE exE conjE)
    assume mv: "moved ks ks' i None"
    have "well_placed C (nameable storable) ks'"
      using c by (intro well_placed_moved [OF wp _ mv]) (simp_all add: cleared_def)
    with kphase_moved [OF mv] show ?thesis by simp
  next
    fix p
    assume p: "0 < occ ks p i" and mv: "moved ks ks' i (Some p)"
    have "well_placed C (nameable storable) ks'"
      using c p wp by (intro well_placed_moved [OF wp _ mv])
        (auto simp: cleared_def well_placed_def reads_as_def)
    with kphase_moved [OF mv] kphase_at [OF ex p] show ?thesis by auto
  qed
  then show "well_placed C (nameable storable) ks'"
    "kphase ks' = kphase ks \<or> kphase ks' = (kphase ks)(i := Gone)" by blast+
qed

lemma delete_pipeline:
  assumes wp: "well_placed C (nameable storable) ks"
    and j: "record_of ks i = Some d" "jsonUnmarshal C d = Inr j"
  shows "well_placed C (nameable storable)
      (snd (run_state (pipeline (removals (Queue j) i @ [any_reply (doc_DEL (jobKey i))])) ks))"
    and "kphase (snd (run_state (pipeline (removals (Queue j) i @ [any_reply (doc_DEL (jobKey i))])) ks))
      = (kphase ks)(i := Gone)"
proof -
  let ?ks = "snd (run_state (pipeline (removals (Queue j) i)) ks)"
  have ty: "typed ks" using wp by (simp add: well_placed_def)
  have "fits p j" if occ: "0 < occ ks p i" for p
  proof -
    obtain j' where "reads_as C ks i j'" "fits p j'" using wp occ unfolding well_placed_def by blast
    with j show ?thesis by (auto simp: reads_as_def)
  qed
  from removals_all [OF ty this] have "moved ks ?ks i None" by simp
  note mv = moved_forget [OF this]
  have ty': "typed ?ks"
    using cleared_removals [OF ty, of "length (removals (Queue j) i)" "Queue j" i] by (simp add: cleared_def)
  have eq: "snd (run_state (pipeline (removals (Queue j) i @ [any_reply (doc_DEL (jobKey i))])) ks)
      = ?ks(jobKey i := None)"
    by (simp add: pipeline_append pipeline_snd removal_run(6) [OF ty'] del: pipeline.simps(2))
  show "well_placed C (nameable storable)
      (snd (run_state (pipeline (removals (Queue j) i @ [any_reply (doc_DEL (jobKey i))])) ks))"
    unfolding eq using ty' by (intro well_placed_moved [OF wp _ mv]) simp_all
  show "kphase (snd (run_state (pipeline (removals (Queue j) i @ [any_reply (doc_DEL (jobKey i))])) ks))
      = (kphase ks)(i := Gone)"
    unfolding eq using kphase_moved [OF mv] by simp
qed

text \<open>What the pipeline of \<open>DeleteJob\<close> leaves, run to its end or cut off.\<close>

lemma delete_cases:
  assumes wp: "well_placed C (nameable storable) ks"
    and j: "record_of ks i = Some d" "jsonUnmarshal C d = Inr j"
    and ks': "ks' = snd (run_state (pipeline (take n (removals (Queue j) i @ [any_reply (doc_DEL (jobKey i))]))) ks)"
  shows "well_placed C (nameable storable) ks'"
    and "kphase ks' = kphase ks \<or> kphase ks' = (kphase ks)(i := Gone)"
proof -
  have ty: "typed ks" using wp by (simp add: well_placed_def)
  have "well_placed C (nameable storable) ks' \<and> (kphase ks' = kphase ks \<or> kphase ks' = (kphase ks)(i := Gone))"
  proof (cases "n \<le> length (removals (Queue j) i)")
    case True
    then have "ks' = snd (run_state (pipeline (take n (removals (Queue j) i))) ks)" using ks' by simp
    with cleared_contract [OF wp cleared_removals [OF ty]] show ?thesis by blast
  next
    case False
    then show ?thesis using ks' delete_pipeline [OF wp j] by simp
  qed
  then show "well_placed C (nameable storable) ks'"
    "kphase ks' = kphase ks \<or> kphase ks' = (kphase ks)(i := Gone)" by blast+
qed

lemma DeleteJob_contract:
  assumes inv: "redis_inv view C storable w" and run: "run_state (redis_DeleteJob C R i) w = (r, w')"
  shows "redis_inv view C storable w' \<and> phase_change r (redis_phase view w) (redis_phase view w') i Gone"
proof -
  obtain g u where u: "run_state (redis_GetJob C R i) w = (g, u)" by (cases "run_state (redis_GetJob C R i) w")
  note U = GetJob_contract [OF inv u]
  consider (err) e where "g = Inl e" | (none) "g = Inr None" | (some) j where "g = Inr (Some j)"
    by (metis sum.exhaust option.exhaust)
  then show ?thesis
  proof cases
    case err
    with run u have "w' = u" "r = Inl e" by (auto simp: redis_DeleteJob_def)
    with U show ?thesis by (simp add: phase_change_def)
  next
    case none
    with run u have w': "w' = u" "r = Inr ()" by (auto simp: redis_DeleteJob_def)
    have "redis_phase view w i = Gone"
      using phase_record [OF inv, of i] U(4) [OF none] by (auto simp: reads_as_def)
    with w' U show ?thesis by (auto simp: phase_change_def)
  next
    case some
    let ?R = "\<lambda>R. [any_reply (LREM R (queueKey (Queue j)) 0 i), any_reply (ZREM R (retryKey (Queue j)) i),
        any_reply (LREM R (deadKey (Queue j)) 0 i), any_reply (ZREM R activeKey i),
        any_reply (ZREM R scheduledKey i), any_reply (DEL R (jobKey i))]"
    let ?ns = "removals (Queue j) i @ [any_reply (doc_DEL (jobKey i))]"
    obtain r0 where r0: "run_state (pipe_Exec (?R R)) u = (r0, w')" "r = Inr () \<Longrightarrow> r0 = Inr ()"
      using run u some by (auto simp: redis_DeleteJob_def split: prod.splits sum.splits)
    have sims: "list_all2 (sim view) (?R R) ?ns"
      by (auto simp: removals_def intro!: sim_intro server_sim)
    note P = pipe_once [OF sims inv_faults [OF U(1)] r0(1)]
    obtain d where d: "record_of (view (store u)) i = Some d" "jsonUnmarshal C d = Inr j"
      using U(3) [OF some] U(5) by auto
    note D = delete_cases [OF inv_placed [OF U(1)] d refl] delete_pipeline [OF inv_placed [OF U(1)] d]
    have "redis_inv view C storable w'" using P D(1,3) inv_faults [OF U(1)]
      by (auto simp: redis_inv_def winv_def)
    moreover have "phase_change r (redis_phase view u) (redis_phase view w') i Gone"
      using P(1)
    proof (elim disjE exE conjE)
      fix e n
      assume n: "r0 = Inl e" "view (store w') = snd (run_state (pipeline (take n ?ns)) (view (store u)))"
      then have "\<exists>e. r = Inl e" using r0(2) by (cases r) auto
      with D(2) [of n] show ?thesis unfolding phase_change_def redis_phase_def n(2) by blast
    qed (simp add: phase_change_def redis_phase_def D(4))
    ultimately show ?thesis using U(2) by simp
  qed
qed

end

sublocale redis_broker \<subseteq> contract:
  broker_contract "redisBroker C R" "redis_inv view C storable" "redis_phase view" "nameable storable"
    "\<lambda>w j. redis_phase view w (ID j) = Gone"
proof (unfold_locales, goal_cases)
  case (1 j st a e)
  then show ?case
    using storable_update [of j, where st = e and a = a and e = st and t = "ProcessAt j"]
    by (simp add: nameable_def)
next
  case (2 s j r s')
  then show ?case using Enqueue_contract [of s j r s'] by (simp add: redisBroker_def)
next
  case (3 s qs j s')
  then show ?case using Dequeue_contract(1,2) by (fastforce simp: redisBroker_def claimed_def)
next
  case (4 s qs s')
  then show ?case using Dequeue_contract(1,3) by (fastforce simp: redisBroker_def)
next
  case (5 s qs err s')
  then show ?case using Dequeue_contract(1,4) by (fastforce simp: redisBroker_def claimed_def)
next
  case (6 s j r s')
  then show ?case by (intro Acknowledge_contract) (simp_all add: redisBroker_def)
next
  case (7 s j d r s')
  then show ?case by (intro Requeue_contract) (simp_all add: redisBroker_def)
next
  case (8 s j r j' s')
  then show ?case by (intro MoveToDeadLetter_contract) (simp_all add: redisBroker_def)
next
  case (9 s qs r' s')
  then show ?case by (intro phasedD [OF PromoteDueJobs_phased]) (simp_all add: redisBroker_def)
next
  case (10 s i r s')
  then show ?case by (intro RetryDeadJob_contract) (simp_all add: redisBroker_def)
next
  case (11 s i r s')
  then show ?case by (intro DeleteJob_contract) (simp_all add: redisBroker_def)
next
  case (12 s i g s')
  then show ?case by (intro phasedD [OF GetJob_inv]) (simp_all add: redisBroker_def)
next
  case (13 s st l js s')
  then show ?case by (intro phasedD [OF GetJobsByStatus_inv]) (simp_all add: redisBroker_def)
next
  case (14 s m s')
  then show ?case by (intro phasedD [OF GetQueueStats_inv]) (simp_all add: redisBroker_def)
next
  case (15 s r s')
  then show ?case by (intro phasedD [OF Close_inv]) (simp_all add: redisBroker_def)
qed

interpretation mem_text_broker: redis_broker mem_redis map_of text_codec "\<lambda>_. True" "\<lambda>j. j"
  by unfold_locales

end
