(* ===== verification/Samples.thy ===== *)
theory Samples
  imports Redis_Places
begin

text \<open>
  Concrete inputs on which the properties of the Redis broker are instantiated: worlds of the
  association-list server with the text format for records.
\<close>

definition mem_world :: "instant \<Rightarrow> mem_state \<Rightarrow> net list \<Rightarrow> mem_state world" where
  "mem_world t al fs = \<lparr>clock = t, ticks = [], store = al, faults = fs\<rparr>"

lemma mem_world_sel [simp]:
  "clock (mem_world t al fs) = t" "store (mem_world t al fs) = al" "faults (mem_world t al fs) = fs"
  by (simp_all add: mem_world_def)

lemma text_codec_queue: "codec_queue text_codec"
  by (simp add: codec_queue_def text_codec_def text_job_enc)

interpretation mem_text: redis_codec mem_redis map_of text_codec
  by unfold_locales (rule text_codec_queue)

text \<open>A job, and a database in which it waits in its queue.\<close>

definition sample_job :: "string \<Rightarrow> string \<Rightarrow> instant \<Rightarrow> Job" where
  "sample_job i q t = zeroJob\<lparr>ID := i, Queue := q, ProcessAt := t, MaxAttempts := 3, Status := StatusPending\<rparr>"

lemma sample_job_sel [simp]:
  "ID (sample_job i q t) = i" "Queue (sample_job i q t) = q" "ProcessAt (sample_job i q t) = t"
  by (simp_all add: sample_job_def)

definition text_of :: "Job \<Rightarrow> string" where
  "text_of j = enc_strs (job_fields j)"

lemma text_codec_of [simp]:
  "jsonMarshal text_codec j = Inr (text_of j)" "jsonUnmarshal text_codec (text_of j) = Inr j"
  "cjson_queue text_codec (text_of j) = Inr (Queue j)"
  by (simp_all add: text_codec_def text_of_def text_job_enc)

definition queued_store :: "Job \<Rightarrow> mem_state" where
  "queued_store j = [(queueKey (Queue j), RList [ID j]), (jobKey (ID j), RStr (text_of j))]"

lemma queued_store_view: "map_of (queued_store j) = db_enqueue (ID j) (text_of j) (Queue j) 0 0 Map.empty"
  by (simp add: queued_store_def db_enqueue_def put_def pending_def lst_def fun_eq_iff)

lemma parts_empty [simp]:
  "pending Map.empty q = []" "dead Map.empty q = []" "retrying Map.empty q = []"
  "scheduled Map.empty = []" "active Map.empty = []" "record_of Map.empty i = None"
  by (simp_all add: part_defs obs_defs)

lemma occ_empty [simp]: "occ Map.empty p i = 0"
  by (cases p) (simp_all add: members_def)

lemma well_placed_empty: "well_placed C st Map.empty"
  by (simp add: well_placed_def exclusive_def)

lemma queued_store_typed: "typed (map_of (queued_store j))"
  by (simp add: queued_store_view)

lemma queued_store_live: "live text_codec (ID j) (map_of (queued_store j))"
  by (auto simp: queued_store_view live_def db_enqueue_def Let_def recorded_def intro: locatedI(1) [where q = "Queue j"])

lemma queued_store_placed:
  assumes "st j"
  shows "well_placed text_codec st (map_of (queued_store j))"
proof (rule well_placed_moved [OF well_placed_empty])
  show "moved Map.empty (map_of (queued_store j)) (ID j) (Some (Pending (Queue j)))"
    using moved_enqueue [of Map.empty "ID j" "text_of j" "Queue j" 0 0] by (simp add: queued_store_view)
  fix x
  assume "Some (Pending (Queue j)) = Some x"
  then show "\<exists>j'. reads_as text_codec (map_of (queued_store j)) (ID j) j' \<and> fits x j' \<and> st j'"
    using assms by (auto simp: queued_store_view reads_as_def db_enqueue_def Let_def)
qed (rule queued_store_typed)

text \<open>A database in which a job waits in the scheduled set.\<close>

definition scheduled_store :: "Job \<Rightarrow> mem_state" where
  "scheduled_store j = [(scheduledKey, RZset [(Unix (ProcessAt j), ID j)]), (jobKey (ID j), RStr (text_of j))]"

lemma scheduled_store_view:
  "map_of (scheduled_store j) = db_enqueue (ID j) (text_of j) (Queue j) (Unix (ProcessAt j)) (Unix (ProcessAt j) - 1) Map.empty"
  by (simp add: scheduled_store_def db_enqueue_def put_def scheduled_def zst_def zadd_def fun_eq_iff)

lemma scheduled_store_typed: "typed (map_of (scheduled_store j))"
  by (simp add: scheduled_store_view)

lemma scheduled_store_placed:
  assumes "st j"
  shows "well_placed text_codec st (map_of (scheduled_store j))"
proof (rule well_placed_moved [OF well_placed_empty])
  show "moved Map.empty (map_of (scheduled_store j)) (ID j) (Some Scheduled)"
    using moved_enqueue [of Map.empty "ID j" "text_of j" "Queue j" "Unix (ProcessAt j)" "Unix (ProcessAt j) - 1"]
    by (simp add: scheduled_store_view)
  fix x
  assume "Some Scheduled = Some x"
  then show "\<exists>j'. reads_as text_codec (map_of (scheduled_store j)) (ID j) j' \<and> fits x j' \<and> st j'"
    using assms by (auto simp: scheduled_store_view reads_as_def db_enqueue_def Let_def)
qed (rule scheduled_store_typed)

text \<open>A database in which a job is dead.\<close>

definition dead_store :: "Job \<Rightarrow> mem_state" where
  "dead_store j = [(deadKey (Queue j), RList [ID j]), (jobKey (ID j), RStr (text_of j))]"

lemma dead_store_view: "map_of (dead_store j) = put (deadKey (Queue j)) (RList [ID j]) [jobKey (ID j) \<mapsto> RStr (text_of j)]"
  by (simp add: dead_store_def put_def fun_eq_iff)

lemma dead_store_parts:
  "typed (map_of (dead_store j))" "dead (map_of (dead_store j)) (Queue j) = [ID j]"
  "record_of (map_of (dead_store j)) (ID j) = Some (text_of j)" "pending (map_of (dead_store j)) q = []"
  by (simp_all add: dead_store_view)

end
