(* ===== verification/Redis_Functional.thy ===== *)
theory Redis_Functional
  imports Redis_Contract Samples
begin

text \<open>
  What the methods of the Redis broker return and leave behind when every request is executed
  once and answered: exact results on a database whose keys are well typed. They
  are computed on the keyspace that the commands are documented on, and carry over to any
  server by the simulations of \<open>Redis_Broker\<close>.
\<close>

definition reliable :: "'k world \<Rightarrow> bool" where
  "reliable w \<longleftrightarrow> faults w = []"

text \<open>The world after one look at the clock.\<close>

definition tock :: "'k world \<Rightarrow> 'k world" where
  "tock w = snd (run_state time_Now w)"

lemma run_time_Now [simp]: "run_state time_Now w = (clock w, tock w)"
  by (simp add: tock_def prod_eq_iff)

lemma tock_sel [simp]:
  "store (tock w) = store w" "faults (tock w) = faults w" "clock w \<le> clock (tock w)"
  "tock (w\<lparr>store := s\<rparr>) = (tock w)\<lparr>store := s\<rparr>" "reliable (tock w) \<longleftrightarrow> reliable w"
  "(tock w)\<lparr>store := store w\<rparr> = tock w"
  by (simp_all add: tock_def time_Now_def reliable_def)

lemma reliable_store [simp]: "reliable (w\<lparr>store := s\<rparr>) \<longleftrightarrow> reliable w"
  by (simp add: reliable_def)

lemma reliable_wview [simp]: "reliable (wview v w) \<longleftrightarrow> reliable w"
  by (simp add: reliable_def)

text \<open>One request, and one pipeline.\<close>

lemma reliable_round_trip:
  "reliable w \<Longrightarrow> run_state (round_trip m) w =
     (map_sum RedisError id (fst (run_state m (store w))), w\<lparr>store := snd (run_state m (store w))\<rparr>)"
  by (auto simp: reliable_def round_trip_def next_fault_def on_store_def times_def split_beta split: sum.splits)

lemma reliable_pipe:
  "reliable w \<Longrightarrow> run_state (pipe_Exec ms) w =
     (map_sum RedisError id (fst (run_state (pipeline ms) (store w))),
      w\<lparr>store := snd (run_state (pipeline ms) (store w))\<rparr>)"
  by (auto simp: reliable_def pipe_Exec_def next_fault_def on_store_def times_def split_beta split: sum.splits)

section \<open>On the keyspace\<close>

text \<open>The database after \<open>Acknowledge\<close> and \<open>DeleteJob\<close>.\<close>

definition db_ack :: "string \<Rightarrow> keyspace \<Rightarrow> keyspace" where
  "db_ack i ks = (put activeKey (RZset (zrem i (active ks))) ks)(jobKey i := None)"

definition db_delete :: "string \<Rightarrow> string \<Rightarrow> keyspace \<Rightarrow> keyspace" where
  "db_delete i q ks =
     (put scheduledKey (RZset (zrem i (scheduled ks))) (put activeKey (RZset (zrem i (active ks)))
       (put (deadKey q) (RList (removeAll i (dead ks q))) (put (retryKey q) (RZset (zrem i (retrying ks q)))
         (put (queueKey q) (RList (removeAll i (pending ks q))) ks)))))(jobKey i := None)"

lemma doc_Enqueue:
  assumes "reliable w" "typed (store w)" "jsonMarshal C j = Inr d"
  shows "run_state (redis_Enqueue C (redis_doc sc) j) w = (Inr (), (tock w)\<lparr>store :=
    db_enqueue (ID j) d (Queue j) (Unix (ProcessAt j)) (Unix (clock w)) (store w)\<rparr>)"
  using assms by (simp add: redis_Enqueue_def reliable_round_trip setBranchLpushZaddScript_run)

lemma doc_claim:
  assumes "reliable w" "typed (store w)"
  shows "run_state (dequeue_loop (redis_doc sc) (q # qs)) w =
    (if pending (store w) q = [] then run_state (dequeue_loop (redis_doc sc) qs) (tock w)
     else (Inr (last (pending (store w) q)),
       (tock w)\<lparr>store := snd (db_claim q (Unix (clock w) + 30) (store w))\<rparr>))"
  using assms by (simp add: reliable_round_trip rpopZaddScript_run nil_reply_def db_claim_def Unix_add_seconds)

lemma doc_Get:
  assumes "reliable w" "typed (store w)"
  shows "run_state (redis_Get (redis_doc sc) (jobKey i)) w =
    (case record_of (store w) i of None \<Rightarrow> Inl RedisNil | Some d \<Rightarrow> Inr d, w)"
  using assms by (simp add: redis_Get_def reliable_round_trip doc_GET_run record_of_def nil_reply_def split: option.split)

lemma doc_Acknowledge:
  assumes "reliable w" "typed (store w)"
  shows "run_state (redis_Acknowledge (redis_doc sc) j) w = (Inr (), w\<lparr>store := db_ack (ID j) (store w)\<rparr>)"
  using assms by (simp add: redis_Acknowledge_def reliable_round_trip cmd_run db_ack_def part_defs)

lemma doc_Requeue:
  assumes "reliable w" "typed (store w)" "jsonMarshal C j = Inr d"
  shows "run_state (redis_Requeue C (redis_doc sc) j delay) w = (Inr (), (tock w)\<lparr>store :=
    db_requeue (ID j) d (Queue j) (Unix (clock w + delay)) (store w)\<rparr>)"
  using assms by (simp add: redis_Requeue_def reliable_round_trip setZaddZremScript_run)

lemma doc_MoveToDeadLetter:
  assumes "reliable w" "typed (store w)" "jsonMarshal C (j\<lparr>Status := StatusDead\<rparr>) = Inr d"
  shows "run_state (redis_MoveToDeadLetter C (redis_doc sc) j) w =
    ((Inr (), j\<lparr>Status := StatusDead\<rparr>), w\<lparr>store := db_bury (ID j) d (Queue j) (store w)\<rparr>)"
  using assms by (simp add: redis_MoveToDeadLetter_def reliable_round_trip setLpushZremScript_run Let_def)

lemma doc_GetJob:
  assumes "reliable w" "typed (store w)"
  shows "run_state (redis_GetJob C (redis_doc sc) i) w =
    (case record_of (store w) i of None \<Rightarrow> Inr None | Some d \<Rightarrow>
       (case jsonUnmarshal C d of Inl err \<Rightarrow> Inl (WrapError (''unmarshal job '' @ i @ '': '') err)
         | Inr j \<Rightarrow> Inr (Some j)), w)"
  using assms by (simp add: redis_GetJob_def doc_Get split: option.split sum.split)

text \<open>The record \<open>RetryDeadJob\<close> writes.\<close>

definition revived :: "instant \<Rightarrow> Job \<Rightarrow> Job" where
  "revived t j = j\<lparr>Status := StatusPending, Attempts := 0, LastError := '''', ProcessAt := t\<rparr>"

lemma revived_sel [simp]:
  "ID (revived t j) = ID j" "Queue (revived t j) = Queue j" "ProcessAt (revived t j) = t"
  "Attempts (revived t j) = 0" "LastError (revived t j) = ''''" "Status (revived t j) = StatusPending"
  by (simp_all add: revived_def)

lemma doc_RetryDeadJob:
  assumes "reliable w" "typed (store w)" "record_of (store w) i = Some d" "jsonUnmarshal C d = Inr j"
    and "jsonMarshal C (revived (clock w) j) = Inr d'"
  shows "run_state (redis_RetryDeadJob C (redis_doc sc) i) w =
    (if i \<in> set (dead (store w) (Queue j))
     then (Inr (), (tock w)\<lparr>store := db_revive i d' (Queue j) (store w)\<rparr>)
     else (Inl (ErrorString (''job '' @ i @ '' not found in dead-letter queue '' @ Queue j)), tock w))"
  using assms
  by (simp add: redis_RetryDeadJob_def doc_GetJob reliable_round_trip retryDeadJobScript_run Let_def
      revived_def [symmetric] del: append_Cons append.simps)

lemma doc_DeleteJob:
  assumes "reliable w" "typed (store w)" "record_of (store w) i = Some d" "jsonUnmarshal C d = Inr j"
  shows "run_state (redis_DeleteJob C (redis_doc sc) i) w = (Inr (), w\<lparr>store := db_delete i (Queue j) (store w)\<rparr>)"
  using assms
  by (simp add: redis_DeleteJob_def doc_GetJob reliable_pipe any_reply_def cmd_run db_delete_def part_defs lrem_0
      del: append_Cons append.simps)

lemma doc_DeleteJob_absent:
  assumes "reliable w" "typed (store w)" "record_of (store w) i = None"
  shows "run_state (redis_DeleteJob C (redis_doc sc) i) w = (Inr (), w)"
  using assms by (simp add: redis_DeleteJob_def doc_GetJob)

section \<open>On any server\<close>

context redis_server
begin

lemma doc_result:
  assumes "sim (wview view) m n" "run_state m w = (r, w')" "run_state n (wview view w) = (x, u\<lparr>store := ks\<rparr>)"
    and "reliable u" "clock w \<le> clock u"
  shows "r = x" "view (store w') = ks" "reliable w'" "clock w \<le> clock w'"
proof -
  have "r = x" and w': "wview view w' = u\<lparr>store := ks\<rparr>" using assms(1-3) by (simp_all add: sim_def)
  then show "r = x" by simp
  have "store (wview view w') = ks" "faults (wview view w') = faults u" "clock (wview view w') = clock u"
    unfolding w' by simp_all
  with assms(4,5) show "view (store w') = ks" "reliable w'" "clock w \<le> clock w'"
    by (simp_all add: reliable_def)
qed

lemma tock_wview: "reliable w \<Longrightarrow> reliable (tock (wview view w))" "clock w \<le> clock (tock (wview view w))"
  using tock_sel(3) [of "wview view w"] by simp_all

lemmas doc_tock = doc_result [OF _ _ _ tock_wview]

lemma reliable_Enqueue:
  assumes "reliable w" "typed (view (store w))" "jsonMarshal C j = Inr d"
    and "run_state (redis_Enqueue C R j) w = (r, w')"
  shows "r = Inr ()" "view (store w') =
      db_enqueue (ID j) d (Queue j) (Unix (ProcessAt j)) (Unix (clock w)) (view (store w))"
    and "reliable w'" "clock w \<le> clock w'"
  using doc_tock [OF redis_Enqueue_sim assms(4) doc_Enqueue] assms(1-3) by simp_all

lemma reliable_Dequeue:
  assumes "reliable w" "typed (view (store w))" "pending (view (store w)) q \<noteq> []"
    and i: "last (pending (view (store w)) q) = i" "i \<noteq> ''''"
    and j: "record_of (view (store w)) i = Some d" "jsonUnmarshal C d = Inr j"
    and run: "run_state (redis_Dequeue C R (q # qs)) w = (r, w')"
  shows "r = Inr (Some j)" "view (store w') = snd (db_claim q (Unix (clock w) + 30) (view (store w)))"
    "reliable w'" "clock w \<le> clock w'"
proof -
  have "run_state (redis_Dequeue C (redis_doc sc) (q # qs)) (wview view w) = (Inr (Some j),
      (tock (wview view w))\<lparr>store := snd (db_claim q (Unix (clock w) + 30) (view (store w)))\<rparr>)" for sc
    using assms(1-3) i j
    by (simp add: redis_Dequeue_def doc_claim doc_Get del: dequeue_loop.simps) (simp add: db_claim_def)
  from doc_tock [OF redis_Dequeue_sim run this assms(1)]
  show "r = Inr (Some j)" "view (store w') = snd (db_claim q (Unix (clock w) + 30) (view (store w)))"
    "reliable w'" "clock w \<le> clock w'" by simp_all
qed

lemma reliable_Dequeue_empty:
  assumes "reliable w" "typed (view (store w))" "pending (view (store w)) q = []"
    and run: "run_state (redis_Dequeue C R [q]) w = (r, w')"
  shows "r = Inr None" "view (store w') = view (store w)" "reliable w'" "clock w \<le> clock w'"
proof -
  have "run_state (redis_Dequeue C (redis_doc sc) [q]) (wview view w) =
      (Inr None, (tock (wview view w))\<lparr>store := view (store w)\<rparr>)" for sc
    using assms(1-3) tock_sel(6) [of "wview view w"]
    by (simp add: redis_Dequeue_def doc_claim del: dequeue_loop.simps(2))
  from doc_tock [OF redis_Dequeue_sim run this assms(1)]
  show "r = Inr None" "view (store w') = view (store w)" "reliable w'" "clock w \<le> clock w'" by simp_all
qed

lemma reliable_Acknowledge:
  assumes "reliable w" "typed (view (store w))" "run_state (redis_Acknowledge R j) w = (r, w')"
  shows "r = Inr ()" "view (store w') = db_ack (ID j) (view (store w))" "reliable w'" "clock w \<le> clock w'"
  using doc_result [OF redis_Acknowledge_sim assms(3) doc_Acknowledge] assms(1,2) by simp_all

lemma reliable_Requeue:
  assumes "reliable w" "typed (view (store w))" "jsonMarshal C j = Inr d"
    and "run_state (redis_Requeue C R j delay) w = (r, w')"
  shows "r = Inr ()" "view (store w') = db_requeue (ID j) d (Queue j) (Unix (clock w + delay)) (view (store w))"
    "reliable w'" "clock w \<le> clock w'"
  using doc_tock [OF redis_Requeue_sim assms(4) doc_Requeue] assms(1-3) by simp_all

lemma reliable_MoveToDeadLetter:
  assumes "reliable w" "typed (view (store w))" "jsonMarshal C (j\<lparr>Status := StatusDead\<rparr>) = Inr d"
    and "run_state (redis_MoveToDeadLetter C R j) w = (r, w')"
  shows "r = (Inr (), j\<lparr>Status := StatusDead\<rparr>)" "view (store w') = db_bury (ID j) d (Queue j) (view (store w))"
    "reliable w'" "clock w \<le> clock w'"
  using doc_result [OF redis_MoveToDeadLetter_sim assms(4) doc_MoveToDeadLetter] assms(1-3) by simp_all

lemma reliable_DeleteJob:
  assumes "reliable w" "typed (view (store w))" "record_of (view (store w)) i = Some d" "jsonUnmarshal C d = Inr j"
    and "run_state (redis_DeleteJob C R i) w = (r, w')"
  shows "r = Inr ()" "view (store w') = db_delete i (Queue j) (view (store w))" "reliable w'" "clock w \<le> clock w'"
  using doc_result [OF redis_DeleteJob_sim assms(5) doc_DeleteJob] assms(1-4) by simp_all

lemma reliable_RetryDeadJob:
  assumes "reliable w" "typed (view (store w))" "record_of (view (store w)) i = Some d" "jsonUnmarshal C d = Inr j"
    and "jsonMarshal C (revived (clock w) j) = Inr d'" "i \<in> set (dead (view (store w)) (Queue j))"
    and run: "run_state (redis_RetryDeadJob C R i) w = (r, w')"
  shows "r = Inr ()" "view (store w') = db_revive i d' (Queue j) (view (store w))" "reliable w'" "clock w \<le> clock w'"
proof -
  have "run_state (redis_RetryDeadJob C (redis_doc sc) i) (wview view w) =
      (Inr (), (tock (wview view w))\<lparr>store := db_revive i d' (Queue j) (view (store w))\<rparr>)" for sc
    using assms(1-6) by (simp add: doc_RetryDeadJob)
  from doc_tock [OF redis_RetryDeadJob_sim run this assms(1)]
  show "r = Inr ()" "view (store w') = db_revive i d' (Queue j) (view (store w))" "reliable w'" "clock w \<le> clock w'"
    by simp_all
qed

end

lemma wview_same: "(wview v w)\<lparr>store := v (store w)\<rparr> = wview v w"
  by (simp add: wview_def)

context redis_server
begin

lemma reliable_RetryDeadJob_miss:
  assumes "reliable w" "typed (view (store w))" "record_of (view (store w)) i = Some d" "jsonUnmarshal C d = Inr j"
    and "jsonMarshal C (revived (clock w) j) = Inr d'" "i \<notin> set (dead (view (store w)) (Queue j))"
    and run: "run_state (redis_RetryDeadJob C R i) w = (r, w')"
  shows "r = Inl (ErrorString (''job '' @ i @ '' not found in dead-letter queue '' @ Queue j))"
    "view (store w') = view (store w)"
proof -
  have "run_state (redis_RetryDeadJob C (redis_doc sc) i) (wview view w) =
      (Inl (ErrorString (''job '' @ i @ '' not found in dead-letter queue '' @ Queue j)),
       (tock (wview view w))\<lparr>store := view (store w)\<rparr>)" for sc
    using assms(1-6) tock_sel(6) [of "wview view w"] by (simp add: doc_RetryDeadJob del: append_Cons append.simps)
  from doc_tock(1,2) [OF redis_RetryDeadJob_sim run this assms(1)]
  show "r = Inl (ErrorString (''job '' @ i @ '' not found in dead-letter queue '' @ Queue j))"
    "view (store w') = view (store w)" by simp_all
qed

text \<open>A call of \<open>DeleteJob\<close> leaves the record of the job alone or deletes it.\<close>

lemma DeleteJob_record:
  assumes "typed (view (store w))" "run_state (redis_DeleteJob C R i) w = (r, w')"
  shows "typed (view (store w'))" "record_of (view (store w')) i \<in> {None, record_of (view (store w)) i}"
proof -
  define P where "P ks \<longleftrightarrow> typed ks \<and> record_of ks i \<in> {None, record_of (view (store w)) i}" for ks
  have P: "keeps P (doc_LREM (queueKey q) 0 i)" "keeps P (doc_LREM (deadKey q) 0 i)" "keeps P (doc_ZREM (retryKey q) i)"
    "keeps P (doc_ZREM activeKey i)" "keeps P (doc_ZREM scheduledKey i)" "keeps P (doc_DEL (jobKey i))" for q
    by (auto simp: keeps_def P_def cmd_run)
  have "keeps (winv (\<lambda>s. P (view s)) (\<lambda>_. True)) (redis_DeleteJob C R i)"
    unfolding redis_DeleteJob_def
    by (intro keep_intro GetJob_inv) (auto intro!: keep_intro keeps_sim [OF LREM_law] keeps_sim [OF ZREM_law] keeps_sim [OF DEL_law] P)
  from keeps_run [OF this _ assms(2)] assms(1) have "P (view (store w'))"
    by (simp add: winv_def P_def)
  then show "typed (view (store w'))" "record_of (view (store w')) i \<in> {None, record_of (view (store w)) i}"
    by (simp_all add: P_def)
qed

lemma reliable_DeleteJob_absent:
  assumes "reliable w" "typed (view (store w))" "record_of (view (store w)) i = None"
    and "run_state (redis_DeleteJob C R i) w = (r, w')"
  shows "r = Inr ()" "view (store w') = view (store w)"
proof -
  have "run_state (redis_DeleteJob C (redis_doc sc) i) (wview view w) =
      (Inr (), (wview view w)\<lparr>store := view (store w)\<rparr>)" for sc
    using assms(1-3) by (simp add: doc_DeleteJob_absent wview_same)
  from doc_result(1,2) [OF redis_DeleteJob_sim assms(4) this] assms(1)
  show "r = Inr ()" "view (store w') = view (store w)" by simp_all
qed

end

context redis_broker
begin

lemma delete_resumes:
  assumes inv: "redis_inv view C storable w" and "redis_phase view w i \<noteq> Gone"
    and 1: "run_state (redis_DeleteJob C R i) w = (r, u)" and "reliable u"
    and 2: "run_state (redis_DeleteJob C R i) u = (r', w')"
  shows "r' = Inr () \<and> redis_phase view w' = (redis_phase view w)(i := Gone) \<and> record_of (view (store w')) i = None"
proof -
  obtain j where j: "reads_as C (view (store w)) i j" using phase_record [OF inv assms(2)] by blast
  then obtain d where d: "record_of (view (store w)) i = Some d" "jsonUnmarshal C d = Inr j" by (auto simp: reads_as_def)
  note U = DeleteJob_contract [OF inv 1] and R = DeleteJob_record [OF inv_typed [OF inv] 1]
  have r': "r' = Inr () \<and> record_of (view (store w')) i = None"
  proof (cases "record_of (view (store u)) i")
    case None
    with reliable_DeleteJob_absent [OF assms(4) R(1) None 2] show ?thesis by simp
  next
    case (Some d')
    with R(2) d have "record_of (view (store u)) i = Some d" by simp
    from reliable_DeleteJob [OF assms(4) R(1) this d(2) 2] show ?thesis by (simp add: db_delete_def)
  qed
  with DeleteJob_contract [OF conjunct1 [OF U] 2] U show ?thesis
    by (auto simp: phase_change_def)
qed

end

end
