(* ===== verification/Redis_Queues.thy ===== *)
theory Redis_Queues
  imports Redis_Functional
begin

text \<open>
  How jobs move through the queues of the Redis broker when all requests are executed and answered:
  a queue is first in, first out, and promotion takes exactly the jobs that are due.
\<close>

section \<open>First in, first out\<close>

fun enqueue_all :: "'s broker \<Rightarrow> Job list \<Rightarrow> ('s, (goerr + unit) list) state" where
  "enqueue_all B [] = State_Monad.return []"
| "enqueue_all B (j # js) = do { r \<leftarrow> Enqueue B j; rs \<leftarrow> enqueue_all B js; State_Monad.return (r # rs) }"

fun dequeue_times :: "'s broker \<Rightarrow> string list \<Rightarrow> nat \<Rightarrow> ('s, (goerr + Job option) list) state" where
  "dequeue_times B qs 0 = State_Monad.return []"
| "dequeue_times B qs (Suc n) = do { r \<leftarrow> Dequeue B qs; rs \<leftarrow> dequeue_times B qs n; State_Monad.return (r # rs) }"

text \<open>The queue \<open>q\<close> holds the jobs \<open>l\<close>, the oldest first, and each reads back as \<open>canon\<close> says.\<close>

definition queue_holds :: "('k \<Rightarrow> keyspace) \<Rightarrow> codec \<Rightarrow> (Job \<Rightarrow> Job) \<Rightarrow> string \<Rightarrow> Job list \<Rightarrow> 'k world \<Rightarrow> bool" where
  "queue_holds view C canon q l w \<longleftrightarrow> reliable w \<and> typed (view (store w))
     \<and> pending (view (store w)) q = rev (map ID l)
     \<and> (\<forall>j \<in> set l. \<exists>d. record_of (view (store w)) (ID j) = Some d \<and> jsonUnmarshal C d = Inr (canon j))"

text \<open>A due job of the queue that the codec keeps.\<close>

definition enqueued_now :: "codec \<Rightarrow> (Job \<Rightarrow> Job) \<Rightarrow> string \<Rightarrow> instant \<Rightarrow> Job \<Rightarrow> bool" where
  "enqueued_now C canon q t j \<longleftrightarrow> Queue j = q \<and> ID j \<noteq> '''' \<and> Unix (ProcessAt j) \<le> Unix t
     \<and> (\<exists>d. jsonMarshal C j = Inr d \<and> jsonUnmarshal C d = Inr (canon j))"

context redis_server
begin

lemma holds_Enqueue:
  assumes "queue_holds view C canon q l w" "enqueued_now C canon q (clock w) j" "ID j \<notin> ID ` set l"
    and "run_state (redis_Enqueue C R j) w = (r, w')"
  shows "r = Inr ()" "queue_holds view C canon q (l @ [j]) w'" "clock w \<le> clock w'"
proof -
  obtain d where d: "jsonMarshal C j = Inr d" "jsonUnmarshal C d = Inr (canon j)"
    using assms(2) by (auto simp: enqueued_now_def)
  note E = reliable_Enqueue [OF _ _ d(1) assms(4)]
  have ne: "k \<in> set l \<Longrightarrow> ID k \<noteq> ID j" for k using assms(3) by (metis imageI)
  show "r = Inr ()" "clock w \<le> clock w'" using E assms(1) by (simp_all add: queue_holds_def)
  show "queue_holds view C canon q (l @ [j]) w'"
    using E(2,3) assms(1,2) d(2) ne by (auto simp: queue_holds_def enqueued_now_def db_enqueue_def Let_def)
qed

lemma holds_Dequeue:
  assumes "queue_holds view C canon q (j # l) w" "ID j \<noteq> ''''"
    and "run_state (redis_Dequeue C R [q]) w = (r, w')"
  shows "r = Inr (Some (canon j))" "queue_holds view C canon q l w'"
proof -
  obtain d where d: "record_of (view (store w)) (ID j) = Some d" "jsonUnmarshal C d = Inr (canon j)"
    using assms(1) by (auto simp: queue_holds_def)
  have w: "reliable w" "typed (view (store w))" "pending (view (store w)) q \<noteq> []"
    "last (pending (view (store w)) q) = ID j" using assms(1) by (simp_all add: queue_holds_def)
  note D = reliable_Dequeue [OF w assms(2) d assms(3)]
  show "r = Inr (Some (canon j))" by (fact D)
  show "queue_holds view C canon q l w'"
    using D(2,3) w(2) assms(1) by (simp add: queue_holds_def db_claim_def butlast_append)
qed

lemma holds_Dequeue_all:
  assumes "queue_holds view C canon q l w" "\<forall>j \<in> set l. ID j \<noteq> ''''"
    and "run_state (dequeue_times (redisBroker C R) [q] (Suc (length l))) w = (rs, w')"
  shows "rs = map (Inr \<circ> Some \<circ> canon) l @ [Inr None]"
  using assms
proof (induction l arbitrary: w rs)
  case Nil
  obtain r u where u: "run_state (redis_Dequeue C R [q]) w = (r, u)" by force
  have "r = Inr None" using Nil.prems(1) by (intro reliable_Dequeue_empty(1) [OF _ _ _ u]) (simp_all add: queue_holds_def)
  with u Nil.prems(3) show ?case by (simp add: redisBroker_def)
next
  case (Cons j l)
  obtain r u where u: "run_state (redis_Dequeue C R [q]) w = (r, u)" by force
  obtain rs0 where rs0: "run_state (dequeue_times (redisBroker C R) [q] (Suc (length l))) u = (rs0, w')" "rs = r # rs0"
    using Cons.prems(3) u by (auto simp: redisBroker_def split: prod.splits)
  note D = holds_Dequeue [OF Cons.prems(1) _ u]
  have "rs0 = map (Inr \<circ> Some \<circ> canon) l @ [Inr None]"
    using Cons.prems(2) D(2) by (intro Cons.IH [OF _ _ rs0(1)]) simp_all
  with rs0(2) D(1) Cons.prems(2) show ?case by simp
qed

lemma holds_Enqueue_all:
  assumes "queue_holds view C canon q l w" "\<forall>j \<in> set js. enqueued_now C canon q (clock w) j"
    and "distinct (map ID (l @ js))" "run_state (enqueue_all (redisBroker C R) js) w = (rs, w')"
  shows "rs = replicate (length js) (Inr ()) \<and> queue_holds view C canon q (l @ js) w'"
  using assms
proof (induction js arbitrary: l w rs)
  case (Cons j js)
  obtain r u where u: "run_state (redis_Enqueue C R j) w = (r, u)" by force
  obtain rs0 where rs0: "run_state (enqueue_all (redisBroker C R) js) u = (rs0, w')" "rs = r # rs0"
    using Cons.prems(4) u by (auto simp: redisBroker_def split: prod.splits)
  have j: "ID j \<notin> ID ` set l" "enqueued_now C canon q (clock w) j" using Cons.prems(2,3) by auto
  note E = holds_Enqueue [OF Cons.prems(1) j(2,1) u]
  have "enqueued_now C canon q (clock u) k" if "k \<in> set js" for k
    using Cons.prems(2) that Unix_mono [OF E(3)] by (fastforce simp: enqueued_now_def)
  then have "rs0 = replicate (length js) (Inr ()) \<and> queue_holds view C canon q ((l @ [j]) @ js) w'"
    using Cons.prems(3) by (intro Cons.IH [OF E(2) _ _ rs0(1)]) simp_all
  with rs0(2) E(1) show ?case by simp
qed simp

lemma fifo:
  assumes "queue_holds view C canon q [] w" "\<forall>j \<in> set js. enqueued_now C canon q (clock w) j" "distinct (map ID js)"
    and "run_state (do { _ \<leftarrow> enqueue_all (redisBroker C R) js;
           dequeue_times (redisBroker C R) [q] (Suc (length js)) }) w = (rs, w')"
  shows "rs = map (Inr \<circ> Some \<circ> canon) js @ [Inr None]"
proof -
  obtain es u where u: "run_state (enqueue_all (redisBroker C R) js) w = (es, u)" by force
  have "queue_holds view C canon q js u" using holds_Enqueue_all [OF assms(1,2) _ u] assms(3) by simp
  moreover have "\<forall>j \<in> set js. ID j \<noteq> ''''" using assms(2) by (simp add: enqueued_now_def)
  ultimately show ?thesis using u assms(4) by (intro holds_Dequeue_all) simp_all
qed

end

section \<open>Promotion\<close>

text \<open>The queue the Lua decoder reads in the record of a job.\<close>

definition record_queue :: "codec \<Rightarrow> keyspace \<Rightarrow> string \<Rightarrow> string option" where
  "record_queue C ks i = (case record_of ks i of None \<Rightarrow> None
     | Some d \<Rightarrow> (case cjson_queue C d of Inl _ \<Rightarrow> None | Inr q \<Rightarrow> Some q))"

definition is_source :: "string \<Rightarrow> bool" where
  "is_source k \<longleftrightarrow> k = scheduledKey \<or> (\<exists>q. k = retryKey q)"

lemma is_sourceI [simp]: "is_source scheduledKey" "is_source (retryKey q)"
  by (auto simp: is_source_def)

definition due_ids :: "keyspace \<Rightarrow> int \<Rightarrow> string \<Rightarrow> string list" where
  "due_ids ks t k = members (filter (\<lambda>p. fst p \<le> t) (zst ks k))"

text \<open>\<open>ks'\<close> is \<open>ks\<close> after the jobs \<open>ids\<close> were promoted, where \<open>left k z\<close> is what stays of the sorted set
  \<open>z\<close> under the key \<open>k\<close>.\<close>

definition promoted :: "codec \<Rightarrow> (string \<Rightarrow> zset \<Rightarrow> zset) \<Rightarrow> string list \<Rightarrow> keyspace \<Rightarrow> keyspace \<Rightarrow> bool" where
  "promoted C left ids ks ks' \<longleftrightarrow> typed ks' \<and> (\<forall>k. is_source k \<longrightarrow> zst ks' k = left k (zst ks k))
     \<and> (\<forall>q. pending ks' q = rev (filter (\<lambda>i. record_queue C ks i = Some q) ids) @ pending ks q)
     \<and> record_of ks' = record_of ks \<and> dead ks' = dead ks \<and> active ks' = active ks"

lemma promoted_refl: "typed ks \<Longrightarrow> promoted C (\<lambda>_ z. z) [] ks ks"
  by (simp add: promoted_def)

lemma record_queue_cong: "record_of ks' = record_of ks \<Longrightarrow> record_queue C ks' = record_queue C ks"
  by (simp add: record_queue_def fun_eq_iff)

lemma promoted_trans:
  assumes "promoted C f ids ks ks'" "promoted C g ids' ks' ks''"
  shows "promoted C (\<lambda>k z. g k (f k z)) (ids @ ids') ks ks''"
proof -
  have "record_queue C ks' = record_queue C ks" using assms(1) by (auto simp: promoted_def intro: record_queue_cong)
  with assms show ?thesis by (simp add: promoted_def)
qed

lemma promote_one:
  assumes "typed ks" "is_source src" "zmem i (zst ks src)" "record_queue C ks i = Some q"
  shows "fst (db_promote C src i ks) = Inr 1"
    "promoted C (\<lambda>k z. if k = src then zrem i z else z) [i] ks (snd (db_promote C src i ks))"
proof -
  obtain d where d: "record_of ks i = Some d" "cjson_queue C d = Inr q"
    using assms(4) by (auto simp: record_queue_def split: option.splits sum.splits)
  show "fst (db_promote C src i ks) = Inr 1" using assms(3) d by (simp add: db_promote_def Let_def)
  have eq: "snd (db_promote C src i ks) =
      put (queueKey q) (RList (i # pending ks q)) (put src (RZset (zrem i (zst ks src))) ks)"
    using assms(3) d by (simp add: db_promote_def Let_def)
  show "promoted C (\<lambda>k z. if k = src then zrem i z else z) [i] ks (snd (db_promote C src i ks))"
    using assms(1,2,4) unfolding eq by (auto simp: promoted_def is_source_def intro!: ext)
qed

lemma doc_promote_ids:
  assumes "reliable w" "typed (store w)" "is_source src" "distinct ids"
    and "\<forall>i \<in> set ids. zmem i (zst (store w) src) \<and> record_queue C (store w) i \<noteq> None"
  shows "\<exists>ks'. run_state (promote_ids C (redis_doc sc) src ids n) w = ((n + int (length ids), None), w\<lparr>store := ks'\<rparr>)
    \<and> promoted C (\<lambda>k z. if k = src then filter (\<lambda>p. snd p \<notin> set ids) z else z) ids (store w) ks'"
  using assms
proof (induction ids arbitrary: n w)
  case Nil
  then show ?case using promoted_refl [of "store w" C] by (auto simp: promoted_def intro!: exI [of _ "store w"])
next
  case (Cons i ids)
  let ?ks1 = "snd (db_promote C src i (store w))" and ?rest = "\<lambda>k z. if k = src then filter (\<lambda>p. snd p \<notin> set ids) z else z"
  obtain q where q: "record_queue C (store w) i = Some q" using Cons.prems(5) by auto
  note P = promote_one [OF Cons.prems(2,3) _ q]
  have 1: "promoted C (\<lambda>k z. if k = src then zrem i z else z) [i] (store w) ?ks1" "fst (db_promote C src i (store w)) = Inr 1"
    using P Cons.prems(5) by simp_all
  have step: "run_state (round_trip (promoteJobScript C (redis_doc sc) src (jobKey i) i)) w = (Inr 1, w\<lparr>store := ?ks1\<rparr>)"
    using Cons.prems(1-3) 1(2) by (auto simp: reliable_round_trip is_source_def promoteJobScript_run)
  have "record_queue C ?ks1 = record_queue C (store w)"
    using 1(1) by (auto simp: promoted_def intro: record_queue_cong)
  moreover have "zst ?ks1 src = zrem i (zst (store w) src)" "typed ?ks1"
    using 1(1) Cons.prems(3) by (simp_all add: promoted_def)
  ultimately obtain ks' where ks': "run_state (promote_ids C (redis_doc sc) src ids (n + 1)) (w\<lparr>store := ?ks1\<rparr>) =
      ((n + 1 + int (length ids), None), w\<lparr>store := ks'\<rparr>)" "promoted C ?rest ids ?ks1 ks'"
    using Cons.IH [of "w\<lparr>store := ?ks1\<rparr>" "n + 1"] Cons.prems by auto
  have "promoted C (\<lambda>k z. if k = src then filter (\<lambda>p. snd p \<notin> set (i # ids)) z else z) (i # ids) (store w) ks'"
    using promoted_trans [OF 1(1) ks'(2)] by (simp add: zrem_def if_distrib cong: if_cong) 
  with ks'(1) step show ?case by auto
qed

lemma filter_due:
  assumes "distinct (members z)"
  shows "filter (\<lambda>p. snd p \<notin> set (members (filter (\<lambda>p. fst p \<le> t) z))) z = filter (\<lambda>p. t < fst p) z"
proof (rule filter_cong [OF refl])
  fix p
  assume p: "p \<in> set z"
  have "inj_on snd (set z)" using assms by (simp add: members_def distinct_map)
  with p have "snd p \<in> snd ` {x \<in> set z. fst x \<le> t} \<longleftrightarrow> p \<in> {x \<in> set z. fst x \<le> t}"
    by (intro inj_on_image_mem_iff [of snd "set z"]) auto
  with p show "(snd p \<notin> set (members (filter (\<lambda>p. fst p \<le> t) z))) = (t < fst p)"
    by (auto simp: members_def)
qed

lemma distinct_due: "distinct (members (zst ks k)) \<Longrightarrow> distinct (due_ids ks t k)"
  by (simp add: due_ids_def members_def distinct_map_filter)

text \<open>What the promotion of a sorted set needs: no member twice, and records that name a queue.\<close>

definition sourced :: "codec \<Rightarrow> keyspace \<Rightarrow> string \<Rightarrow> bool" where
  "sourced C ks k \<longleftrightarrow> is_source k \<and> distinct (members (zst ks k))
     \<and> (\<forall>i. zmem i (zst ks k) \<longrightarrow> record_queue C ks i \<noteq> None)"

lemma doc_promote_sources:
  assumes "reliable w" "typed (store w)" "distinct srcs" "\<forall>k \<in> set srcs. sourced C (store w) k"
  shows "\<exists>ks'. run_state (promote_sources C (redis_doc sc) t srcs n) w =
      ((n + int (length (concat (map (due_ids (store w) t) srcs))), None), w\<lparr>store := ks'\<rparr>)
    \<and> promoted C (\<lambda>k z. if k \<in> set srcs then filter (\<lambda>p. t < fst p) z else z)
        (concat (map (due_ids (store w) t) srcs)) (store w) ks'"
  using assms
proof (induction srcs arbitrary: n w)
  case Nil
  then show ?case using promoted_refl [of "store w" C] by (auto intro!: exI [of _ "store w"])
next
  case (Cons k srcs)
  let ?ids = "due_ids (store w) t k"
  have k: "is_source k" "distinct (members (zst (store w) k))" "\<And>i. zmem i (zst (store w) k) \<Longrightarrow> record_queue C (store w) i \<noteq> None"
    using Cons.prems(4) by (auto simp: sourced_def)
  have "is_zset (store w) k" using k(1) Cons.prems(2) by (auto simp: is_source_def)
  then have range: "run_state (round_trip (doc_ZRANGEBYSCORE k t)) w = (Inr ?ids, w)"
    using Cons.prems(1) by (simp add: reliable_round_trip cmd_run due_ids_def)
  have "zmem i (zst (store w) k)" if "i \<in> set ?ids" for i
    using that by (auto simp: due_ids_def zmem_def members_def)
  with k(3) have m: "\<forall>i \<in> set ?ids. zmem i (zst (store w) k) \<and> record_queue C (store w) i \<noteq> None" by blast
  obtain ks1 where ks1: "run_state (promote_ids C (redis_doc sc) k ?ids n) w = ((n + int (length ?ids), None), w\<lparr>store := ks1\<rparr>)"
    "promoted C (\<lambda>k' z. if k' = k then filter (\<lambda>p. snd p \<notin> set ?ids) z else z) ?ids (store w) ks1"
    using doc_promote_ids [OF Cons.prems(1,2) k(1) distinct_due [OF k(2)] m, of sc n] by blast
  have same: "zst ks1 k' = zst (store w) k'" if "k' \<in> set srcs" for k'
    using ks1(2) that Cons.prems(3,4) by (auto simp: promoted_def sourced_def)
  have "record_queue C ks1 = record_queue C (store w)" using ks1(2) by (auto simp: promoted_def intro: record_queue_cong)
  with same have "\<forall>k' \<in> set srcs. sourced C ks1 k'" using Cons.prems(4) by (simp add: sourced_def)
  moreover have "typed ks1" using ks1(2) by (simp add: promoted_def)
  ultimately obtain ks' where ks0: "run_state (promote_sources C (redis_doc sc) t srcs (n + int (length ?ids))) (w\<lparr>store := ks1\<rparr>) =
      ((n + int (length ?ids) + int (length (concat (map (due_ids ks1 t) srcs))), None), w\<lparr>store := ks'\<rparr>)"
    "promoted C (\<lambda>k z. if k \<in> set srcs then filter (\<lambda>p. t < fst p) z else z) (concat (map (due_ids ks1 t) srcs)) ks1 ks'"
    using Cons.IH [of "w\<lparr>store := ks1\<rparr>" "n + int (length ?ids)"] Cons.prems(1,3) by auto
  have due: "map (due_ids ks1 t) srcs = map (due_ids (store w) t) srcs" using same by (simp add: due_ids_def)
  note ks' = ks0 [unfolded due]
  have "promoted C (\<lambda>k' z. if k' \<in> set (k # srcs) then filter (\<lambda>p. t < fst p) z else z)
      (concat (map (due_ids (store w) t) (k # srcs))) (store w) ks'"
    using promoted_trans [OF ks1(2) ks'(2)] Cons.prems(3) filter_due [OF k(2), of t]
    by (auto simp: promoted_def due_ids_def)
  with ks'(1) ks1(1) range show ?case by (intro exI [of _ ks']) (simp add: algebra_simps)
qed

lemma distinct_count_le: "(\<And>x. count_list xs x \<le> 1) \<Longrightarrow> distinct xs"
proof (induction xs)
  case (Cons y xs)
  have "count_list xs x \<le> 1" for x using Cons.prems [of x] by (simp split: if_splits)
  moreover have "count_list xs y = 0" using Cons.prems [of y] by simp
  ultimately show ?case using Cons.IH by (simp add: count_list_0_iff)
qed simp

lemma well_placed_sourced:
  assumes "well_placed C st ks" "is_source k"
  shows "sourced C ks k"
proof -
  define p where "p = (if k = scheduledKey then Scheduled else Retrying (SOME q. k = retryKey q))"
  have occ: "occ ks p i = count_list (members (zst ks k)) i" for i
    using assms(2) someI [of "\<lambda>q. k = retryKey q"] by (auto simp: p_def is_source_def part_defs)
  have "occ ks p i \<le> 1" for i using assms(1) by (simp add: well_placed_def exclusive_def)
  then have "distinct (members (zst ks k))" using occ by (intro distinct_count_le) simp
  moreover have "record_queue C ks i \<noteq> None" if "zmem i (zst ks k)" for i
  proof -
    have "0 < occ ks p i" using that occ by (simp add: zmem_def count_list_pos)
    with assms(1) obtain j where "reads_as C ks i j" by (auto simp: well_placed_def)
    then show ?thesis by (auto simp: reads_as_def record_queue_def)
  qed
  ultimately show ?thesis using assms(2) by (simp add: sourced_def)
qed

context redis_server
begin

lemma reliable_PromoteDueJobs:
  assumes "reliable w" "well_placed C st (view (store w))" "distinct qs"
    and "run_state (redis_PromoteDueJobs C R qs) w = (r, w')"
  defines "srcs \<equiv> scheduledKey # map retryKey qs"
  shows "r = (int (length (concat (map (due_ids (view (store w)) (Unix (clock w))) srcs))), None)"
    "promoted C (\<lambda>k z. if k \<in> set srcs then filter (\<lambda>p. Unix (clock w) < fst p) z else z)
        (concat (map (due_ids (view (store w)) (Unix (clock w))) srcs)) (view (store w)) (view (store w'))"
    "reliable w'"
proof -
  have d: "distinct srcs" "\<forall>k \<in> set srcs. sourced C (view (store w)) k"
    using assms(2,3) by (auto simp: srcs_def distinct_map inj_on_def intro: well_placed_sourced)
  have "typed (view (store w))" using assms(2) by (simp add: well_placed_def)
  with assms(1) d obtain ks' where ks': "run_state (redis_PromoteDueJobs C (redis_doc (\<lambda>_. undefined)) qs) (wview view w) =
      ((int (length (concat (map (due_ids (view (store w)) (Unix (clock w))) srcs))), None), (tock (wview view w))\<lparr>store := ks'\<rparr>)"
    "promoted C (\<lambda>k z. if k \<in> set srcs then filter (\<lambda>p. Unix (clock w) < fst p) z else z)
        (concat (map (due_ids (view (store w)) (Unix (clock w))) srcs)) (view (store w)) ks'"
    using doc_promote_sources [of "tock (wview view w)" srcs C "\<lambda>_. undefined" "Unix (clock w)" 0]
    by (auto simp: redis_PromoteDueJobs_def srcs_def [symmetric])
  note D = doc_tock [OF redis_PromoteDueJobs_sim assms(4) ks'(1) assms(1)]
  show "r = (int (length (concat (map (due_ids (view (store w)) (Unix (clock w))) srcs))), None)" "reliable w'"
    using D by simp_all
  show "promoted C (\<lambda>k z. if k \<in> set srcs then filter (\<lambda>p. Unix (clock w) < fst p) z else z)
        (concat (map (due_ids (view (store w)) (Unix (clock w))) srcs)) (view (store w)) (view (store w'))"
    using D(2) ks'(2) by simp
qed

end

end
