(* ===== verification/Redis_Properties.thy ===== *)
theory Redis_Properties
  imports Redis_Queues
begin

text \<open>
  Properties of the Redis broker, stated for every server that behaves as documented, every
  encoder of job records the broker can work with, and every network.
\<close>

section \<open>No job is lost\<close>

text \<open>
  C1. At least once: a job that is somewhere in the broker with its record (in a queue, a retry
  set, the schedule, the active set or a dead-letter list) still is after any history of
  calls by any clients, in any order and with any losses, resends and half-executed
  pipelines on the network, unless the history acknowledges or deletes that job.
\<close>

theorem no_job_lost:
  assumes "redis_server R view" "codec_queue C"
    and "live C i (view (store w))"
    and "\<forall>c \<in> set cs. \<not> removes i c"
  shows "live C i (view (store (snd (run_state (run_calls (redisBroker C R) cs) w))))"
  using assms by (auto intro: redis_codec.history_live redis_codec.intro redis_codec_axioms.intro)

theorem no_job_lost_witness:
  "live text_codec ''a'' (map_of (store (snd (run_state (run_calls (redisBroker text_codec mem_redis)
     [CDequeue [''q''], CRequeue (sample_job ''a'' ''q'' 0) 5, CDeleteJob ''b''])
     (mem_world 0 (queued_store (sample_job ''a'' ''q'' 0)) [Failed 1, Delivered 2, Cut 3])))))"
  using queued_store_live [of "sample_job ''a'' ''q'' 0"]
  by (intro no_job_lost [OF mem.redis_server_axioms text_codec_queue]) (simp_all add: removes_def)

text \<open>
  C8. Key types: whatever histories of calls clients run and whatever the network does to their
  requests (lost replies, resent requests, pipelines cut off), every queue and dead-letter key of the
  database holds a list, every retry key and the scheduled and active keys a sorted
  set, every job key a string.
\<close>

theorem redis_types_kept:
  assumes "redis_server R view" "typed (view (store w))"
    and "ks = view (store (snd (run_state (run_calls (redisBroker C R) cs) w)))"
  shows "is_list ks (queueKey q) \<and> is_list ks (deadKey q) \<and> is_zset ks (retryKey q)
    \<and> is_zset ks scheduledKey \<and> is_zset ks activeKey \<and> is_str ks (jobKey i)"
  using redis_server.history_typed [OF assms(1,2), of C cs] assms(3) by simp

theorem redis_types_kept_witness:
  "\<exists>ks. ks = map_of (store (snd (run_state (run_calls (redisBroker text_codec mem_redis)
        [CEnqueue (sample_job ''a'' ''q'' 0), CDequeue [''q''], CRetryDeadJob ''a'']) (mem_world 0 [] [Delivered 1, Cut 1]))))
    \<and> is_list ks (queueKey ''q'') \<and> is_list ks (deadKey ''q'') \<and> is_zset ks (retryKey ''q'')
    \<and> is_zset ks scheduledKey \<and> is_zset ks activeKey \<and> is_str ks (jobKey ''a'')"
  by (rule exI, rule conjI [OF refl], rule redis_types_kept [OF mem.redis_server_axioms _ refl]) simp

text \<open>
  C21. A queue is first in, first out: jobs that are due and are enqueued one after the other on an
  empty queue come out of as many calls of \<open>Dequeue\<close> in the same order, each once and
  as the codec reads it back, and then the queue is empty again. Every call of \<open>Enqueue\<close>
  before that returns no error. (All requests executed and answered.)
\<close>

theorem redis_fifo:
  assumes "redis_server R view" "reliable w" "typed (view (store w))" "pending (view (store w)) q = []"
    and "\<forall>j \<in> set js. enqueued_now C canon q (clock w) j" "distinct (map ID js)"
    and "run_state (enqueue_all (redisBroker C R) js) w = (es, u)"
    and "run_state (dequeue_times (redisBroker C R) [q] (Suc (length js))) u = (rs, w')"
  shows "es = replicate (length js) (Inr ()) \<and> rs = map (Inr \<circ> Some \<circ> canon) js @ [Inr None]"
proof -
  have 0: "queue_holds view C canon q [] w" using assms(2-4) by (simp add: queue_holds_def)
  have E: "es = replicate (length js) (Inr ()) \<and> queue_holds view C canon q ([] @ js) u"
    using assms(6) by (intro redis_server.holds_Enqueue_all [OF assms(1) 0 assms(5) _ assms(7)]) simp
  have "\<forall>j \<in> set js. ID j \<noteq> ''''" using assms(5) by (simp add: enqueued_now_def)
  with E redis_server.holds_Dequeue_all [OF assms(1) _ _ assms(8)] show ?thesis by simp
qed

theorem redis_fifo_witness:
  "\<exists>es u rs w'. run_state (enqueue_all (redisBroker text_codec mem_redis)
        [sample_job ''a'' ''q'' 0, sample_job ''b'' ''q'' 0]) (mem_world 0 [] []) = (es, u)
    \<and> run_state (dequeue_times (redisBroker text_codec mem_redis) [''q''] 3) u = (rs, w')
    \<and> es = [Inr (), Inr ()]
    \<and> rs = [Inr (Some (sample_job ''a'' ''q'' 0)), Inr (Some (sample_job ''b'' ''q'' 0)), Inr None]"
proof -
  let ?B = "redisBroker text_codec mem_redis" and ?js = "[sample_job ''a'' ''q'' 0, sample_job ''b'' ''q'' 0]"
  obtain es u where u: "run_state (enqueue_all ?B ?js) (mem_world 0 [] []) = (es, u)" by force
  obtain rs w' where w': "run_state (dequeue_times ?B [''q''] (Suc (length ?js))) u = (rs, w')" by force
  have "es = replicate (length ?js) (Inr ()) \<and> rs = map (Inr \<circ> Some \<circ> (\<lambda>j. j)) ?js @ [Inr None]"
    by (rule redis_fifo [OF mem.redis_server_axioms _ _ _ _ _ u w'])
      (simp_all add: reliable_def enqueued_now_def)
  with u w' show ?thesis by (simp add: numeral_3_eq_3 del: enqueue_all.simps dequeue_times.simps)
qed

text \<open>
  C9. \<open>PromoteDueJobs\<close> promotes exactly the jobs whose time has come: those of the scheduled set and of
  the retry sets of the queues it is given with a score of at most the current
  second. It returns their number; each is pushed once on the queue named in its own
  record, in the order in which the sets hold them, and leaves its set; everything that is not
  due, the other retry sets, the active set, the dead-letter lists and the records
  stay as they were.
\<close>

theorem redis_promotes_due:
  assumes "redis_server R view" "reliable w" "well_placed C st (view (store w))" "distinct qs"
    and "run_state (redis_PromoteDueJobs C R qs) w = (r, w')"
    and "ks = view (store w)" "ks' = view (store w')" "t = Unix (clock w)"
    and "due = concat (map (\<lambda>z. members (filter (\<lambda>p. fst p \<le> t) z)) (scheduled ks # map (retrying ks) qs))"
  shows "r = (int (length due), None)
    \<and> (\<forall>q. pending ks' q = rev (filter (\<lambda>i. record_queue C ks i = Some q) due) @ pending ks q)
    \<and> scheduled ks' = filter (\<lambda>p. t < fst p) (scheduled ks)
    \<and> (\<forall>q. retrying ks' q = (if q \<in> set qs then filter (\<lambda>p. t < fst p) (retrying ks q) else retrying ks q))
    \<and> active ks' = active ks \<and> dead ks' = dead ks \<and> record_of ks' = record_of ks"
proof -
  note P = redis_server.reliable_PromoteDueJobs [OF assms(1-5)]
  have d: "due = concat (map (due_ids ks t) (scheduledKey # map retryKey qs))"
    using assms(9) by (simp add: due_ids_def part_defs comp_def)
  have k: "zst ks' k = (if k \<in> set (scheduledKey # map retryKey qs) then filter (\<lambda>p. t < fst p) (zst ks k) else zst ks k)"
    if "is_source k" for k using P(2) that assms(6-8) by (simp add: promoted_def)
  have "scheduled ks' = filter (\<lambda>p. t < fst p) (scheduled ks)"
    "retrying ks' q = (if q \<in> set qs then filter (\<lambda>p. t < fst p) (retrying ks q) else retrying ks q)" for q
    using k [of scheduledKey] k [of "retryKey q"] by (simp_all add: part_defs image_iff)
  then show ?thesis using P(1,2) d assms(6-8) by (simp add: promoted_def)
qed

theorem redis_promotes_due_witness:
  "\<exists>r w'. run_state (redis_PromoteDueJobs text_codec mem_redis [''q'']) (mem_world Second (scheduled_store (sample_job ''a'' ''q'' 0)) []) = (r, w')
    \<and> r = (1, None) \<and> pending (map_of (store w')) ''q'' = [''a''] \<and> scheduled (map_of (store w')) = []"
proof -
  let ?w = "mem_world Second (scheduled_store (sample_job ''a'' ''q'' 0)) []"
  obtain r w' where w': "run_state (redis_PromoteDueJobs text_codec mem_redis [''q'']) ?w = (r, w')" by (rule prod.exhaust)
  have ks: "scheduled (map_of (store ?w)) = [(0, ''a'')]" "retrying (map_of (store ?w)) q = []"
    "pending (map_of (store ?w)) q = []" "record_queue text_codec (map_of (store ?w)) ''a'' = Some ''q''" for q
    by (simp_all add: scheduled_store_view db_enqueue_def Let_def Unix_def zadd_def record_queue_def)
  have rel: "reliable ?w" "well_placed text_codec (\<lambda>_. True) (map_of (store ?w))"
    by (simp_all add: reliable_def scheduled_store_placed)
  note P = redis_promotes_due [OF mem.redis_server_axioms rel _ w' refl refl refl refl]
  have "r = (1, None)" using conjunct1 [OF P] ks by (simp add: members_def Unix_def Second_def)
  moreover have "pending (map_of (store w')) ''q'' = [''a'']" "scheduled (map_of (store w')) = []"
    using conjunct2 [OF P] ks by (simp_all add: members_def Unix_def Second_def)
  ultimately show ?thesis using w' by blast
qed

text \<open>
  C23. \<open>RetryDeadJob\<close>: a job in the dead-letter list of the queue in its record is moved, once, to the
  back of that queue, with a record in which it is pending, due now and without attempts and
  error; nothing else changes. A job that is not in that list gives an error and leaves the
  database as it was. (All requests executed and answered.)
\<close>

theorem redis_retry_dead:
  assumes "redis_server R view" "reliable w" "typed (view (store w))"
    and "record_of (view (store w)) i = Some d" "jsonUnmarshal C d = Inr j"
    and "jsonMarshal C (j\<lparr>Status := StatusPending, Attempts := 0, LastError := '''', ProcessAt := clock w\<rparr>) = Inr d'"
    and "run_state (redis_RetryDeadJob C R i) w = (r, w')" "ks = view (store w)" "ks' = view (store w')"
  shows "if i \<in> set (dead ks (Queue j))
    then r = Inr () \<and> dead ks' = (dead ks)(Queue j := remove1 i (dead ks (Queue j)))
      \<and> pending ks' = (pending ks)(Queue j := i # pending ks (Queue j))
      \<and> record_of ks' = (record_of ks)(i \<mapsto> d')
      \<and> retrying ks' = retrying ks \<and> scheduled ks' = scheduled ks \<and> active ks' = active ks
    else r = Inl (ErrorString (''job '' @ i @ '' not found in dead-letter queue '' @ Queue j)) \<and> ks' = ks"
proof (cases "i \<in> set (dead ks (Queue j))")
  case True
  have "r = Inr ()" "ks' = db_revive i d' (Queue j) ks"
    using redis_server.reliable_RetryDeadJob(1,2) [OF assms(1-5) _ _ assms(7), of d'] assms(6,8,9) True
    by (simp_all add: revived_def)
  with True show ?thesis by (auto simp: db_revive_def intro!: ext)
next
  case False
  have "r = Inl (ErrorString (''job '' @ i @ '' not found in dead-letter queue '' @ Queue j))" "ks' = ks"
    using redis_server.reliable_RetryDeadJob_miss [OF assms(1-5) _ _ assms(7), of d'] assms(6,8,9) False
    by (simp_all add: revived_def)
  with False show ?thesis by simp
qed

theorem redis_retry_dead_witness:
  "\<exists>r w'. run_state (redis_RetryDeadJob text_codec mem_redis ''a'') (mem_world 7 (dead_store (sample_job ''a'' ''q'' 0)) []) = (r, w')
    \<and> r = Inr () \<and> pending (map_of (store w')) ''q'' = [''a''] \<and> dead (map_of (store w')) ''q'' = []"
proof -
  let ?j = "sample_job ''a'' ''q'' 0" and ?w = "mem_world 7 (dead_store (sample_job ''a'' ''q'' 0)) []"
  obtain r w' where w': "run_state (redis_RetryDeadJob text_codec mem_redis ''a'') ?w = (r, w')" by (rule prod.exhaust)
  note P = dead_store_parts [of ?j, simplified]
  from redis_retry_dead [OF mem.redis_server_axioms _ _ _ text_codec_of(2) text_codec_of(1) w' refl refl] P
  show ?thesis using w' by (auto simp: reliable_def)
qed

lemma queued_delete_cut:
  fixes j t defines "w \<equiv> mem_world t (queued_store j) [Delivered 0, Cut 2]"
  assumes "run_state (redis_DeleteJob text_codec mem_redis (ID j)) w = (r, u)"
  shows "reliable u" "\<exists>e. r = Inl e"
proof -
  let ?run = "run_state (redis_DeleteJob text_codec (redis_doc (\<lambda>_. undefined)) (ID j)) (wview map_of w)"
  have "run_state (redis_GetJob text_codec (redis_doc (\<lambda>_. undefined)) (ID j)) (wview map_of w) =
      (Inr (Some j), (wview map_of w)\<lparr>faults := [Cut 2]\<rparr>)"
    by (simp add: redis_GetJob_def redis_Get_def round_trip_def next_fault_def on_store_def times_def nil_reply_def
       w_def mem_world_def wview_def doc_GET_run is_str_def str_def queued_store_def)
  then have "faults (snd ?run) = []" "\<exists>e. fst ?run = Inl e"
    by (simp_all add: redis_DeleteJob_def pipe_Exec_def next_fault_def on_store_def split_beta)
  moreover have "?run = (r, wview map_of u)"
    using mem.redis_DeleteJob_sim [of text_codec "ID j"] assms(2) by (simp add: sim_def)
  ultimately show "reliable u" "\<exists>e. r = Inl e" by (simp_all add: reliable_def)
qed

lemma queued_phase: "redis_phase map_of (mem_world t (queued_store j) fs) (ID j) = Queued"
proof -
  have ex: "exclusive (map_of (queued_store j))" using queued_store_placed [of "\<lambda>_. True" j] by (simp add: well_placed_def)
  have "0 < occ (map_of (queued_store j)) (Pending (Queue j)) (ID j)"
    by (simp add: queued_store_view db_enqueue_def Let_def)
  from kphase_at [OF ex this] show ?thesis by (simp add: redis_phase_def)
qed

text \<open>
  C24. \<open>DeleteJob\<close> can be finished: when a call was cut off at any point, with any part of its pipeline
  executed, a second call whose requests are answered succeeds and leaves
  no trace of the job, and no trace on any other job.
\<close>

theorem redis_delete_resumes:
  assumes "redis_broker R view C storable canon" "redis_inv view C storable w" "redis_phase view w i \<noteq> Gone"
    and "run_state (redis_DeleteJob C R i) w = (r, u)" "reliable u" "run_state (redis_DeleteJob C R i) u = (r', w')"
  shows "r' = Inr () \<and> redis_phase view w' = (redis_phase view w)(i := Gone) \<and> record_of (view (store w')) i = None"
  using redis_broker.delete_resumes [OF assms] .

theorem redis_delete_resumes_witness:
  "\<exists>r u r' w'. run_state (redis_DeleteJob text_codec mem_redis ''a'')
      (mem_world 0 (queued_store (sample_job ''a'' ''q'' 0)) [Delivered 0, Cut 2]) = (r, u)
    \<and> (\<exists>e. r = Inl e) \<and> run_state (redis_DeleteJob text_codec mem_redis ''a'') u = (r', w')
    \<and> r' = Inr () \<and> redis_phase map_of w' ''a'' = Gone \<and> record_of (map_of (store w')) ''a'' = None"
proof -
  let ?j = "sample_job ''a'' ''q'' 0" and ?w = "mem_world 0 (queued_store (sample_job ''a'' ''q'' 0)) [Delivered 0, Cut 2]"
  obtain r u where u: "run_state (redis_DeleteJob text_codec mem_redis (ID ?j)) ?w = (r, u)" by (rule prod.exhaust)
  obtain r' w' where w': "run_state (redis_DeleteJob text_codec mem_redis (ID ?j)) u = (r', w')" by (rule prod.exhaust)
  have inv: "redis_inv map_of text_codec (\<lambda>_. True) ?w"
    using queued_store_placed [of "nameable (\<lambda>_. True)" ?j] by (simp add: redis_inv_def winv_def nameable_def once_def)
  have "redis_phase map_of ?w (ID ?j) \<noteq> Gone" by (simp add: queued_phase del: sample_job_sel)
  from redis_delete_resumes [OF mem_text_broker.redis_broker_axioms inv this u _ w'] queued_delete_cut [OF u] u w'
  show ?thesis by auto
qed

text \<open>
  C22. Enqueuing is not idempotent in Redis: when \<open>Enqueue\<close> is called twice with one job that is due (as
  a client does that retries after it missed the first reply), both calls succeed, the
  identifier is in the queue twice, and the next two calls of \<open>Dequeue\<close> both hand out the job,
  the second one while the first worker still has it. (All requests executed and answered.)
\<close>

theorem redis_enqueue_twice:
  assumes "redis_server R view" "reliable w" "typed (view (store w))" "pending (view (store w)) (Queue j) = []"
    and "ID j \<noteq> ''''" "Unix (ProcessAt j) \<le> Unix (clock w)" "jsonMarshal C j = Inr d" "jsonUnmarshal C d = Inr j'"
    and "run_state (enqueue_all (redisBroker C R) [j, j]) w = (es, u)"
    and "run_state (dequeue_times (redisBroker C R) [Queue j] 2) u = (rs, w')"
  shows "es = [Inr (), Inr ()] \<and> pending (view (store u)) (Queue j) = [ID j, ID j] \<and> rs = [Inr (Some j'), Inr (Some j')]"
proof -
  note E = redis_server.reliable_Enqueue [OF assms(1), where C = C and d = d and j = j]
  note D = redis_server.reliable_Dequeue [OF assms(1), where C = C and d = d and j = j' and q = "Queue j" and qs = "[]" and i = "ID j"]
  obtain r1 w1 where 1: "run_state (redis_Enqueue C R j) w = (r1, w1)" by (rule prod.exhaust)
  obtain r2 w2 where 2: "run_state (redis_Enqueue C R j) w1 = (r2, w2)" by (rule prod.exhaust)
  obtain r3 w3 where 3: "run_state (redis_Dequeue C R [Queue j]) w2 = (r3, w3)" by (rule prod.exhaust)
  obtain r4 w4 where 4: "run_state (redis_Dequeue C R [Queue j]) w3 = (r4, w4)" by (rule prod.exhaust)
  note e1 = E [OF assms(2,3,7) 1]
  have "Unix (clock w) \<le> Unix (clock w1)" using e1(4) by (simp add: Unix_def zdiv_mono1 Second_def)
  then have due: "Unix (ProcessAt j) \<le> Unix (clock w1)" using assms(6) by simp
  have t1: "typed (view (store w1))" "pending (view (store w1)) (Queue j) = [ID j]"
    using e1(2) assms(3,4,6) by (simp_all add: db_enqueue_def Let_def)
  note e2 = E [OF e1(3) t1(1) assms(7) 2]
  have t2: "typed (view (store w2))" "pending (view (store w2)) (Queue j) = [ID j, ID j]" "record_of (view (store w2)) (ID j) = Some d"
    using e2(2) t1 due by (simp_all add: db_enqueue_def Let_def)
  note d1 = D [OF e2(3) t2(1) _ _ assms(5) t2(3) assms(8) 3, simplified t2(2), simplified]
  have t3: "typed (view (store w3))" "pending (view (store w3)) (Queue j) = [ID j]" "record_of (view (store w3)) (ID j) = Some d"
    using d1(2) t2 by (simp_all add: db_claim_def)
  note d2 = D [OF d1(3) t3(1) _ _ assms(5) t3(3) assms(8) 4, simplified t3(2), simplified]
  have "es = [r1, r2] \<and> u = w2" using assms(9) 1 2 by (simp add: redisBroker_def)
  moreover from this have "rs = [r3, r4]" using assms(10) 3 4 by (simp add: redisBroker_def numeral_2_eq_2)
  ultimately show ?thesis using e1(1) e2(1) t2(2) d1(1) d2(1) by simp
qed

theorem redis_enqueue_twice_witness:
  "\<exists>es u rs w'. run_state (enqueue_all (redisBroker text_codec mem_redis)
        [sample_job ''a'' ''q'' 0, sample_job ''a'' ''q'' 0]) (mem_world 0 [] []) = (es, u)
    \<and> run_state (dequeue_times (redisBroker text_codec mem_redis) [''q''] 2) u = (rs, w')
    \<and> rs = [Inr (Some (sample_job ''a'' ''q'' 0)), Inr (Some (sample_job ''a'' ''q'' 0))]"
proof -
  let ?j = "sample_job ''a'' ''q'' 0" and ?B = "redisBroker text_codec mem_redis"
  obtain es u where u: "run_state (enqueue_all ?B [?j, ?j]) (mem_world 0 [] []) = (es, u)" by (rule prod.exhaust)
  obtain rs w' where w': "run_state (dequeue_times ?B [Queue ?j] 2) u = (rs, w')" by (rule prod.exhaust)
  have pre: "reliable (mem_world 0 [] [])" "typed (map_of (store (mem_world 0 [] [])))"
    "pending (map_of (store (mem_world 0 [] []))) (Queue ?j) = []" "ID ?j \<noteq> ''''"
    "Unix (ProcessAt ?j) \<le> Unix (clock (mem_world 0 [] []))" by (simp_all add: reliable_def)
  from redis_enqueue_twice [OF mem.redis_server_axioms pre text_codec_of(1,2) u w'] u w' show ?thesis by simp
qed

end
