(* ===== verification/Redis_Concurrent.thy ===== *)
theory Redis_Concurrent
  imports Redis_Properties
begin

text \<open>
  Properties of calls of the Redis broker that run side by side, their requests interleaved in any order, where the other theories run one call after
  the other.
\<close>

section \<open>Schedules\<close>

text \<open>A run is a schedule: the calls that make the next steps.\<close>

fun sched :: "nat list \<Rightarrow> ('w, 'a) prog list \<times> 'w \<Rightarrow> ('w, 'a) prog list \<times> 'w" where
  "sched [] c = c"
| "sched (k # ks) c = sched ks (case c of (ps, w) \<Rightarrow>
     if k < length ps then (case ps ! k of Req f \<Rightarrow> (ps[k := fst (f w)], snd (f w)) | Ret x \<Rightarrow> c) else c)"

lemma sched_step: "conc_step\<^sup>*\<^sup>* c (sched [k] c)"
proof (cases c)
  case (Pair ps w)
  show ?thesis
  proof (cases "k < length ps")
    case True
    then show ?thesis using Pair conc_step.intros [OF True, of _ w] by (cases "ps ! k") auto
  qed (simp add: Pair)
qed

lemma sched_run: "conc_step\<^sup>*\<^sup>* c (sched ks c)"
proof (induction ks arbitrary: c)
  case (Cons k ks)
  have "conc_step\<^sup>*\<^sup>* (sched [k] c) (sched ks (sched [k] c))" by (rule Cons)
  with sched_step [of c k] have "conc_step\<^sup>*\<^sup>* c (sched ks (sched [k] c))" by (rule rtranclp_trans)
  then show ?case by (simp only: sched.simps)
qed simp

section \<open>A race of two schedulers\<close>

text \<open>A job whose retry is due at time 0. One scheduler lists it as due and is delayed; a second scheduler promotes it; it is
  dequeued, its handler fails, and it is requeued to be retried after a delay. Then the first scheduler goes on. In a world
  \<open>still ks\<close> the clock stands at 0 and no request is lost.\<close>

definition still :: "keyspace \<Rightarrow> keyspace world" where
  "still ks = \<lparr>clock = 0, ticks = [], store = ks, faults = []\<rparr>"

lemma still_sel [simp]:
  "clock (still ks) = 0" "store (still ks) = ks" "reliable (still ks)" "(still ks)\<lparr>store := ks'\<rparr> = still ks'"
  "tock (still ks) = still ks"
  by (simp_all add: still_def reliable_def tock_def time_Now_def)

definition waiting_keys :: "Job \<Rightarrow> int \<Rightarrow> keyspace" where
  "waiting_keys j s = put (retryKey (Queue j)) (RZset [(s, ID j)]) [jobKey (ID j) \<mapsto> RStr (text_of j)]"

definition queued_keys :: "Job \<Rightarrow> keyspace" where
  "queued_keys j = put (queueKey (Queue j)) (RList [ID j]) [jobKey (ID j) \<mapsto> RStr (text_of j)]"

definition race :: "(string \<Rightarrow> (keyspace, string list) cmd) \<Rightarrow> Job \<Rightarrow> duration \<Rightarrow> (keyspace world, unit) prog list" where
  "race sc j delay = map (call_prog text_codec (redis_doc sc))
     [CPromoteDueJobs [Queue j], CPromoteDueJobs [Queue j], CDequeue [Queue j], CRequeue j delay]"

lemma promote_waiting: "db_promote text_codec (retryKey (Queue j)) (ID j) (waiting_keys j s) = (Inr 1, queued_keys j)"
  by (simp add: db_promote_def Let_def waiting_keys_def queued_keys_def retrying_def [symmetric] zmem_iff zrem_def)
    (simp add: put_def fun_eq_iff)

lemma waiting_parts [simp]:
  "typed (waiting_keys j s)" "scheduled (waiting_keys j s) = []" "retrying (waiting_keys j s) (Queue j) = [(s, ID j)]"
  "pending (waiting_keys j s) (Queue j) = []"
  by (simp_all add: waiting_keys_def)

lemma queued_parts [simp]:
  "typed (queued_keys j)" "pending (queued_keys j) (Queue j) = [ID j]" "retrying (queued_keys j) (Queue j) = []"
  "record_of (queued_keys j) (ID j) = Some (text_of j)"
  by (simp_all add: queued_keys_def)

lemma list_due:
  "typed ks \<Longrightarrow> k = scheduledKey \<or> k = retryKey p \<Longrightarrow> run_state (round_trip (doc_ZRANGEBYSCORE k t)) (still ks) =
    (Inr (members (filter (\<lambda>p. fst p \<le> t) (zst ks k))), still ks)"
  by (auto simp: reliable_round_trip cmd_run)

lemma run_promote_waiting:
  "run_state (round_trip (promoteJobScript text_codec (redis_doc sc) (retryKey (Queue j)) (jobKey (ID j)) (ID j)))
    (still (waiting_keys j s)) = (Inr 1, still (queued_keys j))"
  using promoteJobScript_run [OF waiting_parts(1), of "retryKey (Queue j)" "Queue j"]
  by (simp add: reliable_round_trip promote_waiting)

lemma race_promote:
  "run_state (redis_PromoteDueJobs text_codec (redis_doc sc) [Queue j]) (still (waiting_keys j 0)) = ((1, None), still (queued_keys j))"
  by (simp add: redis_PromoteDueJobs_def list_due part_defs [symmetric] members_def Unix_def run_promote_waiting)

lemma race_dequeue:
  "ID j \<noteq> '''' \<Longrightarrow> run_state (redis_Dequeue text_codec (redis_doc sc) [Queue j]) (still (queued_keys j)) =
    (Inr (Some j), still (snd (db_claim (Queue j) 30 (queued_keys j))))"
  by (simp add: redis_Dequeue_def doc_claim doc_Get Unix_def del: dequeue_loop.simps(2)) (simp add: db_claim_def)

lemma race_requeue:
  "run_state (redis_Requeue text_codec (redis_doc sc) j delay) (still (snd (db_claim (Queue j) 30 (queued_keys j)))) =
    (Inr (), still (waiting_keys j (Unix delay)))"
  by (simp add: doc_Requeue)
    (simp add: db_claim_def db_requeue_def zadd_def zrem_def queued_keys_def waiting_keys_def, simp add: put_def fun_eq_iff)

lemma race_nth:
  "length (race sc j delay) = 4" "race sc j delay ! 0 = silently (p_PromoteDueJobs text_codec (redis_doc sc) [Queue j])"
  "race sc j delay ! 1 = silently (p_PromoteDueJobs text_codec (redis_doc sc) [Queue j])"
  "race sc j delay ! 2 = silently (p_Dequeue text_codec (redis_doc sc) [Queue j])"
  "race sc j delay ! 3 = silently (p_Requeue text_codec (redis_doc sc) j delay)"
  by (simp_all add: race_def)

text \<open>A scheduler that has the answer to its question which jobs of a set are due.\<close>

definition on_listing ::
  "codec \<Rightarrow> 'k redis_cmds \<Rightarrow> int \<Rightarrow> string \<Rightarrow> string list \<Rightarrow> goerr + string list \<Rightarrow> ('k world, int \<times> goerr option) prog" where
  "on_listing C R now k ks r = (case r of
      Inl err \<Rightarrow> Ret (0, Some (WrapError (''zrangebyscore '' @ k @ '': '') err))
    | Inr ids \<Rightarrow> pbind (p_promote_ids C R k ids 0)
        (\<lambda>p. case snd p of Some err \<Rightarrow> Ret p | None \<Rightarrow> p_promote_sources C R now ks (fst p)))"

lemma sources_listing:
  "p_promote_sources C R now (k # ks) 0 = pbind (p_round_trip (ZRANGEBYSCORE R k now)) (on_listing C R now k ks)"
  by (simp add: on_listing_def [abs_def])

lemma conc_source:
  assumes "k < length ps" "typed ks" "src = scheduledKey \<or> src = retryKey q"
    and "ps ! k = silently (p_promote_sources C (redis_doc sc) t (src # srcs) 0)"
    and "members (filter (\<lambda>p. fst p \<le> t) (zst ks src)) = ids"
  shows "conc_step\<^sup>*\<^sup>* (ps, still ks) (ps[k := silently (on_listing C (redis_doc sc) t src srcs (Inr ids))], still ks)"
proof (rule conc_silently [OF assms(1)])
  show "run_prog (p_round_trip (ZRANGEBYSCORE (redis_doc sc) src t)) (still ks) = (Inr ids, still ks)"
    using list_due [OF assms(2,3), of t] assms(5) by simp
qed (simp_all add: assms(4) sources_listing del: p_promote_sources.simps)

lemma conc_listing:
  assumes "k < length ps" "ps ! k = silently (p_PromoteDueJobs text_codec (redis_doc sc) [Queue j])"
  shows "conc_step\<^sup>*\<^sup>* (ps, still (waiting_keys j 0))
    (ps[k := silently (on_listing text_codec (redis_doc sc) 0 (retryKey (Queue j)) [] (Inr [ID j]))], still (waiting_keys j 0))"
    (is "_ (ps, ?w) (?ps', ?w)")
proof -
  let ?src = "\<lambda>ks. p_promote_sources text_codec (redis_doc sc) 0 ks 0" and ?k = "retryKey (Queue j)"
  let ?ps1 = "ps[k := silently (?src [scheduledKey, ?k])]" and ?ps2 = "ps[k := silently (?src [?k])]"
  have "conc_step\<^sup>*\<^sup>* (ps, ?w) (?ps1, ?w)"
    using assms(1)
    by (rule conc_silently [where p = "atomically time_Now" and x = 0
          and g = "\<lambda>t. p_promote_sources text_codec (redis_doc sc) (Unix t) [scheduledKey, ?k] 0"])
      (simp_all add: assms(2) p_PromoteDueJobs_def Unix_def del: p_promote_sources.simps)
  moreover have "conc_step\<^sup>*\<^sup>* (?ps1, ?w) (?ps2, ?w)"
    using conc_source [of k ?ps1 "waiting_keys j 0" scheduledKey _ text_codec sc 0 "[?k]" "[]"] assms(1)
    by (simp add: scheduled_def [symmetric] members_def del: p_promote_sources.simps(2))
       (simp add: on_listing_def del: p_promote_sources.simps(2))
  moreover have "conc_step\<^sup>*\<^sup>* (?ps2, ?w) (?ps', ?w)"
    using conc_source [of k ?ps2 "waiting_keys j 0" ?k "Queue j" text_codec sc 0 "[]" "[ID j]"] assms(1)
    by (simp add: retrying_def [symmetric] members_def del: p_promote_sources.simps(2))
  ultimately show ?thesis by (blast intro: rtranclp_trans)
qed

lemma run_listing:
  "run_prog (silently (on_listing text_codec (redis_doc sc) 0 (retryKey (Queue j)) [] (Inr [ID j]))) (still (waiting_keys j s)) = ((), still (queued_keys j))"
  by (simp add: on_listing_def silently_def run_promote_waiting)

section \<open>Properties\<close>


text \<open>
  C2. At least once, with calls side by side: any number of calls by any clients, their requests interleaved in any order, with any
  losses and resends on the network, pipelines whose commands other requests come between, and clients that die in the middle of a call, leave every key with a value of
  its type, and a job that is somewhere in the broker with its record stays there, unless one of the calls acknowledges or deletes that job.
\<close>

theorem concurrent_calls_safe:
  assumes "redis_server R view" "codec_queue C" "typed (view (store w))"
    and "conc_step\<^sup>*\<^sup>* (map (call_prog C R) cs, w) (ps, w')"
  shows "typed (view (store w'))
    \<and> (\<forall>i. live C i (view (store w)) \<and> (\<forall>c \<in> set cs. \<not> removes i c) \<longrightarrow> live C i (view (store w')))"
proof -
  have cod: "redis_codec R view C" using assms(1,2) by (intro redis_codec.intro redis_codec_axioms.intro)
  show ?thesis
    using redis_server.concurrent_typed [OF assms(1,4,3)] redis_codec.concurrent_live [OF cod assms(4)] by blast
qed

theorem concurrent_calls_safe_witness:
  "\<exists>ps w'. conc_step\<^sup>*\<^sup>* (map (call_prog text_codec mem_redis) [CDequeue [''q''], CRequeue (sample_job ''a'' ''q'' 0) 5, CDeleteJob ''b''],
       mem_world 0 (queued_store (sample_job ''a'' ''q'' 0)) [Delivered 1, Failed 1]) (ps, w')
    \<and> w' = snd (sched [0, 0, 2, 1, 0, 1, 2] (map (call_prog text_codec mem_redis) [CDequeue [''q''], CRequeue (sample_job ''a'' ''q'' 0) 5, CDeleteJob ''b''],
       mem_world 0 (queued_store (sample_job ''a'' ''q'' 0)) [Delivered 1, Failed 1]))
    \<and> live text_codec ''a'' (map_of (store w'))"
proof -
  let ?c = "(map (call_prog text_codec mem_redis) [CDequeue [''q''], CRequeue (sample_job ''a'' ''q'' 0) 5, CDeleteJob ''b''],
    mem_world 0 (queued_store (sample_job ''a'' ''q'' 0)) [Delivered 1, Failed 1])"
  obtain ps w' where e: "sched [0, 0, 2, 1, 0, 1, 2] ?c = (ps, w')" by (rule prod.exhaust)
  have run: "conc_step\<^sup>*\<^sup>* ?c (ps, w')" unfolding e [symmetric] by (rule sched_run)
  have "typed (map_of (store (mem_world 0 (queued_store (sample_job ''a'' ''q'' 0)) [Delivered 1, Failed 1])))"
    by (simp add: queued_store_typed)
  from concurrent_calls_safe [OF mem.redis_server_axioms text_codec_queue this run]
    queued_store_live [of "sample_job ''a'' ''q'' 0"] have "live text_codec ''a'' (map_of (store w'))" by (simp add: removes_def)
  with run e show ?thesis by (intro exI [of _ ps] exI [of _ w']) (simp del: sched.simps call_prog.simps)
qed

text \<open>
  C10. Two schedulers can promote one job twice, the second time too early. For every job whose retry is due (in its queue nothing
  else waits) and every delay, two calls of \<open>PromoteDueJobs\<close>, one of \<open>Dequeue\<close> and one of \<open>Requeue\<close> with that delay have an
  order of their requests, none lost and the clock standing still, in which the job waits for a retry that is due after the
  delay, and is then moved to its queue at once: the first scheduler had listed it as due before the second promoted it.
\<close>

theorem promotion_race:
  assumes "ID j \<noteq> ''''"
  shows "\<exists>ps ps' w w'. conc_step\<^sup>*\<^sup>* (race sc j delay, still (waiting_keys j 0)) (ps, w) \<and> conc_step\<^sup>*\<^sup>* (ps, w) (ps', w')
    \<and> retrying (store w) (Queue j) = [(Unix delay, ID j)] \<and> pending (store w) (Queue j) = []
    \<and> clock w' = 0 \<and> retrying (store w') (Queue j) = [] \<and> pending (store w') (Queue j) = [ID j]"
proof -
  let ?w = "\<lambda>s. still (waiting_keys j s)" and ?q = "still (queued_keys j)" and ?u = "still (snd (db_claim (Queue j) 30 (queued_keys j)))"
  note n = race_nth [of sc j delay]
  let ?p0 = "race sc j delay"
  let ?p1 = "?p0[0 := silently (on_listing text_codec (redis_doc sc) 0 (retryKey (Queue j)) [] (Inr [ID j]))]"
  let ?p2 = "?p1[1 := Ret ()]" let ?p3 = "?p2[2 := Ret ()]" let ?p4 = "?p3[3 := Ret ()]" let ?p5 = "?p4[0 := Ret ()]"
  have "conc_step\<^sup>*\<^sup>* (?p0, ?w 0) (?p1, ?w 0)" by (rule conc_listing) (simp_all add: n)
  moreover have "conc_step\<^sup>*\<^sup>* (?p1, ?w 0) (?p2, ?q)"
    by (rule conc_call) (use n(3) in \<open>simp_all add: n(1) run_silently_alone race_promote\<close>)
  moreover have "conc_step\<^sup>*\<^sup>* (?p2, ?q) (?p3, ?u)" by (rule conc_call) (simp_all add: n run_silently_alone race_dequeue assms)
  moreover have "conc_step\<^sup>*\<^sup>* (?p3, ?u) (?p4, ?w (Unix delay))" by (rule conc_call) (simp_all add: n run_silently_alone race_requeue)
  ultimately have "conc_step\<^sup>*\<^sup>* (?p0, ?w 0) (?p4, ?w (Unix delay))" by (blast intro: rtranclp_trans)
  moreover have "conc_step\<^sup>*\<^sup>* (?p4, ?w (Unix delay)) (?p5, ?q)" by (rule conc_call) (simp_all add: n run_listing)
  ultimately show ?thesis
    by (intro exI [of _ ?p4] exI [of _ ?p5] exI [of _ "?w (Unix delay)"] exI [of _ ?q] conjI) simp_all
qed

theorem promotion_race_witness:
  "\<exists>ps ps' w w'. conc_step\<^sup>*\<^sup>* (race (\<lambda>_. State_Monad.return (Inr [])) (sample_job ''a'' ''q'' 0) (100 * Second),
       still (waiting_keys (sample_job ''a'' ''q'' 0) 0)) (ps, w)
    \<and> conc_step\<^sup>*\<^sup>* (ps, w) (ps', w') \<and> retrying (store w) ''q'' = [(100, ''a'')] \<and> pending (store w) ''q'' = []
    \<and> clock w' = 0 \<and> retrying (store w') ''q'' = [] \<and> pending (store w') ''q'' = [''a'']"
  using promotion_race [of "sample_job ''a'' ''q'' 0" "\<lambda>_. State_Monad.return (Inr [])" "100 * Second"]
  by (simp add: Unix_def Second_def)

end
