(* ===== verification/Redis_Reads.thy ===== *)
theory Redis_Reads
  imports Redis_Queues
begin

text \<open>
  The reading methods of the Redis broker (\<open>GetJobsByStatus\<close>, \<open>GetQueueStats\<close>): what they
  return when the requests are executed and answered, for every order in which the
  server's scans may hand out the keys.
\<close>

section \<open>Requests that read\<close>

lemma index_range_take:
  assumes "0 < n"
  shows "index_range 0 (n - 1) xs = take (nat n) xs"
  using assms by (simp add: index_range_def Let_def)

lemma index_range_all: "index_range 0 (- 1) xs = xs"
  by (simp add: index_range_def Let_def)

lemma list_all2_sets:
  "list_all2 P xs ys \<Longrightarrow> (\<forall>x \<in> set xs. \<exists>y \<in> set ys. P x y) \<and> (\<forall>y \<in> set ys. \<exists>x \<in> set xs. P x y)"
  by (induction rule: list_all2_induct) auto

context redis_server
begin

lemma reliable_read:
  assumes "sim view m n" "reliable w" "run_state n (view (store w)) = (x, view (store w))"
  shows "\<exists>w'. run_state (round_trip m) w = (map_sum RedisError id x, w') \<and> view (store w') = view (store w) \<and> reliable w'"
proof -
  have "fst (run_state m (store w)) = x" "view (snd (run_state m (store w))) = view (store w)"
    using assms(1,3) by (simp_all add: sim_fst sim_snd)
  then show ?thesis using assms(2) by (simp add: reliable_round_trip)
qed

lemma reliable_scan:
  assumes "glob_free p" "reliable w"
  shows "\<exists>keys w'. run_state (scan_iter (SCAN R) (p @ ''*'')) w = ((keys, None), w')
    \<and> set keys = {k \<in> dom (view (store w)). prefix p k} \<and> view (store w') = view (store w) \<and> reliable w'"
proof -
  obtain keys where keys: "fst (run_state (SCAN R (p @ ''*'')) (store w)) = Inr keys"
    "set keys = {k \<in> dom (view (store w)). prefix p k}" using SCAN_law [OF assms(1)] by blast
  have "run_state (scan_iter (SCAN R) (p @ ''*'')) w = ((keys, None), w\<lparr>store := snd (run_state (SCAN R (p @ ''*'')) (store w))\<rparr>)"
    using assms(2) keys(1) by (simp add: scan_iter_def next_fault_def reliable_def on_store_def split_beta)
  with keys(2) assms(2) show ?thesis by (simp add: SCAN_pure)
qed

lemma reliable_Get:
  assumes "reliable w" "typed (view (store w))"
  shows "\<exists>w'. run_state (redis_Get R (jobKey i)) w =
      (case record_of (view (store w)) i of None \<Rightarrow> Inl RedisNil | Some d \<Rightarrow> Inr d, w')
    \<and> view (store w') = view (store w) \<and> reliable w'"
proof -
  have "run_state (doc_GET (jobKey i)) (view (store w)) = (Inr (record_of (view (store w)) i), view (store w))"
    using assms(2) by (simp add: doc_GET_run record_of_def)
  from reliable_read [OF GET_law assms(1) this] show ?thesis
    by (auto simp: redis_Get_def nil_reply_def split: option.splits)
qed

section \<open>Listing jobs\<close>

text \<open>The loop over lists collects the first \<open>limit\<close> identifiers.\<close>

lemma reliable_collect:
  assumes "reliable w" "\<forall>k \<in> set keys. is_list (view (store w)) k" "int (length ids) \<le> limit"
  shows "\<exists>w'. run_state (collect_loop R pat limit ids keys None) w =
      ((take (nat limit) (ids @ concat (map (lst (view (store w))) keys)), None), w')
    \<and> view (store w') = view (store w) \<and> reliable w'"
  using assms
proof (induction keys arbitrary: ids w)
  case (Cons k keys)
  show ?case
  proof (cases "limit \<le> int (length ids)")
    case True
    with Cons.prems show ?thesis by auto
  next
    case False
    let ?vals = "take (nat (limit - int (length ids))) (lst (view (store w)) k)"
    have "run_state (doc_LRANGE k 0 (limit - int (length ids) - 1)) (view (store w)) = (Inr ?vals, view (store w))"
      using Cons.prems(2) False by (simp add: cmd_run index_range_take)
    from reliable_read [OF LRANGE_law Cons.prems(1) this] obtain u where
      u: "run_state (round_trip (LRANGE R k 0 (limit - int (length ids) - 1))) w = (Inr ?vals, u)"
        "view (store u) = view (store w)" "reliable u" by auto
    have "int (length (ids @ ?vals)) \<le> limit" using False by simp
    from Cons.IH [OF u(3) _ this] u(2) Cons.prems(2) obtain w' where
      w': "run_state (collect_loop R pat limit (ids @ ?vals) keys None) u =
        ((take (nat limit) ((ids @ ?vals) @ concat (map (lst (view (store w))) keys)), None), w')"
        "view (store w') = view (store w)" "reliable w'" by auto
    have "take (nat limit) ((ids @ ?vals) @ concat (map (lst (view (store w))) keys)) =
        take (nat limit) (ids @ concat (map (lst (view (store w))) (k # keys)))"
    proof -
      have n: "nat (limit - int (length ids)) = nat limit - length ids" by simp
      show ?thesis unfolding n by (simp add: min_def)
    qed
    with False u(1) w' show ?thesis by simp
  qed
qed auto

lemma reliable_fetch:
  assumes "reliable w" "typed (view (store w))" "\<forall>i \<in> set ids. \<exists>j. reads_as C (view (store w)) i j"
  shows "\<exists>w' jobs. run_state (fetch_jobs C R ids js) w = ((Some (js @ jobs), None), w')
    \<and> list_all2 (reads_as C (view (store w))) ids jobs"
  using assms
proof (induction ids arbitrary: js w)
  case (Cons i ids)
  obtain j d where j: "reads_as C (view (store w)) i j" "record_of (view (store w)) i = Some d" "jsonUnmarshal C d = Inr j"
    using Cons.prems(3) by (auto simp: reads_as_def)
  obtain u where u: "run_state (redis_Get R (jobKey i)) w = (Inr d, u)" "view (store u) = view (store w)" "reliable u"
    using reliable_Get [OF Cons.prems(1,2), of i] j(2) by auto
  from Cons.IH [of u "js @ [j]"] u Cons.prems obtain w' jobs where
    "run_state (fetch_jobs C R ids (js @ [j])) u = ((Some ((js @ [j]) @ jobs), None), w')"
    "list_all2 (reads_as C (view (store w))) ids jobs" by auto
  with u(1) j show ?case by (intro exI [of _ w'] exI [of _ "j # jobs"]) simp
qed auto

lemma reliable_listing:
  assumes "reliable w" "well_placed C st (view (store w))" "0 < limit" "glob_free p"
    and key: "\<And>q. p @ q = key q" "\<And>q. is_list (view (store w)) (key q)"
      "\<And>q i. i \<in> set (lst (view (store w)) (key q)) \<Longrightarrow> \<exists>j. reads_as C (view (store w)) i j"
    and run: "run_state (do { r \<leftarrow> collectIDsFromLists R (p @ ''*'') limit;
        case snd r of Some err \<Rightarrow> State_Monad.return (None, Some err) | None \<Rightarrow> fetch_jobs C R (fst r) [] }) w = (r, w')"
  shows "\<exists>jobs. r = (Some jobs, None) \<and> int (length jobs) \<le> limit
    \<and> (\<forall>j \<in> set jobs. reads_as C (view (store w)) (ID j) j \<and> (\<exists>q. ID j \<in> set (lst (view (store w)) (key q))))
    \<and> (int (length jobs) < limit \<longrightarrow>
        (\<forall>q. \<forall>i \<in> set (lst (view (store w)) (key q)). \<exists>j \<in> set jobs. reads_as C (view (store w)) i j))"
proof -
  let ?ks = "view (store w)"
  obtain keys u where u: "run_state (scan_iter (SCAN R) (p @ ''*'')) w = ((keys, None), u)"
    "set keys = {k \<in> dom ?ks. prefix p k}" "view (store u) = ?ks" "reliable u"
    using reliable_scan [OF assms(4,1)] by blast
  have keys: "\<exists>q. k = key q" if "k \<in> set keys" for k
    using that u(2) by (auto simp: prefix_def key(1) [symmetric])
  obtain v where v: "run_state (collect_loop R (p @ ''*'') limit [] keys None) u =
      ((take (nat limit) (concat (map (lst ?ks) keys)), None), v)" "view (store v) = ?ks" "reliable v"
    using reliable_collect [OF u(4), of keys "[]" limit "p @ ''*''"] keys key(2) u(3) assms(3) by force
  define ids where "ids = take (nat limit) (concat (map (lst ?ks) keys))"
  have ids: "i \<in> set ids \<Longrightarrow> \<exists>q. i \<in> set (lst ?ks (key q))" for i
    using keys by (fastforce simp: ids_def dest: in_set_takeD)
  have ty: "typed (view (store v))" using assms(2) v(2) by (simp add: well_placed_def)
  have "\<forall>i \<in> set ids. \<exists>j. reads_as C (view (store v)) i j" using ids key(3) v(2) by metis
  from reliable_fetch [OF v(3) ty this, of "[]"] obtain w2 jobs where
    jobs: "run_state (fetch_jobs C R ids []) v = ((Some jobs, None), w2)" "list_all2 (reads_as C ?ks) ids jobs"
    using v(2) by auto
  have r: "r = (Some jobs, None)"
    using run u(1) v(1) jobs(1) by (simp add: collectIDsFromLists_def ids_def [symmetric])
  have pairs: "\<forall>i \<in> set ids. \<exists>j \<in> set jobs. reads_as C ?ks i j" "\<forall>j \<in> set jobs. \<exists>i \<in> set ids. reads_as C ?ks i j"
    by (rule conjunct1 [OF list_all2_sets [OF jobs(2)]], rule conjunct2 [OF list_all2_sets [OF jobs(2)]])
  have len: "length jobs = length ids" using jobs(2) by (simp add: list_all2_lengthD)
  have "reads_as C ?ks (ID j) j \<and> (\<exists>q. ID j \<in> set (lst ?ks (key q)))" if "j \<in> set jobs" for j
  proof -
    from bspec [OF pairs(2) that] obtain i where "i \<in> set ids" and i: "reads_as C ?ks i j" by (rule bexE)
    from ids [OF this(1)] i show ?thesis by (simp add: reads_as_def)
  qed
  moreover have "\<exists>j \<in> set jobs. reads_as C ?ks i j"
    if small: "int (length jobs) < limit" and i: "i \<in> set (lst ?ks (key q))" for i q
  proof -
    have "length ids < nat limit" using small len by simp
    then have "ids = concat (map (lst ?ks) keys)" by (simp add: ids_def min_def split: if_splits)
    moreover have "key q \<in> set keys"
      using i key(1) [of q, symmetric] by (cases "?ks (key q)") (auto simp: u(2) lst_def)
    ultimately have "i \<in> set ids" using i by auto
    then show ?thesis by (rule bspec [OF pairs(1)])
  qed
  moreover have "int (length jobs) \<le> limit" using assms(3) len by (simp add: ids_def)
  ultimately show ?thesis using r by blast
qed

lemma well_placed_reads:
  "well_placed C st ks \<Longrightarrow> 0 < occ ks p i \<Longrightarrow> \<exists>j. reads_as C ks i j"
  by (auto simp: well_placed_def)

lemma reliable_GetJobsByStatus:
  assumes "reliable w" "well_placed C st (view (store w))" "0 < limit"
    and "(status, part) \<in> {(StatusPending, pending (view (store w))), (StatusDead, dead (view (store w)))}"
    and run: "run_state (redis_GetJobsByStatus C R status limit) w = (r, w')"
  shows "\<exists>jobs. r = (Some jobs, None) \<and> int (length jobs) \<le> limit
    \<and> (\<forall>j \<in> set jobs. reads_as C (view (store w)) (ID j) j \<and> (\<exists>q. ID j \<in> set (part q)))
    \<and> (int (length jobs) < limit \<longrightarrow> (\<forall>q. \<forall>i \<in> set (part q). \<exists>j \<in> set jobs. reads_as C (view (store w)) i j))"
proof -
  let ?ks = "view (store w)"
  have ty: "typed ?ks" using assms(2) by (simp add: well_placed_def)
  have reads: "i \<in> set (pending ?ks q) \<Longrightarrow> \<exists>j. reads_as C ?ks i j" "i \<in> set (dead ?ks q) \<Longrightarrow> \<exists>j. reads_as C ?ks i j" for i q
    using well_placed_reads [OF assms(2)] occ_pos(1,2) by blast+
  have g: "glob_free ''sidekiq:queue:''" "glob_free ''sidekiq:dead:''" by (simp_all add: glob_free_def)
  from assms(4) show ?thesis
  proof (elim insertE)
    assume st: "(status, part) = (StatusPending, pending ?ks)"
    have "run_state (do { r \<leftarrow> collectIDsFromLists R (''sidekiq:queue:'' @ ''*'') limit;
        case snd r of Some err \<Rightarrow> State_Monad.return (None, Some err) | None \<Rightarrow> fetch_jobs C R (fst r) [] }) w = (r, w')"
      using run st by (simp add: redis_GetJobsByStatus_def redis_ids_by_status_def)
    from reliable_listing [OF assms(1-3) g(1) _ _ _ this, where key = queueKey] ty reads(1) st show ?thesis
      by (simp add: queueKey_fold pending_def del: append_Cons append.simps)
  next
    assume st: "(status, part) = (StatusDead, dead ?ks)"
    have "run_state (do { r \<leftarrow> collectIDsFromLists R (''sidekiq:dead:'' @ ''*'') limit;
        case snd r of Some err \<Rightarrow> State_Monad.return (None, Some err) | None \<Rightarrow> fetch_jobs C R (fst r) [] }) w = (r, w')"
      using run st by (simp add: redis_GetJobsByStatus_def redis_ids_by_status_def)
    from reliable_listing [OF assms(1-3) g(2) _ _ _ this, where key = deadKey] ty reads(2) st show ?thesis
      by (simp add: deadKey_def [symmetric] dead_def del: append_Cons append.simps)
  qed simp
qed

text \<open>Retry sets are sorted sets, so the list command fails on the first one met.\<close>

lemma reliable_retry_listing:
  assumes "reliable w" "typed (view (store w))" "0 < limit"
    and run: "run_state (redis_GetJobsByStatus C R StatusRetry limit) w = (r, w')"
  shows "if (\<forall>q. retrying (view (store w)) q = []) then r = (Some [], None)
    else \<exists>q. r = (None, Some (WrapError (''lrange '' @ retryKey q @ '': '') (RedisError WRONGTYPE)))"
proof -
  let ?p = "''sidekiq:retry:''"
  have g: "glob_free ?p" by (simp add: glob_free_def)
  obtain keys u where u: "run_state (scan_iter (SCAN R) (?p @ ''*'')) w = ((keys, None), u)"
    "set keys = {k \<in> dom (view (store w)). prefix ?p k}" "view (store u) = view (store w)" "reliable u"
    using reliable_scan [OF g assms(1)] by blast
  have r: "run_state (do { r \<leftarrow> collect_loop R (?p @ ''*'') limit [] keys None;
      case snd r of Some err \<Rightarrow> State_Monad.return (None, Some err) | None \<Rightarrow> fetch_jobs C R (fst r) [] }) u = (r, w')"
    using run u(1) by (simp add: redis_GetJobsByStatus_def redis_ids_by_status_def collectIDsFromLists_def)
  show ?thesis
  proof (cases keys)
    case Nil
    have "retryKey q \<notin> set keys" for q using Nil by simp
    then have "view (store w) (retryKey q) = None" for q unfolding u(2) by (auto simp: retryKey_def)
    then have "retrying (view (store w)) q = []" for q by (simp add: retrying_def zst_def)
    with Nil r show ?thesis by simp
  next
    case (Cons k ks)
    then have "k \<in> set keys" by simp
    then obtain q v where k: "k = retryKey q" "view (store w) k = Some v"
      by (auto simp: u(2) prefix_def retryKey_def simp del: append_Cons append.simps)
    then obtain z where z: "view (store w) k = Some (RZset z)" "z \<noteq> []"
      using assms(2) typedD(3) [of "view (store w)" q] by (auto simp: is_zset_def split: rvalue.splits)
    then have "retrying (view (store w)) q \<noteq> []" by (simp add: k retrying_def zst_def)
    moreover from z have "run_state (doc_LRANGE k 0 (limit - 1)) (view (store u)) = (Inl WRONGTYPE, view (store u))"
      using u(3) by (simp add: doc_LRANGE_def read_list_def)
    ultimately show ?thesis using reliable_read [OF LRANGE_law u(4), of k 0 "limit - 1"] Cons r k(1) assms(3)
      by auto
  qed
qed

section \<open>Statistics\<close>

text \<open>A field of \<open>QueueStats\<close>, other than its name, by its update function.\<close>

end

definition stat_field :: "((int \<Rightarrow> int) \<Rightarrow> QueueStats \<Rightarrow> QueueStats) \<Rightarrow> bool" where
  "stat_field upd \<longleftrightarrow> (\<forall>f g s q. upd f (upd g s) = upd (f \<circ> g) s \<and> (upd f s)\<lparr>sQueue := q\<rparr> = upd f (s\<lparr>sQueue := q\<rparr>))"

lemma stat_fields [simp]:
  "stat_field sEnqueued_update" "stat_field sRetry_update" "stat_field sDead_update"
  "stat_field sScheduled_update" "stat_field sActive_update"
  by (simp_all add: stat_field_def comp_def)

lemma stat_fieldD:
  "stat_field upd \<Longrightarrow> upd f (upd g s) = upd (f \<circ> g) s" "stat_field upd \<Longrightarrow> (upd f s)\<lparr>sQueue := q\<rparr> = upd f (s\<lparr>sQueue := q\<rparr>)"
  by (auto simp: stat_field_def)

definition entry :: "((int \<Rightarrow> int) \<Rightarrow> QueueStats \<Rightarrow> QueueStats) \<Rightarrow> (int \<Rightarrow> int) \<Rightarrow> (string \<rightharpoonup> QueueStats) \<Rightarrow> string \<Rightarrow> QueueStats" where
  "entry upd f m q = upd f ((stats_of m q)\<lparr>sQueue := q\<rparr>)"

lemma entry_entry:
  "stat_field upd \<Longrightarrow> entry upd f (m(q' \<mapsto> entry upd g m q')) q = (if q = q' then entry upd (f \<circ> g) m q else entry upd f m q)"
  by (simp add: entry_def stats_of_def stat_fieldD)

lemma stats_of_entry: "stats_of (m(q' \<mapsto> s)) q = (if q = q' then s else stats_of m q)"
  by (simp add: stats_of_def)

lemma TrimPrefix_append [simp]: "TrimPrefix (p @ q) p = q"
  by (simp add: TrimPrefix_def)

text \<open>Members of a global set count for the queue in their record.\<close>

definition of_queue :: "codec \<Rightarrow> keyspace \<Rightarrow> string \<Rightarrow> zset \<Rightarrow> nat" where
  "of_queue C ks q z = length (filter (\<lambda>i. record_queue C ks i = Some q) (members z))"

definition counted :: "((int \<Rightarrow> int) \<Rightarrow> QueueStats \<Rightarrow> QueueStats) \<Rightarrow> keyspace \<Rightarrow> (string \<Rightarrow> string) \<Rightarrow> (string \<Rightarrow> nat) \<Rightarrow>
  (string \<rightharpoonup> QueueStats) \<Rightarrow> (string \<rightharpoonup> QueueStats)" where
  "counted upd ks key n m = (\<lambda>q. if ks (key q) = None then m q else Some (entry upd (\<lambda>_. int (n q)) m q))"

definition attributed :: "((int \<Rightarrow> int) \<Rightarrow> QueueStats \<Rightarrow> QueueStats) \<Rightarrow> (string \<Rightarrow> nat) \<Rightarrow>
  (string \<rightharpoonup> QueueStats) \<Rightarrow> (string \<rightharpoonup> QueueStats)" where
  "attributed upd n m = (\<lambda>q. if n q = 0 then m q else Some (entry upd (\<lambda>a. a + int (n q)) m q))"

lemma stats_of_counted:
  "stats_of (counted upd ks key n m) q = (if ks (key q) = None then stats_of m q else entry upd (\<lambda>_. int (n q)) m q)"
  by (simp add: stats_of_def counted_def)

lemma stats_of_attributed:
  "stats_of (attributed upd n m) q = (if n q = 0 then stats_of m q else entry upd (\<lambda>a. a + int (n q)) m q)"
  by (simp add: stats_of_def attributed_def)

lemma attributed_step:
  assumes "stat_field upd"
  shows "attributed upd n (m(q \<mapsto> entry upd (\<lambda>a. a + 1) m q)) = attributed upd (n(q := Suc (n q))) m"
  using assms by (auto simp: attributed_def fun_eq_iff entry_entry comp_def algebra_simps)

context redis_server
begin

text \<open>However often and in whatever order the scan hands out the keys, the depth of each is its
  entry's field.\<close>

lemma reliable_count_keys:
  assumes "stat_field upd" "reliable w" "\<forall>k \<in> set keys. prefix p k"
    and depth: "\<And>k v. k \<in> set keys \<Longrightarrow> reliable v \<Longrightarrow> view (store v) = view (store w) \<Longrightarrow>
      \<exists>v'. run_state (round_trip (depth k)) v = (Inr (n k), v') \<and> view (store v') = view (store w) \<and> reliable v'"
  shows "\<exists>w'. run_state (scan_each_loop (count_key p depth upd) keys None m) w =
      (Inr (\<lambda>q. if p @ q \<in> set keys then Some (entry upd (\<lambda>_. int (n (p @ q))) m q) else m q), w')
    \<and> view (store w') = view (store w) \<and> reliable w'"
  using assms(2-)
proof (induction keys arbitrary: w m)
  case (Cons k keys)
  obtain q where k: "k = p @ q" using Cons.prems(2) by (auto simp: prefix_def)
  obtain v where v: "run_state (round_trip (depth k)) w = (Inr (n k), v)" "view (store v) = view (store w)" "reliable v"
    using Cons.prems(3) [of k w] Cons.prems(1) by auto
  let ?m = "m(q \<mapsto> entry upd (\<lambda>_. int (n k)) m q)"
  have step: "run_state (count_key p depth upd k m) w = (Inr ?m, v)" using v(1) k by (simp add: count_key_def entry_def)
  have "\<exists>w'. run_state (scan_each_loop (count_key p depth upd) keys None ?m) v =
      (Inr (\<lambda>q. if p @ q \<in> set keys then Some (entry upd (\<lambda>_. int (n (p @ q))) ?m q) else ?m q), w')
    \<and> view (store w') = view (store v) \<and> reliable w'"
    using Cons.prems(2,3) v(2,3) by (intro Cons.IH) auto
  then obtain w' where w': "run_state (scan_each_loop (count_key p depth upd) keys None ?m) v =
      (Inr (\<lambda>q. if p @ q \<in> set keys then Some (entry upd (\<lambda>_. int (n (p @ q))) ?m q) else ?m q), w')"
    "view (store w') = view (store w)" "reliable w'" using v(2) by auto
  have "(\<lambda>q. if p @ q \<in> set keys then Some (entry upd (\<lambda>_. int (n (p @ q))) ?m q) else ?m q) =
      (\<lambda>q. if p @ q \<in> set (k # keys) then Some (entry upd (\<lambda>_. int (n (p @ q))) m q) else m q)"
    using assms(1) k by (auto simp: entry_entry comp_def)
  with w' step show ?case by simp
qed simp

lemma reliable_scan_stats:
  assumes "stat_field upd" "reliable w" "glob_free p" "\<And>q. p @ q = key q"
    and law: "\<And>k. sim view (depth k) (ddepth k)"
    and run: "\<And>q. run_state (ddepth (key q)) (view (store w)) = (Inr (n q), view (store w))"
  shows "\<exists>w'. run_state (scanEach R (p @ ''*'') (count_key p depth upd) m) w = (Inr (counted upd (view (store w)) key n m), w')
    \<and> view (store w') = view (store w) \<and> reliable w'"
proof -
  obtain keys u where u: "run_state (scan_iter (SCAN R) (p @ ''*'')) w = ((keys, None), u)"
    "set keys = {k \<in> dom (view (store w)). prefix p k}" "view (store u) = view (store w)" "reliable u"
    using reliable_scan [OF assms(3,2)] by blast
  define n' where "n' k = n (drop (length p) k)" for k
  have "run_state (ddepth k) (view (store u)) = (Inr (n' k), view (store u))" if "k \<in> set keys" for k
  proof -
    from that obtain q where "k = p @ q" by (auto simp: u(2) prefix_def)
    then show ?thesis using run u(3) by (simp add: n'_def assms(4) [symmetric])
  qed
  then have count: "\<exists>v'. run_state (round_trip (depth k)) v = (Inr (n' k), v') \<and> view (store v') = view (store u) \<and> reliable v'"
    if "k \<in> set keys" "reliable v" "view (store v) = view (store u)" for k v
    using reliable_read [OF law that(2), of k] that by simp
  have "\<exists>w'. run_state (scan_each_loop (count_key p depth upd) keys None m) u =
      (Inr (\<lambda>q. if p @ q \<in> set keys then Some (entry upd (\<lambda>_. int (n' (p @ q))) m q) else m q), w')
    \<and> view (store w') = view (store u) \<and> reliable w'"
    using u(2) by (intro reliable_count_keys [OF assms(1) u(4)] count) auto
  moreover have "(\<lambda>q. if p @ q \<in> set keys then Some (entry upd (\<lambda>_. int (n' (p @ q))) m q) else m q) =
      counted upd (view (store w)) key n m"
    by (auto simp: u(2) counted_def n'_def fun_eq_iff assms(4) [symmetric])
  ultimately show ?thesis using u(1,3) by (simp add: scanEach_def)
qed

lemma reliable_attribute_loop:
  assumes "stat_field upd" "reliable w" "typed (view (store w))" "\<forall>i \<in> set ids. \<exists>j. reads_as C (view (store w)) i j"
  shows "\<exists>w'. run_state (attribute_loop C R upd ids m) w =
      (Inr (attributed upd (\<lambda>q. length (filter (\<lambda>i. record_queue C (view (store w)) i = Some q) ids)) m), w')
    \<and> view (store w') = view (store w) \<and> reliable w'"
  using assms(2-)
proof (induction ids arbitrary: w m)
  case (Cons i ids)
  let ?n = "\<lambda>ids q. length (filter (\<lambda>i. record_queue C (view (store w)) i = Some q) ids)"
  obtain j d where j: "record_of (view (store w)) i = Some d" "jsonUnmarshal C d = Inr j" "cjson_queue C d = Inr (Queue j)"
    using Cons.prems(3) by (auto simp: reads_as_def)
  obtain u where u: "run_state (redis_Get R (jobKey i)) w = (Inr d, u)" "view (store u) = view (store w)" "reliable u"
    using reliable_Get [OF Cons.prems(1,2), of i] j(1) by auto
  let ?m = "m(Queue j \<mapsto> entry upd (\<lambda>a. a + 1) m (Queue j))"
  have "\<exists>w'. run_state (attribute_loop C R upd ids ?m) u = (Inr (attributed upd (?n ids) ?m), w')
    \<and> view (store w') = view (store w) \<and> reliable w'"
    by (rule Cons.IH [of u ?m, unfolded u(2)]) (use Cons.prems u in simp_all)
  moreover have "(?n ids)(Queue j := Suc (?n ids (Queue j))) = ?n (i # ids)"
    using j by (auto simp: record_queue_def)
  ultimately show ?case using u(1) j(2) by (simp add: attributed_step [OF assms(1)] entry_def [symmetric] del: filter.simps)
qed (simp add: attributed_def)

lemma reliable_attribute:
  assumes "stat_field upd" "reliable w" "typed (view (store w))" "is_zset (view (store w)) k"
    and "\<And>i. zmem i (zst (view (store w)) k) \<Longrightarrow> \<exists>j. reads_as C (view (store w)) i j"
  shows "\<exists>w'. run_state (attributeGlobalSetToQueues C R k upd m) w =
      (Inr (attributed upd (\<lambda>q. of_queue C (view (store w)) q (zst (view (store w)) k)) m), w')
    \<and> view (store w') = view (store w) \<and> reliable w'"
proof -
  let ?ids = "members (zst (view (store w)) k)"
  have "run_state (doc_ZRANGE k 0 (- 1)) (view (store w)) = (Inr ?ids, view (store w))"
    using assms(4) by (simp add: cmd_run index_range_all)
  from reliable_read [OF ZRANGE_law assms(2) this] obtain u where
    u: "run_state (round_trip (ZRANGE R k 0 (- 1))) w = (Inr ?ids, u)" "view (store u) = view (store w)" "reliable u"
    by auto
  have "\<forall>i \<in> set ?ids. \<exists>j. reads_as C (view (store u)) i j" using assms(5) u(2) by (simp add: set_members)
  from reliable_attribute_loop [OF assms(1) u(3) _ this, of m] u assms(3) show ?thesis
    by (auto simp: attributeGlobalSetToQueues_def of_queue_def)
qed

lemma stats_step_run:
  assumes "run_state m w = (Inr s, v)" "run_state (f s) v = (Inr s', w')"
  shows "run_state (stats_step wrap f m) w = (Inr s', w')"
  using assms by (simp add: stats_step_def)

lemma reliable_GetQueueStats:
  assumes "reliable w" "well_placed C st (view (store w))" "run_state (redis_GetQueueStats C R) w = (r, w')"
  defines "ks \<equiv> view (store w)"
  shows "r = Inr (attributed sActive_update (\<lambda>q. of_queue C ks q (active ks))
    (attributed sScheduled_update (\<lambda>q. of_queue C ks q (scheduled ks))
    (counted sDead_update ks deadKey (\<lambda>q. length (dead ks q))
    (counted sRetry_update ks retryKey (\<lambda>q. length (retrying ks q))
    (counted sEnqueued_update ks queueKey (\<lambda>q. length (pending ks q)) Map.empty)))))"
proof -
  have ty: "typed ks" using assms(2) by (simp add: well_placed_def ks_def)
  have g: "glob_free ''sidekiq:queue:''" "glob_free ''sidekiq:retry:''" "glob_free ''sidekiq:dead:''"
    by (simp_all add: glob_free_def)
  note keys = queueKey_def [symmetric] retryKey_def [symmetric] deadKey_def [symmetric]
  have depth: "run_state (doc_LLEN (queueKey q)) ks = (Inr (length (pending ks q)), ks)"
    "run_state (doc_ZCARD (retryKey q)) ks = (Inr (length (retrying ks q)), ks)"
    "run_state (doc_LLEN (deadKey q)) ks = (Inr (length (dead ks q)), ks)" for q
    using ty by (simp_all add: cmd_run part_defs)
  define m1 where "m1 = counted sEnqueued_update ks queueKey (\<lambda>q. length (pending ks q)) Map.empty"
  obtain w1 where 1: "run_state (scanEach R ''sidekiq:queue:*'' (count_key ''sidekiq:queue:'' (LLEN R) sEnqueued_update) Map.empty) w = (Inr m1, w1)"
    "view (store w1) = ks" "reliable w1"
    using reliable_scan_stats [OF stat_fields(1) assms(1) g(1) keys(1) _ _, where depth = "LLEN R" and ddepth = doc_LLEN and n = "\<lambda>q. length (pending ks q)" and m = Map.empty] LLEN_law depth(1)
    by (auto simp: m1_def ks_def)
  define m2 where "m2 = counted sRetry_update ks retryKey (\<lambda>q. length (retrying ks q)) m1"
  obtain w2 where 2: "run_state (scanEach R ''sidekiq:retry:*'' (count_key ''sidekiq:retry:'' (ZCARD R) sRetry_update) m1) w1 = (Inr m2, w2)"
    "view (store w2) = ks" "reliable w2"
    using reliable_scan_stats [OF stat_fields(2) 1(3) g(2) keys(2) _ _, where depth = "ZCARD R" and ddepth = doc_ZCARD and n = "\<lambda>q. length (retrying ks q)" and m = m1] ZCARD_law depth(2) 1(2)
    by (auto simp: m2_def)
  define m3 where "m3 = counted sDead_update ks deadKey (\<lambda>q. length (dead ks q)) m2"
  obtain w3 where 3: "run_state (scanEach R ''sidekiq:dead:*'' (count_key ''sidekiq:dead:'' (LLEN R) sDead_update) m2) w2 = (Inr m3, w3)"
    "view (store w3) = ks" "reliable w3"
    using reliable_scan_stats [OF stat_fields(3) 2(3) g(3) keys(3) _ _, where depth = "LLEN R" and ddepth = doc_LLEN and n = "\<lambda>q. length (dead ks q)" and m = m2] LLEN_law depth(3) 2(2)
    by (auto simp: m3_def)
  have reads: "zmem i (zst ks scheduledKey) \<Longrightarrow> \<exists>j. reads_as C ks i j" "zmem i (zst ks activeKey) \<Longrightarrow> \<exists>j. reads_as C ks i j" for i
    using well_placed_reads [OF assms(2), of Scheduled i] well_placed_reads [OF assms(2), of Active i]
    by (simp_all add: occ_pos scheduled_def active_def ks_def del: occ.simps)
  define m4 where "m4 = attributed sScheduled_update (\<lambda>q. of_queue C ks q (scheduled ks)) m3"
  obtain w4 where 4: "run_state (attributeGlobalSetToQueues C R scheduledKey sScheduled_update m3) w3 = (Inr m4, w4)"
    "view (store w4) = ks" "reliable w4"
    using reliable_attribute [OF stat_fields(4) 3(3), of scheduledKey C m3] 3(2) ty reads(1) by (auto simp: scheduled_def m4_def)
  define m5 where "m5 = attributed sActive_update (\<lambda>q. of_queue C ks q (active ks)) m4"
  obtain w5 where 5: "run_state (attributeGlobalSetToQueues C R activeKey sActive_update m4) w4 = (Inr m5, w5)"
    using reliable_attribute [OF stat_fields(5) 4(3), of activeKey C m4] 4(2) ty reads(2) by (auto simp: active_def m5_def)
  have "run_state (redis_GetQueueStats C R) w = (Inr m5, w5)"
    unfolding redis_GetQueueStats_def
    by ((rule stats_step_run)+, rule run_state_return, rule 1(1), rule 2(1), rule 3(1), rule 4(1), rule 5)
  then show ?thesis using assms(3) by (simp add: m1_def m2_def m3_def m4_def m5_def)
qed

end

lemma counted_none:
  "(if ks (queueKey q) = None then 0 else int (length (pending ks q))) = int (length (pending ks q))"
  "(if ks (retryKey q) = None then 0 else int (length (retrying ks q))) = int (length (retrying ks q))"
  "(if ks (deadKey q) = None then 0 else int (length (dead ks q))) = int (length (dead ks q))"
  by (simp_all add: part_defs obs_defs)

lemmas stats_entries = stats_of_attributed stats_of_counted entry_def
  if_distrib [of sEnqueued] if_distrib [of sRetry] if_distrib [of sDead] if_distrib [of sScheduled] if_distrib [of sActive]
  if_distrib [of sQueue]

lemma stats_empty [simp]: "stats_of Map.empty q = zeroStats"
  by (simp add: stats_of_def)

lemma if_zero: "(if n = 0 then 0 else int n) = int n"
  by simp


section \<open>Properties\<close>

text \<open>
  C25. Listing: \<open>GetJobsByStatus\<close> for pending (dead) jobs returns, without an error, at most
  \<open>limit\<close> jobs, each of them the job in the record of an identifier in some queue
  (dead-letter list); and when it returns fewer than \<open>limit\<close>, no job in any queue
  (dead-letter list) is missing, whatever the order of the scan. (Every identifier with a
  record that reads back as that job; all requests executed and answered.)
\<close>

theorem redis_lists_jobs:
  assumes "redis_server R view" "reliable w" "well_placed C st (view (store w))" "0 < limit" "ks = view (store w)"
    and "(status, part) \<in> {(StatusPending, pending ks), (StatusDead, dead ks)}"
    and "run_state (GetJobsByStatus (redisBroker C R) status limit) w = (r, w')"
  shows "\<exists>jobs. r = (Some jobs, None) \<and> int (length jobs) \<le> limit
    \<and> (\<forall>j \<in> set jobs. reads_as C ks (ID j) j \<and> (\<exists>q. ID j \<in> set (part q)))
    \<and> (int (length jobs) < limit \<longrightarrow> (\<forall>q. \<forall>i \<in> set (part q). \<exists>j \<in> set jobs. reads_as C ks i j))"
  using redis_server.reliable_GetJobsByStatus [OF assms(1-4) assms(6) [unfolded assms(5)], of r w'] assms(5,7)
  by (simp add: redisBroker_def)

theorem redis_lists_jobs_witness:
  "\<exists>jobs w'. run_state (GetJobsByStatus (redisBroker text_codec mem_redis) StatusPending 50)
      (mem_world 0 (queued_store (sample_job ''a'' ''q'' 0)) []) = ((Some jobs, None), w') \<and> set jobs = {sample_job ''a'' ''q'' 0}"
proof -
  let ?j = "sample_job ''a'' ''q'' 0" and ?w = "mem_world 0 (queued_store (sample_job ''a'' ''q'' 0)) []"
  let ?ks = "map_of (store ?w)"
  obtain r w' where w': "run_state (GetJobsByStatus (redisBroker text_codec mem_redis) StatusPending 50) ?w = (r, w')"
    by (rule prod.exhaust)
  have parts: "pending ?ks q = (if q = ''q'' then [''a''] else [])" "record_of ?ks ''a'' = Some (text_of ?j)" for q
    by (simp_all add: queued_store_view db_enqueue_def Let_def)
  have rel: "reliable ?w" "well_placed text_codec (\<lambda>_. True) ?ks"
    by (simp_all add: reliable_def queued_store_placed)
  have lim: "(0 :: int) < 50" by simp
  from redis_lists_jobs [OF mem.redis_server_axioms rel lim refl _ w', of "pending ?ks"] obtain jobs where
    jobs: "r = (Some jobs, None)" "\<forall>j \<in> set jobs. reads_as text_codec ?ks (ID j) j \<and> (\<exists>q. ID j \<in> set (pending ?ks q))"
    "int (length jobs) < 50 \<longrightarrow> (\<forall>q. \<forall>i \<in> set (pending ?ks q). \<exists>j \<in> set jobs. reads_as text_codec ?ks i j)" by auto
  have "reads_as text_codec ?ks ''a'' j \<longleftrightarrow> j = ?j" for j using parts(2) by (auto simp: reads_as_def)
  with jobs(2) parts(1) have "j \<in> set jobs \<Longrightarrow> j = ?j" for j by (fastforce split: if_splits)
  moreover have "jobs \<noteq> []" using jobs(3) parts(1) [of "''q''"] by fastforce
  ultimately have "set jobs = {?j}" by (cases jobs) auto
  with jobs(1) w' show ?thesis by blast
qed

text \<open>
  C26. Statistics: whatever the order of the scans, and even when they hand out keys twice,
  \<open>GetQueueStats\<close> returns for every queue the numbers of its pending, retrying and dead jobs and of the
  scheduled and active jobs whose record names the queue. (Every identifier with a record
  that reads back as that job; all requests executed and answered.)
\<close>

theorem redis_queue_stats:
  assumes "redis_server R view" "reliable w" "well_placed C st (view (store w))"
    and "run_state (GetQueueStats (redisBroker C R)) w = (r, w')" "ks = view (store w)"
  shows "\<exists>m. r = Inr m \<and> (\<forall>q. sEnqueued (stats_of m q) = int (length (pending ks q))
    \<and> sRetry (stats_of m q) = int (length (retrying ks q)) \<and> sDead (stats_of m q) = int (length (dead ks q))
    \<and> sScheduled (stats_of m q) = int (of_queue C ks q (scheduled ks))
    \<and> sActive (stats_of m q) = int (of_queue C ks q (active ks)))"
proof -
  have "run_state (redis_GetQueueStats C R) w = (r, w')" using assms(4) by (simp add: redisBroker_def)
  note stats = redis_server.reliable_GetQueueStats [OF assms(1-3) this, folded assms(5)]
  show ?thesis
    by (rule exI, rule conjI [OF stats], intro allI conjI)
      (simp_all add: stats_entries counted_none if_zero zeroStats_def cong: if_cong split del: if_split)
qed
theorem redis_queue_stats_witness:
  "\<exists>m w'. run_state (GetQueueStats (redisBroker text_codec mem_redis))
      (mem_world 0 (scheduled_store (sample_job ''a'' ''q'' (60 * Second))) []) = (Inr m, w')
    \<and> sScheduled (stats_of m ''q'') = 1 \<and> sEnqueued (stats_of m ''q'') = 0"
proof -
  let ?j = "sample_job ''a'' ''q'' (60 * Second)"
  let ?w = "mem_world 0 (scheduled_store ?j) []"
  let ?ks = "map_of (store ?w)"
  obtain r w' where w': "run_state (GetQueueStats (redisBroker text_codec mem_redis)) ?w = (r, w')" by (rule prod.exhaust)
  have rel: "reliable ?w" "well_placed text_codec (\<lambda>_. True) ?ks"
    by (simp_all add: reliable_def scheduled_store_placed)
  have ks: "pending ?ks ''q'' = []" "of_queue text_codec ?ks ''q'' (scheduled ?ks) = 1"
    by (simp_all add: scheduled_store_view db_enqueue_def Let_def of_queue_def zadd_def members_def record_queue_def)
  from redis_queue_stats [OF mem.redis_server_axioms rel w' refl] obtain m where
    "r = Inr m" "sEnqueued (stats_of m ''q'') = int (length (pending ?ks ''q''))"
    "sScheduled (stats_of m ''q'') = int (of_queue text_codec ?ks ''q'' (scheduled ?ks))" by blast
  with ks w' show ?thesis by auto
qed

end
