(* ===== verification/Middleware.thy ===== *)
theory Middleware
  imports Job
begin

text \<open>
  Handlers and middleware: \<open>internal/middleware\<close>. A handler is a function of its context and
  the job it is passed, over the state of the process it runs in (\<open>host\<close>); it
  returns an error or panics, and may write to the job. The text of a recovered panic is
  the panic's value and the stack of the goroutine. The metrics library is an argument of
  the metrics middleware.
\<close>

section \<open>The process a worker runs in\<close>

datatype logval = VStr string | VInt int | VDur duration | VErr "goerr option"

record entry =
  level :: string
  msg :: string
  attrs :: "(string \<times> logval) list"

text \<open>The clock, the log, the numbers the random generator will draw, and whatever else the
  handlers work on.\<close>

record 'u host = env +
  logs :: "entry list"
  draws :: "int list"
  user :: 'u

definition slog :: "string \<Rightarrow> string \<Rightarrow> (string \<times> logval) list \<Rightarrow> ('u host, unit) state" where
  "slog lv m as = State (\<lambda>h. ((), h\<lparr>logs := logs h @ [\<lparr>level = lv, msg = m, attrs = as\<rparr>]\<rparr>))"

definition rand_Intn :: "int \<Rightarrow> ('u host, int) state" where
  "rand_Intn n = State (\<lambda>h. (case draws h of [] \<Rightarrow> 0 | r # _ \<Rightarrow> r mod n, h\<lparr>draws := tl (draws h)\<rparr>))"

text \<open>A context ends at its deadline, or earlier when a parent is cancelled.\<close>

record Context =
  Deadline :: "instant option"
  CancelledAt :: "instant option"

definition WithTimeout :: "Context \<Rightarrow> instant \<Rightarrow> duration \<Rightarrow> Context" where
  "WithTimeout ctx now d = ctx\<lparr>Deadline := Some (case Deadline ctx of
       None \<Rightarrow> now + d | Some t \<Rightarrow> min t (now + d))\<rparr>"

datatype outcome = Returned "goerr option" | Panicked string string

type_synonym 'u Handler = "Context \<Rightarrow> Job \<Rightarrow> ('u host, outcome \<times> Job) state"
type_synonym 'u Middleware = "'u Handler \<Rightarrow> 'u Handler"

definition panic_error :: "string \<Rightarrow> string \<Rightarrow> goerr" where
  "panic_error v stack = ErrorString (''panic: '' @ v @ [CHR 0x0A] @ stack)"

section \<open>Middleware\<close>

text \<open>The loop of \<open>Chain\<close>, from the last middleware to the first.\<close>

fun chain_loop :: "'u Handler \<Rightarrow> 'u Middleware list \<Rightarrow> nat \<Rightarrow> 'u Handler" where
  "chain_loop h mws 0 = h"
| "chain_loop h mws (Suc i) = chain_loop ((mws ! i) h) mws i"

definition Chain :: "'u Handler \<Rightarrow> 'u Middleware list \<Rightarrow> 'u Handler" where
  "Chain base mws = chain_loop base mws (length mws)"

definition LoggingMiddleware :: "'u Middleware" where
  "LoggingMiddleware next ctx job = do {
     start \<leftarrow> time_Now;
     _ \<leftarrow> slog ''INFO'' ''job started'' [(''id'', VStr (ID job)), (''type'', VStr (Type job)),
       (''queue'', VStr (Queue job)), (''attempt'', VInt (wrap64 (Attempts job + 1)))];
     r \<leftarrow> next ctx job;
     (case r of
        (Panicked v st, job') \<Rightarrow> State_Monad.return r
      | (Returned err, job') \<Rightarrow> do {
          now \<leftarrow> time_Now;
          _ \<leftarrow> slog ''INFO'' ''job finished'' [(''id'', VStr (ID job')), (''type'', VStr (Type job')),
            (''duration'', VDur (now - start)), (''error'', VErr err)];
          State_Monad.return r }) }"

definition RecoveryMiddleware :: "'u Middleware" where
  "RecoveryMiddleware next ctx job = do {
     r \<leftarrow> next ctx job;
     State_Monad.return (case r of
         (Panicked v st, job') \<Rightarrow> (Returned (Some (panic_error v st)), job')
       | (Returned err, job') \<Rightarrow> (Returned err, job')) }"

definition TimeoutMiddleware :: "duration \<Rightarrow> 'u Middleware" where
  "TimeoutMiddleware d next ctx job = do {
     now \<leftarrow> time_Now;
     next (WithTimeout ctx now d) job }"

text \<open>The two metrics: a histogram of durations by type and a counter by type and outcome.\<close>

record 'u metrics =
  Observe :: "string \<Rightarrow> duration \<Rightarrow> ('u host, unit) state"
  Inc :: "string \<Rightarrow> string \<Rightarrow> ('u host, unit) state"

definition MetricsMiddleware :: "'u metrics \<Rightarrow> 'u Middleware" where
  "MetricsMiddleware M next ctx job = do {
     start \<leftarrow> time_Now;
     r \<leftarrow> next ctx job;
     (case r of
        (Panicked v st, job') \<Rightarrow> State_Monad.return r
      | (Returned err, job') \<Rightarrow> do {
          now \<leftarrow> time_Now;
          _ \<leftarrow> Observe M (Type job') (now - start);
          _ \<leftarrow> Inc M (Type job') (if err \<noteq> None then ''failure'' else ''success'');
          State_Monad.return r }) }"

section \<open>Lemmas\<close>

lemma chain_loop_foldr: "i \<le> length mws \<Longrightarrow> chain_loop h mws i = foldr (\<lambda>m h. m h) (take i mws) h"
  by (induction i arbitrary: h) (simp_all add: take_Suc_conv_app_nth)

lemma Chain_foldr: "Chain h mws = foldr (\<lambda>m h. m h) mws h"
  by (simp add: Chain_def chain_loop_foldr)

text \<open>A middleware relays: it runs the next handler once, on the job it was passed and with a context
  that ends no later, and reports what that handler did, a panic possibly as an error.\<close>

definition reported :: "outcome \<Rightarrow> outcome \<Rightarrow> bool" where
  "reported out out' \<longleftrightarrow> out' = out \<or> (\<exists>v st. out = Panicked v st \<and> out' = Returned (Some (panic_error v st)))"

definition no_later :: "Context \<Rightarrow> Context \<Rightarrow> bool" where
  "no_later ctx ctx' \<longleftrightarrow> CancelledAt ctx' = CancelledAt ctx
     \<and> (\<forall>t. Deadline ctx = Some t \<longrightarrow> (\<exists>t' \<le> t. Deadline ctx' = Some t'))"

definition relayed ::
  "'u Handler \<Rightarrow> Context \<Rightarrow> Job \<Rightarrow> outcome \<times> Job \<Rightarrow> bool" where
  "relayed next ctx job r \<longleftrightarrow> (\<exists>ctx' h out. no_later ctx ctx'
     \<and> fst (run_state (next ctx' job) h) = (out, snd r) \<and> reported out (fst r))"

definition relays :: "'u Middleware \<Rightarrow> bool" where
  "relays m \<longleftrightarrow> (\<forall>next ctx job h. relayed next ctx job (fst (run_state (m next ctx job) h)))"

lemma no_later_refl: "no_later ctx ctx"
  by (auto simp: no_later_def)

lemma no_later_trans: "no_later a b \<Longrightarrow> no_later b c \<Longrightarrow> no_later a c"
  by (fastforce simp: no_later_def intro: order_trans)

lemma no_later_timeout: "no_later ctx (WithTimeout ctx now d)"
  by (auto simp: no_later_def WithTimeout_def split: option.split)

lemma reported_trans: "reported a b \<Longrightarrow> reported b c \<Longrightarrow> reported a c"
  by (auto simp: reported_def)

lemma reported_refl: "reported a a"
  by (simp add: reported_def)

lemma relayedI:
  "no_later ctx ctx' \<Longrightarrow> fst (run_state (next ctx' job) h) = (out, job') \<Longrightarrow> reported out out' \<Longrightarrow>
   relayed next ctx job (out', job')"
  by (auto simp: relayed_def)

lemma relayed_run: "no_later ctx ctx' \<Longrightarrow> relayed next ctx job (fst (run_state (next ctx' job) h))"
  by (metis relayedI reported_refl surjective_pairing)

lemma relays_Logging: "relays LoggingMiddleware"
  by (auto simp: relays_def LoggingMiddleware_def split_beta split: prod.splits outcome.splits
      intro: relayed_run no_later_refl)

lemma relays_Metrics: "relays (MetricsMiddleware M)"
  by (auto simp: relays_def MetricsMiddleware_def split_beta split: prod.splits outcome.splits
      intro: relayed_run no_later_refl)

lemma relays_Timeout: "relays (TimeoutMiddleware d)"
  by (auto simp: relays_def TimeoutMiddleware_def split_beta intro: relayed_run no_later_timeout)

lemma relays_Recovery: "relays RecoveryMiddleware"
  by (auto simp: relays_def RecoveryMiddleware_def split_beta split: prod.splits outcome.splits
      intro!: relayedI [OF no_later_refl] simp: reported_def prod_eq_iff)

lemma relays_comp:
  assumes "relays m" "\<And>ctx job h. relayed base ctx job (fst (run_state (next ctx job) h))"
  shows "relayed base ctx job (fst (run_state (m next ctx job) h))"
proof -
  from assms(1) obtain ctx' h' out where m: "no_later ctx ctx'"
    "fst (run_state (next ctx' job) h') = (out, snd (fst (run_state (m next ctx job) h)))"
    "reported out (fst (fst (run_state (m next ctx job) h)))"
    unfolding relays_def relayed_def by meson
  with assms(2) [of ctx' job h'] obtain ctx'' h'' out' where "no_later ctx' ctx''"
    "fst (run_state (base ctx'' job) h'') = (out', snd (fst (run_state (m next ctx job) h)))"
    "reported out' out"
    unfolding relayed_def by (metis fst_conv snd_conv)
  then show ?thesis
    using m unfolding relayed_def by (meson no_later_trans reported_trans)
qed

lemma relayed_Chain:
  assumes "\<And>m. m \<in> set mws \<Longrightarrow> relays m"
  shows "relayed base ctx job (fst (run_state (Chain base mws ctx job) h))"
  unfolding Chain_foldr using assms
proof (induction mws arbitrary: ctx job h)
  case Nil
  then show ?case by (simp add: relayed_run no_later_refl)
next
  case (Cons m mws)
  then show ?case by (auto intro: relays_comp)
qed

text \<open>A handler that panics.\<close>

definition boom :: "unit Handler" where
  "boom ctx job = State_Monad.return (Panicked ''boom'' ''main'', job)"

section \<open>Properties\<close>

text \<open>
  C30. \<open>Chain\<close> applies the middlewares in the order given, the first one outermost: it is the
  composition of the list around the base handler, and a chain of two lists is the chain
  of the first around the chain of the second.
\<close>

theorem Chain_order:
  "Chain base (m # mws) = m (Chain base mws) \<and> Chain base [] = base
    \<and> Chain base (mws1 @ mws2) = Chain (Chain base mws2) mws1"
  by (simp add: Chain_foldr)



end
