(* ===== verification/Retry.thy ===== *)
theory Retry
  imports Prelude
begin

text \<open>
  The backoff of \<open>internal/retry/retry.go\<close>. The code computes in float64. Every intermediate value
  is an integer, so a float64 is represented by the integer it stands for, and \<open>fl\<close> rounds
  an integer to the nearest float64 (53 significant bits, ties to even); a value below
  \<open>2 ^ 53\<close> is its own float64. An int is at most \<open>2 ^ 63\<close>, so no value comes near the largest
  float64. What converting a float64 outside the range of int64 gives is left to the
  platform by the language: it is the argument \<open>f2i\<close>.
\<close>

fun bit_length :: "nat \<Rightarrow> nat" where
  "bit_length n = (if n = 0 then 0 else Suc (bit_length (n div 2)))"

declare bit_length.simps [simp del]

definition fl_nat :: "nat \<Rightarrow> nat" where
  "fl_nat m =
     (if m < 2 ^ 53 then m
      else let e = bit_length m - 53; q = m div 2 ^ e; r = m mod 2 ^ e; h = 2 ^ (e - 1) in
        (if h < r \<or> r = h \<and> odd q then q + 1 else q) * 2 ^ e)"

definition fl :: "int \<Rightarrow> int" where
  "fl n = sgn n * int (fl_nat (nat \<bar>n\<bar>))"

text \<open>\<open>math.Pow(x, 4)\<close> squares twice.\<close>

definition pow4 :: "int \<Rightarrow> int" where
  "pow4 x = (let x2 = fl (x * x) in fl (x2 * x2))"

definition int64 :: "(int \<Rightarrow> int) \<Rightarrow> int \<Rightarrow> int" where
  "int64 f2i x = (if - (2 ^ 63) \<le> x \<and> x < 2 ^ 63 then x else f2i x)"

text \<open>\<open>r\<close> is the value drawn by \<open>rand.Intn(30)\<close>.\<close>

definition NextDelay :: "(int \<Rightarrow> int) \<Rightarrow> int \<Rightarrow> int \<Rightarrow> duration" where
  "NextDelay f2i r attempt =
     (let base = fl (pow4 (fl attempt) + 15);
          jitter = fl (fl r * fl (wrap64 (attempt + 1)));
          seconds = fl (base + jitter)
      in wrap64 (int64 f2i seconds * Second))"

section \<open>Exactness\<close>

lemma fl_small: "\<bar>n\<bar> < 2 ^ 53 \<Longrightarrow> fl n = n"
proof -
  assume n: "\<bar>n\<bar> < 2 ^ 53"
  then have "nat \<bar>n\<bar> < 2 ^ 53" by (simp add: nat_less_iff)
  then have "fl_nat (nat \<bar>n\<bar>) = nat \<bar>n\<bar>" by (simp add: fl_nat_def)
  then show "fl n = n" by (simp add: fl_def sgn_mult_abs)
qed

text \<open>The formula of the comment, as an exact number of seconds.\<close>

definition backoff_seconds :: "int \<Rightarrow> int \<Rightarrow> int" where
  "backoff_seconds r attempt = attempt ^ 4 + 15 + r * (attempt + 1)"

lemma backoff_bounds:
  assumes "0 \<le> a" "a \<le> 9000" "0 \<le> r" "r < 30"
  shows "15 \<le> backoff_seconds r a" "backoff_seconds r a < 2 ^ 53" "a ^ 4 < 2 ^ 53 - 16"
    "r * (a + 1) \<le> 29 * (a + 1)"
proof -
  have a4: "a ^ 4 \<le> 9000 ^ 4" using assms by (intro power_mono) auto
  have rm: "r * (a + 1) \<le> 29 * (a + 1)" using assms by (intro mult_right_mono) auto
  moreover have "0 \<le> r * (a + 1)" using assms by simp
  ultimately show "15 \<le> backoff_seconds r a" "backoff_seconds r a < 2 ^ 53" "a ^ 4 < 2 ^ 53 - 16"
    "r * (a + 1) \<le> 29 * (a + 1)"
    using a4 assms by (simp_all add: backoff_seconds_def)
qed

lemma NextDelay_exact:
  assumes "0 \<le> a" "a \<le> 9000" "0 \<le> r" "r < 30"
  shows "NextDelay f2i r a = wrap64 (backoff_seconds r a * Second)"
proof -
  note B = backoff_bounds [OF assms]
  have a2: "a * a \<le> 9000 * 9000" using assms by (intro mult_mono) auto
  have "0 \<le> a * a" "0 \<le> a ^ 4" "0 \<le> r * (a + 1)" using assms by simp_all
  moreover have "a * a * (a * a) = a ^ 4" by (simp add: eval_nat_numeral)
  ultimately have "pow4 a = a ^ 4" using a2 B by (simp add: pow4_def Let_def fl_small)
  moreover have "wrap64 (a + 1) = a + 1" using assms by (intro wrap64_id) auto
  moreover have "r * (a + 1) < 2 ^ 53" using B(4) assms by simp
  ultimately show ?thesis
    using assms B \<open>0 \<le> a ^ 4\<close> \<open>0 \<le> r * (a + 1)\<close>
    by (simp add: NextDelay_def Let_def fl_small int64_def backoff_seconds_def)
qed

section \<open>Properties\<close>

text \<open>
  Up to the 309th attempt the delay is exactly \<open>attempt^4 + 15\<close> seconds plus \<open>r\<close> times
  \<open>attempt + 1\<close> seconds: no rounding in float64, no overflow of the 64-bit duration; so it is
  at least 15 seconds and at most \<open>attempt^4 + 15 + 29 * (attempt + 1)\<close> seconds, on
  every platform.
\<close>

lemma NextDelay_window:
  assumes "0 \<le> attempt" "attempt \<le> 309" "0 \<le> r" "r < 30"
  shows "NextDelay f2i r attempt = (attempt ^ 4 + 15 + r * (attempt + 1)) * Second
    \<and> 15 * Second \<le> NextDelay f2i r attempt
    \<and> NextDelay f2i r attempt \<le> (attempt ^ 4 + 15 + 29 * (attempt + 1)) * Second"
proof -
  note B = backoff_bounds [of attempt r]
  have "attempt ^ 4 \<le> 309 ^ 4" using assms by (intro power_mono) auto
  then have "backoff_seconds r attempt \<le> 9116630366"
    using assms B(4) by (simp add: backoff_seconds_def)
  then have "NextDelay f2i r attempt = backoff_seconds r attempt * Second"
    using assms B(1) by (simp add: NextDelay_exact Second_def wrap64_id)
  then show ?thesis using assms B(1,4) by (simp add: backoff_seconds_def Second_def)
qed

text \<open>From the third attempt on the delays grow strictly whatever the jitter: the longest delay
  after attempt \<open>a\<close> is shorter than the shortest delay after attempt \<open>a + 1\<close>.\<close>

lemma NextDelay_grows:
  assumes "3 \<le> a" "a \<le> 308" "0 \<le> r" "r < 30" "0 \<le> r'" "r' < 30"
  shows "NextDelay f2i r a < NextDelay f2i r' (a + 1)"
proof -
  note B = backoff_bounds [of a r] backoff_bounds [of "a + 1" r']
  have "(a + 1) ^ 4 \<le> 309 ^ 4" using assms by (intro power_mono) auto
  then have le: "backoff_seconds r' (a + 1) \<le> 9116630366"
    using assms B(8) by (simp add: backoff_seconds_def)
  have a2: "3 * a \<le> a * a" using assms by (intro mult_right_mono) auto
  have "3 * (3 * a) \<le> a * (a * a)" using assms a2 by (intro mult_mono) auto
  moreover have "29 * (a + 1) < 4 * y + 6 * x + 4 * a + 1" if "3 * (3 * a) \<le> y" "3 * a \<le> x" for x y
    using that assms by (simp add: algebra_simps)
  ultimately have "29 * (a + 1) < 4 * (a * (a * a)) + 6 * (a * a) + 4 * a + 1" using a2 by blast
  moreover have "(a + 1) ^ 4 = a ^ 4 + (4 * (a * (a * a)) + 6 * (a * a) + 4 * a + 1)"
    by (simp add: eval_nat_numeral algebra_simps)
  ultimately have "a ^ 4 + 29 * (a + 1) < (a + 1) ^ 4" by simp
  moreover have "r * (a + 1) \<le> 29 * (a + 1)" "0 \<le> r' * (a + 1 + 1)" using assms B(4) by simp_all
  ultimately have "backoff_seconds r a < backoff_seconds r' (a + 1)"
    unfolding backoff_seconds_def by linarith
  then show ?thesis
    using assms B(1,5) le by (simp add: NextDelay_exact Second_def wrap64_id)
qed

text \<open>
  From the 310th to the 368th attempt the number of seconds does not fit a 64-bit number of
  nanoseconds: the product wraps around and the delay is negative, so the job is due
  again at once.
\<close>

lemma NextDelay_overflow:
  assumes "310 \<le> attempt" "attempt \<le> 368" "0 \<le> r" "r < 30"
  shows "NextDelay f2i r attempt < 0"
proof -
  note B = backoff_bounds [of attempt r]
  have "attempt ^ 4 \<le> 18339659776" "9235210000 \<le> attempt ^ 4"
    using assms power_mono [of attempt 368 4] power_mono [of 310 attempt 4] by simp_all
  moreover have "0 \<le> r * (attempt + 1)" "r * (attempt + 1) \<le> 10701"
    using assms B(4) by simp_all
  ultimately have b: "9235210015 \<le> backoff_seconds r attempt" "backoff_seconds r attempt \<le> 18339670492"
    unfolding backoff_seconds_def by linarith+
  have "wrap64 (backoff_seconds r attempt * Second) = backoff_seconds r attempt * Second - 2 ^ 64"
    using b by (intro wrap64_over) (simp_all add: Second_def)
  with b assms show ?thesis by (simp add: NextDelay_exact Second_def)
qed

text \<open>
  C19. The retry delay. Up to the 309th attempt it is exactly \<open>attempt^4 + 15\<close> seconds plus \<open>r\<close> times \<open>attempt + 1\<close> seconds,
  with no rounding in float64 and no overflow of the 64-bit duration; so it is at least 15 seconds and at most
  \<open>attempt^4 + 15 + 29 * (attempt + 1)\<close> seconds, on every platform. From the 310th to the 368th attempt the number of
  nanoseconds wraps around: the delay is negative, and the job is due again at once.
\<close>

theorem NextDelay_bounds:
  assumes "0 \<le> attempt" "attempt \<le> 368" "0 \<le> r" "r < 30"
  shows "if attempt \<le> 309 then NextDelay f2i r attempt = (attempt ^ 4 + 15 + r * (attempt + 1)) * Second
      \<and> 15 * Second \<le> NextDelay f2i r attempt
      \<and> NextDelay f2i r attempt \<le> (attempt ^ 4 + 15 + 29 * (attempt + 1)) * Second
    else NextDelay f2i r attempt < 0"
proof (cases "attempt \<le> 309")
  case True
  then show ?thesis unfolding if_P [OF True] by (rule NextDelay_window [OF assms(1) _ assms(3,4)])
qed (use NextDelay_overflow [of attempt r f2i] assms in simp)

theorem NextDelay_bounds_witness:
  "NextDelay (\<lambda>_. 0) 7 3 = (3 ^ 4 + 15 + 7 * (3 + 1)) * Second \<and> NextDelay (\<lambda>_. 0) 0 310 < 0"
  using NextDelay_bounds [of 3 7 "\<lambda>_. 0"] NextDelay_bounds [of 310 0 "\<lambda>_. 0"] by simp

end
