(* ===== verification/Worker.thy ===== *)
theory Worker
  imports Middleware Broker_Contract Retry
begin

text \<open>
  The worker pool: \<open>internal/worker\<close>. A step of a worker changes the process it runs in and the
  broker; the state is the pair of both. The calls that record an outcome use a context
  of their own, so their only failures are those of the broker.
\<close>

section \<open>Registry\<close>

type_synonym 'u Registry = "string \<rightharpoonup> 'u Handler"

definition NewRegistry :: "'u Registry" where
  "NewRegistry = Map.empty"

definition Register :: "'u Registry \<Rightarrow> string \<Rightarrow> 'u Handler \<Rightarrow> 'u Registry" where
  "Register r jobType h = r(jobType \<mapsto> h)"

definition Registry_Get :: "'u Registry \<Rightarrow> string \<Rightarrow> 'u Handler option" where
  "Registry_Get r jobType = r jobType"

section \<open>Pool\<close>

text \<open>The channel of the pool has its capacity here and its contents in the state of the server.\<close>

record ('s, 'u) Pool =
  chanCap :: nat
  numWorkers :: int
  registry :: "'u Registry"
  pbroker :: "'s broker"
  middleware :: "'u Middleware list"

text \<open>Making a channel with a negative capacity panics (\<open>None\<close>).\<close>

definition NewPool :: "int \<Rightarrow> int \<Rightarrow> 'u Registry \<Rightarrow> 's broker \<Rightarrow> ('s, 'u) Pool option" where
  "NewPool n bufferSize r b =
     (if bufferSize < 0 then None
      else Some \<lparr>chanCap = nat bufferSize, numWorkers = n, registry = r, pbroker = b,
        middleware = [LoggingMiddleware]\<rparr>)"

definition Pool_Use :: "('s, 'u) Pool \<Rightarrow> 'u Middleware list \<Rightarrow> ('s, 'u) Pool" where
  "Pool_Use p mws = p\<lparr>middleware := middleware p @ mws\<rparr>"

definition on_host :: "('u host, 'a) state \<Rightarrow> ('u host \<times> 's, 'a) state" where
  "on_host m = State (\<lambda>(h, s). let (r, h') = run_state m h in (r, (h', s)))"

definition on_broker :: "('s, 'a) state \<Rightarrow> ('u host \<times> 's, 'a) state" where
  "on_broker m = State (\<lambda>(h, s). let (r, s') = run_state m s in (r, (h, s')))"

definition runHandler :: "Context \<Rightarrow> 'u Handler \<Rightarrow> Job \<Rightarrow> ('u host, goerr option \<times> Job) state" where
  "runHandler ctx handler job = do {
     r \<leftarrow> handler ctx job;
     State_Monad.return (case r of
         (Panicked v st, job') \<Rightarrow> (Some (panic_error v st), job')
       | (Returned err, job') \<Rightarrow> (err, job')) }"

definition failed_call :: "string \<Rightarrow> Job \<Rightarrow> goerr \<Rightarrow> ('u host, unit) state" where
  "failed_call m job err = slog ''ERROR'' m [(''job_id'', VStr (ID job)), (''error'', VErr (Some err))]"

definition acknowledge :: "('s, 'u) Pool \<Rightarrow> Job \<Rightarrow> ('u host \<times> 's, unit) state" where
  "acknowledge p job = do {
     r \<leftarrow> on_broker (Acknowledge (pbroker p) job);
     (case r of
        Inl err \<Rightarrow> on_host (failed_call ''acknowledge failed'' job err)
      | Inr _ \<Rightarrow> State_Monad.return ()) }"

definition deadLetter :: "('s, 'u) Pool \<Rightarrow> Job \<Rightarrow> ('u host \<times> 's, unit) state" where
  "deadLetter p job = do {
     r \<leftarrow> on_broker (MoveToDeadLetter (pbroker p) job);
     (case r of
        (Inl err, job') \<Rightarrow> on_host (failed_call ''move to dead letter failed'' job' err)
      | (Inr _, job') \<Rightarrow> State_Monad.return ()) }"

text \<open>\<open>f2i\<close> is the platform's conversion of large float64 numbers.\<close>

definition fail :: "(int \<Rightarrow> int) \<Rightarrow> ('s, 'u) Pool \<Rightarrow> Job \<Rightarrow> ('u host \<times> 's, unit) state" where
  "fail f2i p job0 =
     (let job1 = job0\<lparr>Attempts := wrap64 (Attempts job0 + 1)\<rparr> in
      if MaxAttempts job1 \<le> Attempts job1
      then deadLetter p (job1\<lparr>Status := StatusDead\<rparr>)
      else do {
        let job = job1\<lparr>Status := StatusRetry\<rparr>;
        n \<leftarrow> on_host (rand_Intn 30);
        let delay = NextDelay f2i n (Attempts job);
        r \<leftarrow> on_broker (Requeue (pbroker p) job delay);
        (case r of
           Inl err \<Rightarrow> on_host (failed_call ''requeue failed'' job err)
         | Inr _ \<Rightarrow> State_Monad.return ()) })"

definition no_handler :: "Job \<Rightarrow> Job" where
  "no_handler job = job\<lparr>LastError := ''no handler registered for job type '' @ go_quote (Type job),
     Status := StatusDead\<rparr>"

definition process :: "(int \<Rightarrow> int) \<Rightarrow> ('s, 'u) Pool \<Rightarrow> Context \<Rightarrow> Job \<Rightarrow> ('u host \<times> 's, unit) state" where
  "process f2i p ctx job =
     (case Registry_Get (registry p) (Type job) of
        None \<Rightarrow> deadLetter p (no_handler job)
      | Some handler \<Rightarrow> do {
          r \<leftarrow> on_host (runHandler ctx (Chain handler (middleware p)) job);
          (case r of
             (Some err, job') \<Rightarrow> fail f2i p (job'\<lparr>LastError := Error err\<rparr>)
           | (None, job') \<Rightarrow> acknowledge p job') })"

section \<open>A job in two steps\<close>

text \<open>Processing a job is a step of the process, which ends with the decision what to record, and
  the call of the broker that records it.\<close>

datatype action = Ack Job | Retry_In Job duration | Bury Job

definition fail_action :: "(int \<Rightarrow> int) \<Rightarrow> Job \<Rightarrow> ('u host, action) state" where
  "fail_action f2i job0 =
     (let job1 = job0\<lparr>Attempts := wrap64 (Attempts job0 + 1)\<rparr> in
      if MaxAttempts job1 \<le> Attempts job1 then State_Monad.return (Bury (job1\<lparr>Status := StatusDead\<rparr>))
      else do {
        n \<leftarrow> rand_Intn 30;
        State_Monad.return (Retry_In (job1\<lparr>Status := StatusRetry\<rparr>) (NextDelay f2i n (Attempts job1))) })"

definition run_job :: "(int \<Rightarrow> int) \<Rightarrow> ('s, 'u) Pool \<Rightarrow> Context \<Rightarrow> Job \<Rightarrow> ('u host, action) state" where
  "run_job f2i p ctx job =
     (case Registry_Get (registry p) (Type job) of
        None \<Rightarrow> State_Monad.return (Bury (no_handler job))
      | Some handler \<Rightarrow> do {
          r \<leftarrow> runHandler ctx (Chain handler (middleware p)) job;
          (case r of
             (Some err, job') \<Rightarrow> fail_action f2i (job'\<lparr>LastError := Error err\<rparr>)
           | (None, job') \<Rightarrow> State_Monad.return (Ack job')) })"

fun record_action :: "('s, 'u) Pool \<Rightarrow> action \<Rightarrow> ('u host \<times> 's, unit) state" where
  "record_action p (Ack job) = acknowledge p job"
| "record_action p (Bury job) = deadLetter p job"
| "record_action p (Retry_In job delay) = do {
     r \<leftarrow> on_broker (Requeue (pbroker p) job delay);
     (case r of
        Inl err \<Rightarrow> on_host (failed_call ''requeue failed'' job err)
      | Inr _ \<Rightarrow> State_Monad.return ()) }"

lemma run_on_host [simp]: "run_state (on_host m) (h, s) = (let (r, h') = run_state m h in (r, (h', s)))"
  by (simp add: on_host_def)

lemma run_on_broker [simp]: "run_state (on_broker m) (h, s) = (let (r, s') = run_state m s in (r, (h, s')))"
  by (simp add: on_broker_def)

lemma fail_split: "run_state (fail f2i p job) x =
    run_state (do { a \<leftarrow> on_host (fail_action f2i job); record_action p a }) x"
  by (cases x) (simp add: fail_def fail_action_def Let_def split_beta)

lemma process_split: "run_state (process f2i p ctx job) x =
    run_state (do { a \<leftarrow> on_host (run_job f2i p ctx job); record_action p a }) x"
  by (cases x) (simp add: process_def run_job_def fail_split Let_def split_beta
      split: option.split prod.split)

end
