(* ===== verification/Dispatcher.thy ===== *)
theory Dispatcher
  imports Worker
begin

text \<open>
  The poll schedule of \<open>internal/dispatcher\<close> and the loops of the dispatcher and of
  \<open>internal/scheduler\<close>. Each loop is a small machine: its states are the points at which it calls
  the broker, waits or has returned; \<open>dispatcher_step\<close> and \<open>scheduler_step\<close> are what it does
  next.
\<close>

section \<open>Poll schedule\<close>

record QueueConfig =
  Name :: string
  Weight :: int

fun push_weight :: "string \<Rightarrow> nat \<Rightarrow> string list \<Rightarrow> string list" where
  "push_weight n 0 sch = sch"
| "push_weight n (Suc w) sch = push_weight n w (sch @ [n])"

fun schedule_loop :: "QueueConfig list \<Rightarrow> string list \<Rightarrow> string list" where
  "schedule_loop [] sch = sch"
| "schedule_loop (q # qs) sch = schedule_loop qs (push_weight (Name q) (nat (Weight q)) sch)"

definition buildPollSchedule :: "QueueConfig list \<Rightarrow> string list" where
  "buildPollSchedule queues = schedule_loop queues []"

lemma push_weight_append: "push_weight n w sch = sch @ replicate w n"
  by (induction w arbitrary: sch) (simp_all add: replicate_append_same)

lemma schedule_loop_append:
  "schedule_loop qs sch = sch @ concat (map (\<lambda>q. replicate (nat (Weight q)) (Name q)) qs)"
  by (induction qs arbitrary: sch) (simp_all add: push_weight_append)

lemma buildPollSchedule_concat:
  "buildPollSchedule qs = concat (map (\<lambda>q. replicate (nat (Weight q)) (Name q)) qs)"
  by (simp add: buildPollSchedule_def schedule_loop_append)

text \<open>The queue polled with the counter \<open>idx\<close>. Go's remainder has the sign of the dividend; a negative
  index panics.\<close>

definition go_rem :: "int \<Rightarrow> int \<Rightarrow> int" where
  "go_rem a b = sgn a * (\<bar>a\<bar> mod \<bar>b\<bar>)"

definition poll_queue :: "string list \<Rightarrow> int \<Rightarrow> string option" where
  "poll_queue schedule idx =
     (let i = go_rem idx (int (length schedule)) in
      if i < 0 then None else Some (schedule ! nat i))"

section \<open>The dispatcher's loop\<close>

text \<open>\<open>DPoll idx\<close>: at the top of the loop; \<open>DFail idx e\<close>: \<open>Dequeue\<close> has returned an error;
  \<open>DSleep idx\<close>: in \<open>sleep\<close>; \<open>DSubmit idx j\<close>: in \<open>Submit\<close>.\<close>

datatype dstate = DPoll int | DFail int string goerr | DSleep int | DSubmit int Job | DStopped | DPanicked

definition dispatcher_start :: "string list \<Rightarrow> ('u host, dstate) state" where
  "dispatcher_start schedule =
     (if schedule = [] then do {
        _ \<leftarrow> slog ''ERROR'' ''dispatcher has no queues configured, nothing to poll'' [];
        State_Monad.return DStopped }
      else State_Monad.return (DPoll 0))"

text \<open>One step of the loop, up to the point where it waits for the pool; \<open>cancelled\<close> is whether the
  context is done.\<close>

fun dispatcher_step :: "'s broker \<Rightarrow> string list \<Rightarrow> bool \<Rightarrow> dstate \<Rightarrow> ('u host \<times> 's, dstate) state" where
  "dispatcher_step B schedule cancelled (DPoll idx) =
     (if cancelled then State_Monad.return DStopped
      else case poll_queue schedule idx of
        None \<Rightarrow> State_Monad.return DPanicked
      | Some queue \<Rightarrow> do {
          let idx' = wrap64 (idx + 1);
          r \<leftarrow> on_broker (Dequeue B [queue]);
          State_Monad.return (case r of
              Inl err \<Rightarrow> DFail idx' queue err
            | Inr None \<Rightarrow> DSleep idx'
            | Inr (Some job) \<Rightarrow> DSubmit idx' job) })"
| "dispatcher_step B schedule cancelled (DFail idx queue err) =
     (if cancelled then State_Monad.return DStopped
      else do {
        _ \<leftarrow> on_host (slog ''ERROR'' ''dequeue failed'' [(''queue'', VStr queue), (''error'', VErr (Some err))]);
        State_Monad.return (DSleep idx) })"
| "dispatcher_step B schedule cancelled (DSleep idx) = State_Monad.return (DPoll idx)"
| "dispatcher_step B schedule cancelled d = State_Monad.return d"

text \<open>\<open>Submit\<close> on the channel: \<open>None\<close> while it blocks. When the context is done and there is room
  either branch of the select may be taken; \<open>choice\<close> decides.\<close>

definition Submit :: "nat \<Rightarrow> bool \<Rightarrow> bool \<Rightarrow> Job list \<Rightarrow> Job \<Rightarrow> (goerr option \<times> Job list) option" where
  "Submit cap cancelled choice ch job =
     (if length ch < cap \<and> (\<not> cancelled \<or> choice) then Some (None, ch @ [job])
      else if cancelled then Some (Some (CtxErr ''context canceled''), ch)
      else None)"

section \<open>The scheduler's loop\<close>

datatype sstate = SWait | SFail goerr | SStopped | SPanicked

text \<open>\<open>NewTicker\<close> panics if the interval is not positive.\<close>

definition scheduler_start :: "duration \<Rightarrow> sstate" where
  "scheduler_start d = (if 0 < d then SWait else SPanicked)"

fun scheduler_step :: "'s broker \<Rightarrow> string list \<Rightarrow> bool \<Rightarrow> sstate \<Rightarrow> ('u host \<times> 's, sstate) state" where
  "scheduler_step B queues cancelled SWait = do {
     r \<leftarrow> on_broker (PromoteDueJobs B queues);
     (case r of
        (n, Some err) \<Rightarrow> State_Monad.return (SFail err)
      | (n, None) \<Rightarrow>
          if 0 < n then do {
            _ \<leftarrow> on_host (slog ''INFO'' ''promoted due jobs'' [(''count'', VInt n)]);
            State_Monad.return SWait }
          else State_Monad.return SWait) }"
| "scheduler_step B queues cancelled (SFail err) =
     (if cancelled then State_Monad.return SStopped
      else do {
        _ \<leftarrow> on_host (slog ''ERROR'' ''promote due jobs failed'' [(''error'', VErr (Some err))]);
        State_Monad.return SWait })"
| "scheduler_step B queues cancelled t = State_Monad.return t"

section \<open>Properties of the schedule\<close>

lemma count_list_replicate: "count_list (replicate n x) y = (if y = x then n else 0)"
  by (induction n) auto

lemma schedule_count:
  "count_list (buildPollSchedule qs) n = (\<Sum>q \<leftarrow> qs. if Name q = n then nat (Weight q) else 0)"
  by (induction qs) (auto simp: buildPollSchedule_concat count_list_append count_list_replicate)

lemma poll_queue_nonneg:
  assumes "schedule \<noteq> []"
  shows "poll_queue schedule (int k) = Some (schedule ! (k mod length schedule))"
  using assms by (cases "k = 0") (simp_all add: poll_queue_def go_rem_def Let_def zmod_int [symmetric])

text \<open>In every round of \<open>n\<close> consecutive numbers each remainder occurs.\<close>

lemma mod_window: "i < n \<Longrightarrow> \<exists>k. m \<le> k \<and> k < m + n \<and> k mod n = (i :: nat)"
proof -
  assume i: "i < n"
  let ?k = "m + (i + (n - m mod n)) mod n"
  have "?k mod n = (m mod n + (i + (n - m mod n))) mod n" by (simp add: mod_simps)
  also have "m mod n + (i + (n - m mod n)) = i + n"
  proof -
    have "m mod n < n" using i by (intro mod_less_divisor) simp
    then show ?thesis by linarith
  qed
  finally have "?k mod n = i" using i by simp
  then show ?thesis using i mod_less_divisor [of n "i + (n - m mod n)"] by (intro exI [of _ ?k]) simp
qed

lemma no_queue_starves:
  assumes "q \<in> set qs" "0 < Weight q"
  shows "\<exists>k. m \<le> k \<and> k < m + length (buildPollSchedule qs)
    \<and> poll_queue (buildPollSchedule qs) (int k) = Some (Name q)"
proof -
  let ?s = "buildPollSchedule qs"
  have "Name q \<in> set ?s" using assms by (auto simp: buildPollSchedule_concat)
  then obtain i where i: "i < length ?s" "?s ! i = Name q" by (auto simp: in_set_conv_nth)
  then obtain k where "m \<le> k" "k < m + length ?s" "k mod length ?s = i" using mod_window by blast
  moreover have "?s \<noteq> []" using i by auto
  ultimately show ?thesis using i by (intro exI [of _ k]) (simp add: poll_queue_nonneg)
qed

text \<open>Each remainder occurs exactly once in such a round.\<close>

lemma mod_window_inj: "inj_on (\<lambda>k. k mod n) {m..<m + n :: nat}"
proof (rule linorder_inj_onI)
  fix j k
  assume "j < k" "j \<in> {m..<m + n}" "k \<in> {m..<m + n}"
  then have "0 < k - j" "k - j < n" by auto
  then have "\<not> n dvd k - j" by (rule nat_dvd_not_less)
  then show "j mod n \<noteq> k mod n" using \<open>j < k\<close> mod_eq_dvd_iff_nat [of j k n] by (metis less_imp_le)
qed auto

lemma polls_in_window:
  "card {k \<in> {m..<m + length sch}. poll_queue sch (int k) = Some q} = count_list sch q"
proof (cases "sch = []")
  case False
  let ?K = "{k \<in> {m..<m + length sch}. poll_queue sch (int k) = Some q}"
  have im: "(\<lambda>k. k mod length sch) ` ?K = {i. i < length sch \<and> q = sch ! i}" (is "?f ` _ = ?I")
  proof
    show "?f ` ?K \<subseteq> ?I" using False by (auto simp: poll_queue_nonneg)
    show "?I \<subseteq> ?f ` ?K"
    proof
      fix i
      assume i: "i \<in> ?I"
      then obtain k where "m \<le> k" "k < m + length sch" "k mod length sch = i" using mod_window [of i "length sch" m] by auto
      with i False show "i \<in> ?f ` ?K" by (intro image_eqI [of _ _ k]) (simp_all add: poll_queue_nonneg)
    qed
  qed
  have "inj_on (\<lambda>k. k mod length sch) ?K" by (rule inj_on_subset [OF mod_window_inj]) auto
  from card_image [OF this] have "card ?K = card {i. i < length sch \<and> q = sch ! i}" unfolding im by (rule sym)
  then show ?thesis by (simp add: count_list_eq_length_filter length_filter_conv_card)
qed simp


section \<open>The structs\<close>

text \<open>A dispatcher and a scheduler with their configuration. The submitter of a dispatcher is the pool of
  its server.\<close>

record 's Dispatcher =
  dbroker :: "'s broker"
  schedule :: "string list"
  pollInterval :: duration

definition NewDispatcher :: "'s broker \<Rightarrow> QueueConfig list \<Rightarrow> duration \<Rightarrow> 's Dispatcher" where
  "NewDispatcher b qs poll = \<lparr>dbroker = b, schedule = buildPollSchedule qs, pollInterval = poll\<rparr>"

record 's Scheduler =
  sbroker :: "'s broker"
  schedQueues :: "string list"
  interval :: duration

definition NewScheduler :: "'s broker \<Rightarrow> string list \<Rightarrow> duration \<Rightarrow> 's Scheduler" where
  "NewScheduler b qs i = \<lparr>sbroker = b, schedQueues = qs, interval = i\<rparr>"

end
