(* ===== verification/Server.thy ===== *)
theory Server
  imports Dispatcher
begin

text \<open>
  \<open>pkg/client\<close>: the client that enqueues jobs, and the server that runs a pool, a dispatcher and a
  scheduler against one broker. A running server is a \<open>node\<close>: the states of its
  goroutines, the channel between dispatcher and workers, and whether its
  context is done; \<open>node_step\<close> interleaves the goroutines, one broker call
  at a time. \<open>cluster_step\<close> puts any number of servers and clients around one broker.
\<close>

section \<open>Client\<close>

record EnqueueOptions =
  oQueue :: string
  oIn :: duration
  oMaxAttempts :: int

text \<open>The constructor of a broker for an address is an argument: here, and where a program connects, it is the
  connection to Redis.\<close>

record ClientConfig =
  RedisAddr :: string

record 's Client =
  cbroker :: "'s broker"

definition NewClient :: "(string \<Rightarrow> 's broker) \<Rightarrow> ClientConfig \<Rightarrow> 's Client" where
  "NewClient NewRedisBroker cfg = \<lparr>cbroker = NewRedisBroker (RedisAddr cfg)\<rparr>"

definition Client_Enqueue ::
  "('p \<Rightarrow> goerr + string) \<Rightarrow> string \<Rightarrow> 's Client \<Rightarrow> string \<Rightarrow> 'p \<Rightarrow> EnqueueOptions list \<Rightarrow>
   ('u host \<times> 's, goerr + Job) state" where
  "Client_Enqueue mj uuid c jobType payload opts =
     (let queue = (case opts of o1 # _ \<Rightarrow> if oQueue o1 \<noteq> '''' then oQueue o1 else ''default'' | [] \<Rightarrow> ''default'');
          delay = (case opts of o1 # _ \<Rightarrow> oIn o1 | [] \<Rightarrow> 0);
          maxAttempts = (case opts of o1 # _ \<Rightarrow> oMaxAttempts o1 | [] \<Rightarrow> 0)
      in do {
        t1 \<leftarrow> on_host time_Now;
        t2 \<leftarrow> on_host time_Now;
        (case NewJob mj uuid t1 t2 queue jobType payload of
           Inl err \<Rightarrow> State_Monad.return (Inl (WrapError ''build job: '' err))
         | Inr job0 \<Rightarrow> do {
             job1 \<leftarrow> (if 0 < delay then do {
                        t \<leftarrow> on_host time_Now;
                        State_Monad.return (job0\<lparr>ProcessAt := t + delay\<rparr>) }
                      else State_Monad.return job0);
             let job = (if 0 < maxAttempts then job1\<lparr>MaxAttempts := maxAttempts\<rparr> else job1);
             r \<leftarrow> on_broker (Enqueue (cbroker c) job);
             State_Monad.return (case r of
                 Inl err \<Rightarrow> Inl (WrapError ''enqueue: '' err)
               | Inr _ \<Rightarrow> Inr job) }) })"

definition Client_Close :: "'s Client \<Rightarrow> ('u host \<times> 's, goerr + unit) state" where
  "Client_Close c = on_broker (Close (cbroker c))"

section \<open>Server\<close>

definition defaultPollInterval :: duration where
  "defaultPollInterval = 250 * Millisecond"

definition defaultSchedulerInterval :: duration where
  "defaultSchedulerInterval = 5 * Second"

text \<open>\<open>Queues\<close> is the map of the configuration as the range loop enumerates it.\<close>

record ServerConfig =
  Concurrency :: int
  Queues :: "(string \<times> int) list"
  BufferSize :: int
  PollInterval :: duration
  SchedulerInterval :: duration

text \<open>The registry and the broker of the \<open>Server\<close> struct are the ones its pool points to.\<close>

record ('s, 'u) Server =
  pool :: "('s, 'u) Pool"
  dispatcher :: "'s Dispatcher"
  scheduler :: "'s Scheduler"

definition NewServer :: "ServerConfig \<Rightarrow> 's broker \<Rightarrow> ('s, 'u) Server option" where
  "NewServer cfg b =
     (let bufferSize = (if BufferSize cfg = 0 then wrap64 (Concurrency cfg * 2) else BufferSize cfg);
          poll = (if PollInterval cfg = 0 then defaultPollInterval else PollInterval cfg);
          schedInt = (if SchedulerInterval cfg = 0 then defaultSchedulerInterval else SchedulerInterval cfg)
      in case NewPool (Concurrency cfg) bufferSize NewRegistry b of
           None \<Rightarrow> None
         | Some p \<Rightarrow> Some \<lparr>pool = p,
             dispatcher = NewDispatcher b (map (\<lambda>(n, w). \<lparr>Name = n, Weight = w\<rparr>) (Queues cfg)) poll,
             scheduler = NewScheduler b (map fst (Queues cfg)) schedInt\<rparr>)"

definition Server_Register :: "('s, 'u) Server \<Rightarrow> string \<Rightarrow> 'u Handler \<Rightarrow> ('s, 'u) Server" where
  "Server_Register srv jobType h = srv\<lparr>pool := (pool srv)\<lparr>registry := Register (registry (pool srv)) jobType h\<rparr>\<rparr>"

definition Server_Use :: "('s, 'u) Server \<Rightarrow> 'u Middleware list \<Rightarrow> ('s, 'u) Server" where
  "Server_Use srv mws = srv\<lparr>pool := Pool_Use (pool srv) mws\<rparr>"

section \<open>A running server\<close>

datatype wstate = Idle | Busy Job | Recording action | Exited

text \<open>\<open>Start\<close> launches the workers, each waiting in the select of \<open>runWorker\<close>; \<open>Stop\<close> returns once all have
  exited.\<close>

definition Pool_Start :: "('s, 'u) Pool \<Rightarrow> wstate list" where
  "Pool_Start p = replicate (nat (numWorkers p)) Idle"

definition Pool_Stop :: "wstate list \<Rightarrow> bool" where
  "Pool_Stop l \<longleftrightarrow> list_all (\<lambda>x. x = Exited) l"

text \<open>The end of \<open>Run\<close>, after the pool has stopped.\<close>

definition close_broker :: "'s broker \<Rightarrow> ('u host \<times> 's, unit) state" where
  "close_broker b = do {
     r \<leftarrow> on_broker (Close b);
     (case r of
        Inl err \<Rightarrow> on_host (slog ''ERROR'' ''broker close failed'' [(''error'', VErr (Some err))])
      | Inr _ \<Rightarrow> State_Monad.return ()) }"

text \<open>Where \<open>Run\<close> is: serving or waiting for the dispatcher and the scheduler, waiting for the pool,
  or done; \<open>Killed\<close> when the process was killed.\<close>

datatype mainpc = Serving | Stopping | Closed | Killed

record 'u node =
  nhost :: "'u host"
  dst :: dstate
  sst :: sstate
  jobCh :: "Job list"
  ws :: "wstate list"
  main :: mainpc
  cancelled :: bool

definition Server_start :: "('s, 'u) Server \<Rightarrow> 'u host \<Rightarrow> 'u node" where
  "Server_start srv h =
     (let (d, h') = run_state (dispatcher_start (schedule (dispatcher srv))) h in
      \<lparr>nhost = h', dst = d, sst = scheduler_start (interval (scheduler srv)), jobCh = [],
       ws = Pool_Start (pool srv), main = Serving, cancelled = False\<rparr>)"

text \<open>What a step did, as far as the jobs are concerned. A panic in the goroutine of the dispatcher or of the
  scheduler ends the process: \<open>kill\<close>, which may come at any time, is that too.\<close>

datatype event = Tau | Dispatched | Ran Job action | Recorded action | Enqueued Job | Deleted string

inductive node_step ::
  "(int \<Rightarrow> int) \<Rightarrow> ('s, 'u) Server \<Rightarrow> 'u node \<times> 's \<Rightarrow> event \<Rightarrow> 'u node \<times> 's \<Rightarrow> bool"
  for f2i :: "int \<Rightarrow> int" and srv :: "('s, 'u) Server" where
  cancel: "node_step f2i srv (nd, s) Tau (nd\<lparr>cancelled := True\<rparr>, s)"
| kill: "node_step f2i srv (nd, s) Tau
    (nd\<lparr>dst := DStopped, sst := SStopped, jobCh := [], ws := map (\<lambda>_. Exited) (ws nd), main := Killed\<rparr>, s)"
| dispatch: "main nd \<noteq> Killed \<Longrightarrow>
    run_state (dispatcher_step (dbroker (dispatcher srv)) (schedule (dispatcher srv)) (cancelled nd) (dst nd)) (nhost nd, s)
      = (d, (h, s')) \<Longrightarrow>
    node_step f2i srv (nd, s) Dispatched (nd\<lparr>dst := d, nhost := h\<rparr>, s')"
| submit: "dst nd = DSubmit idx job \<Longrightarrow>
    Submit (chanCap (pool srv)) (cancelled nd) choice (jobCh nd) job = Some (None, ch) \<Longrightarrow>
    node_step f2i srv (nd, s) Tau (nd\<lparr>dst := DPoll idx, jobCh := ch\<rparr>, s)"
| handoff: "dst nd = DSubmit idx job \<Longrightarrow> jobCh nd = [] \<Longrightarrow> k < length (ws nd) \<Longrightarrow> ws nd ! k = Idle \<Longrightarrow>
    node_step f2i srv (nd, s) Tau (nd\<lparr>dst := DPoll idx, ws := (ws nd)[k := Busy job]\<rparr>, s)"
| submit_err: "dst nd = DSubmit idx job \<Longrightarrow>
    Submit (chanCap (pool srv)) (cancelled nd) choice (jobCh nd) job = Some (Some err, ch) \<Longrightarrow>
    node_step f2i srv (nd, s) Tau (nd\<lparr>dst := DStopped\<rparr>, s)"
| promote: "sst nd \<noteq> SStopped \<Longrightarrow>
    run_state (scheduler_step (sbroker (scheduler srv)) (schedQueues (scheduler srv)) (cancelled nd) (sst nd)) (nhost nd, s)
      = (t, (h, s')) \<Longrightarrow>
    node_step f2i srv (nd, s) Tau (nd\<lparr>sst := t, nhost := h\<rparr>, s')"
| schedule_exit: "sst nd = SWait \<Longrightarrow> cancelled nd \<Longrightarrow>
    node_step f2i srv (nd, s) Tau (nd\<lparr>sst := SStopped\<rparr>, s)"
| receive: "k < length (ws nd) \<Longrightarrow> ws nd ! k = Idle \<Longrightarrow> jobCh nd = job # ch \<Longrightarrow>
    node_step f2i srv (nd, s) Tau (nd\<lparr>ws := (ws nd)[k := Busy job], jobCh := ch\<rparr>, s)"
| worker_exit: "k < length (ws nd) \<Longrightarrow> ws nd ! k = Idle \<Longrightarrow> cancelled nd \<Longrightarrow>
    node_step f2i srv (nd, s) Tau (nd\<lparr>ws := (ws nd)[k := Exited]\<rparr>, s)"
| ran: "k < length (ws nd) \<Longrightarrow> ws nd ! k = Busy job \<Longrightarrow>
    run_state (run_job f2i (pool srv) ctx job) (nhost nd) = (a, h) \<Longrightarrow>
    node_step f2i srv (nd, s) (Ran job a) (nd\<lparr>ws := (ws nd)[k := Recording a], nhost := h\<rparr>, s)"
| recorded: "k < length (ws nd) \<Longrightarrow> ws nd ! k = Recording a \<Longrightarrow>
    run_state (record_action (pool srv) a) (nhost nd, s) = (u, (h, s')) \<Longrightarrow>
    node_step f2i srv (nd, s) (Recorded a) (nd\<lparr>ws := (ws nd)[k := Idle], nhost := h\<rparr>, s')"
| main_stop: "main nd = Serving \<Longrightarrow> cancelled nd \<Longrightarrow> dst nd = DStopped \<Longrightarrow> sst nd = SStopped \<Longrightarrow>
    node_step f2i srv (nd, s) Tau (nd\<lparr>main := Stopping\<rparr>, s)"
| main_close: "main nd = Stopping \<Longrightarrow> Pool_Stop (ws nd) \<Longrightarrow>
    run_state (close_broker (pbroker (pool srv))) (nhost nd, s) = (u, (h, s')) \<Longrightarrow>
    node_step f2i srv (nd, s) Tau (nd\<lparr>main := Closed, nhost := h\<rparr>, s')"

lemma close_broker_run:
  "\<exists>h'. run_state (close_broker b) (h, s) = ((), (h', snd (run_state (Close b) s)))"
  by (cases "fst (run_state (Close b) s)") (simp_all add: close_broker_def split_beta)

lemma Pool_Stop_iff [simp]: "Pool_Stop l \<longleftrightarrow> set l \<subseteq> {Exited}"
  by (auto simp: Pool_Stop_def list_all_iff)

text \<open>Servers with their configurations around one broker, and the calls of other clients: enqueuing a
  job under an identifier not in use, and what the dashboard offers, deletion of a job
  that no worker holds included. \<open>fresh\<close> says which jobs clients enqueue and \<open>free\<close> which
  jobs they delete.\<close>

type_synonym ('s, 'u) cluster = "(('s, 'u) Server \<times> 'u node) list \<times> 's"

inductive cluster_step ::
  "(int \<Rightarrow> int) \<Rightarrow> 's broker \<Rightarrow> ('s \<Rightarrow> Job \<Rightarrow> bool) \<Rightarrow> ('s \<Rightarrow> string \<Rightarrow> bool) \<Rightarrow>
   ('s, 'u) cluster \<Rightarrow> event \<Rightarrow> ('s, 'u) cluster \<Rightarrow> bool"
  for f2i :: "int \<Rightarrow> int" and B :: "'s broker" and fresh :: "'s \<Rightarrow> Job \<Rightarrow> bool" and free :: "'s \<Rightarrow> string \<Rightarrow> bool" where
  node: "k < length ns \<Longrightarrow> ns ! k = (srv, nd) \<Longrightarrow> node_step f2i srv (nd, s) ev (nd', s') \<Longrightarrow>
    cluster_step f2i B fresh free (ns, s) ev (ns[k := (srv, nd')], s')"
| enqueue: "fresh s job \<Longrightarrow> run_state (Enqueue B job) s = (r, s') \<Longrightarrow>
    cluster_step f2i B fresh free (ns, s) (Enqueued job) (ns, s')"
| delete: "free s i \<Longrightarrow> run_state (DeleteJob B i) s = (r, s') \<Longrightarrow>
    cluster_step f2i B fresh free (ns, s) (Deleted i) (ns, s')"
| retry: "run_state (RetryDeadJob B i) s = (r, s') \<Longrightarrow> cluster_step f2i B fresh free (ns, s) Tau (ns, s')"
| get: "run_state (GetJob B i) s = (g, s') \<Longrightarrow> cluster_step f2i B fresh free (ns, s) Tau (ns, s')"
| listing: "run_state (GetJobsByStatus B st n) s = (js, s') \<Longrightarrow> cluster_step f2i B fresh free (ns, s) Tau (ns, s')"
| stats: "run_state (GetQueueStats B) s = (m, s') \<Longrightarrow> cluster_step f2i B fresh free (ns, s) Tau (ns, s')"

text \<open>A run, with the list of its events.\<close>

inductive cluster_run ::
  "(int \<Rightarrow> int) \<Rightarrow> 's broker \<Rightarrow> ('s \<Rightarrow> Job \<Rightarrow> bool) \<Rightarrow> ('s \<Rightarrow> string \<Rightarrow> bool) \<Rightarrow>
   ('s, 'u) cluster \<Rightarrow> event list \<Rightarrow> ('s, 'u) cluster \<Rightarrow> bool"
  for f2i B fresh free c where
  start: "cluster_run f2i B fresh free c [] c"
| more: "cluster_run f2i B fresh free c evs d \<Longrightarrow> cluster_step f2i B fresh free d ev e \<Longrightarrow>
    cluster_run f2i B fresh free c (evs @ [ev]) e"

text \<open>The jobs a node holds: on their way to the channel, in the channel, or with a worker.\<close>

fun action_job :: "action \<Rightarrow> Job" where
  "action_job (Ack j) = j"
| "action_job (Retry_In j d) = j"
| "action_job (Bury j) = j"

fun wjobs :: "wstate \<Rightarrow> Job multiset" where
  "wjobs (Busy j) = {#j#}"
| "wjobs (Recording a) = {#action_job a#}"
| "wjobs _ = {#}"

fun djobs :: "dstate \<Rightarrow> Job multiset" where
  "djobs (DSubmit idx j) = {#j#}"
| "djobs _ = {#}"

definition node_jobs :: "'u node \<Rightarrow> Job multiset" where
  "node_jobs nd = djobs (dst nd) + mset (jobCh nd) + sum_list (map wjobs (ws nd))"

definition cluster_jobs :: "(('s, 'u) Server \<times> 'u node) list \<Rightarrow> Job multiset" where
  "cluster_jobs ns = sum_list (map (node_jobs \<circ> snd) ns)"

end
