(* ===== verification/Cluster.thy ===== *)
theory Cluster
  imports Server
begin

text \<open>
  What the clients of a broker make of its contract, proved once in the locale
  \<open>broker_contract\<close> for every broker that meets it: in a cluster of any number of servers, each
  interleaving its goroutines freely, no job is with two workers, and a job leaves the
  broker only when it was acknowledged after its handler succeeded, or deleted.
\<close>

section \<open>Handlers\<close>

text \<open>Handlers may write to the job they are passed, but leave its identity alone and keep it storable.\<close>

definition handlers_ok :: "(Job \<Rightarrow> bool) \<Rightarrow> ('s, 'u) Pool \<Rightarrow> bool" where
  "handlers_ok st p \<longleftrightarrow> (\<forall>t hd ctx job h. registry p t = Some hd \<longrightarrow> st job \<longrightarrow>
     (let j' = snd (fst (run_state (Chain hd (middleware p) ctx job) h)) in ID j' = ID job \<and> st j'))"

definition server_ok :: "'s broker \<Rightarrow> (Job \<Rightarrow> bool) \<Rightarrow> ('s, 'u) Server \<Rightarrow> bool" where
  "server_ok B st srv \<longleftrightarrow> pbroker (pool srv) = B \<and> dbroker (dispatcher srv) = B
     \<and> sbroker (scheduler srv) = B \<and> handlers_ok st (pool srv)"

text \<open>What a job's phase is once the outcome is recorded.\<close>

fun action_phase :: "action \<Rightarrow> phase" where
  "action_phase (Ack j) = Gone"
| "action_phase (Retry_In j d) = Queued"
| "action_phase (Bury j) = Buried"

lemma fail_action_cases:
  assumes "run_state (fail_action f2i job) h = (a, h')"
  shows "\<exists>st. action_job a = job\<lparr>Attempts := wrap64 (Attempts job + 1), Status := st\<rparr>"
  using assms by (auto simp: fail_action_def Let_def split_beta split: if_splits)

lemma fail_action_not_Ack: "run_state (fail_action f2i job) h \<noteq> (Ack j, h')"
  by (auto simp: fail_action_def Let_def split_beta split: if_splits)

lemma run_job_Ack:
  assumes "run_state (run_job f2i p ctx job) h = (Ack j', h')"
  shows "\<exists>hd. registry p (Type job) = Some hd
    \<and> run_state (Chain hd (middleware p) ctx job) h = ((Returned None, j'), h')"
proof (cases "registry p (Type job)")
  case (Some hd)
  obtain out j1 h1 where r: "run_state (Chain hd (middleware p) ctx job) h = ((out, j1), h1)"
    by (metis prod.exhaust)
  have "out = Returned None"
    using assms Some r
    by (cases out; cases "case out of Returned e \<Rightarrow> e | Panicked v st \<Rightarrow> None")
      (auto simp: run_job_def Registry_Get_def runHandler_def fail_action_not_Ack)
  with assms Some r show ?thesis by (auto simp: run_job_def Registry_Get_def runHandler_def)
qed (use assms in \<open>auto simp: run_job_def Registry_Get_def\<close>)

context broker_contract
begin

lemma storable_field:
  assumes "storable j"
  shows "storable (j\<lparr>LastError := e\<rparr>)" "storable (j\<lparr>Attempts := a, Status := st\<rparr>)"
    "storable (j\<lparr>LastError := e, Status := st\<rparr>)"
  using storable_upd [OF assms, where st = "Status j" and a = "Attempts j" and e = e]
    storable_upd [OF assms, where st = st and a = a and e = "LastError j"]
    storable_upd [OF assms, where st = st and a = "Attempts j" and e = e]
  by (cases j; simp)+

lemma fail_action_ok:
  assumes "storable job" "run_state (fail_action f2i job) h = (a, h')"
  shows "ID (action_job a) = ID job \<and> storable (action_job a)"
  using fail_action_cases [OF assms(2)] storable_field(2) [OF assms(1)] by fastforce

lemma run_job_ok:
  assumes "handlers_ok storable p" "storable job" "run_state (run_job f2i p ctx job) h = (a, h')"
  shows "ID (action_job a) = ID job \<and> storable (action_job a)"
proof (cases "registry p (Type job)")
  case None
  with assms(2,3) show ?thesis
    by (auto simp: run_job_def Registry_Get_def no_handler_def storable_field)
next
  case (Some hd)
  obtain out j1 h1 where r: "run_state (Chain hd (middleware p) ctx job) h = ((out, j1), h1)"
    by (metis prod.exhaust)
  have "ID j1 = ID job \<and> storable j1"
    using assms(1) [unfolded handlers_ok_def, rule_format, OF Some assms(2), of ctx h] r by (simp add: Let_def)
  then have j1: "ID j1 = ID job" "storable j1" by blast+
  show ?thesis
  proof (cases out)
    case (Returned err)
    with assms(3) Some r j1 fail_action_ok storable_field(1) show ?thesis
      by (cases err) (fastforce simp: run_job_def Registry_Get_def runHandler_def)+
  next
    case (Panicked v st)
    with assms(3) Some r j1 fail_action_ok storable_field(1) show ?thesis
      by (fastforce simp: run_job_def Registry_Get_def runHandler_def)
  qed
qed

lemma record_action_contract:
  assumes "inv s" "storable (action_job a)" "phase s (ID (action_job a)) = Running" "pbroker p = B"
    and run: "run_state (record_action p a) (h, s) = (u, (h', s'))"
  shows "inv s'" and "phase s' = phase s \<or> phase s' = (phase s)(ID (action_job a) := action_phase a)"
proof -
  have "inv s' \<and> (phase s' = phase s \<or> phase s' = (phase s)(ID (action_job a) := action_phase a))"
  proof (cases a)
    case (Ack j)
    obtain r t where r: "run_state (Acknowledge B j) s = (r, t)" by (cases "run_state (Acknowledge B j) s")
    with run Ack assms(4) have "s' = t" by (auto simp: acknowledge_def split: sum.splits prod.splits)
    with Ack assms Acknowledge_spec [OF _ _ r] show ?thesis by (auto simp: phase_change_def)
  next
    case (Retry_In j d)
    obtain r t where r: "run_state (Requeue B j d) s = (r, t)" by (cases "run_state (Requeue B j d) s")
    with run Retry_In assms(4) have "s' = t" by (auto split: sum.splits prod.splits)
    with Retry_In assms Requeue_spec [OF _ _ _ r] show ?thesis by (auto simp: phase_change_def)
  next
    case (Bury j)
    obtain r j' t where r: "run_state (MoveToDeadLetter B j) s = ((r, j'), t)" by (metis prod.exhaust)
    with run Bury assms(4) have "s' = t" by (auto simp: deadLetter_def split: sum.splits prod.splits)
    with Bury assms MoveToDeadLetter_spec [OF _ _ _ r] show ?thesis by (auto simp: phase_change_def)
  qed
  then show "inv s'" "phase s' = phase s \<or> phase s' = (phase s)(ID (action_job a) := action_phase a)"
    by blast+
qed

end

section \<open>Jobs held by a node\<close>

lemma sum_list_map_update:
  fixes f :: "'a \<Rightarrow> 'b::comm_monoid_add"
  shows "k < length l \<Longrightarrow> sum_list (map f (l[k := x])) + f (l ! k) = sum_list (map f l) + f x"
  by (induction l arbitrary: k) (auto simp: add_ac split: nat.splits)

lemma sum_wjobs_update:
  assumes "k < length l"
  shows "wjobs (l ! k) = {#} \<Longrightarrow> sum_list (map wjobs (l[k := x])) = sum_list (map wjobs l) + wjobs x"
    and "wjobs x = {#} \<Longrightarrow> sum_list (map wjobs l) = wjobs (l ! k) + sum_list (map wjobs (l[k := x]))"
  using sum_list_map_update [OF assms, of wjobs x] by (simp_all add: add_ac)

lemma sum_wjobs_exited: "sum_list (map (wjobs \<circ> (\<lambda>_. Exited)) l) = {#}"
  by (induction l) simp_all

definition ids :: "Job multiset \<Rightarrow> string multiset" where
  "ids J = image_mset ID J"

lemma ids_simps [simp]: "ids {#} = {#}" "ids (add_mset j J) = add_mset (ID j) (ids J)" "ids (J + K) = ids J + ids K"
  by (simp_all add: ids_def)

context broker_contract
begin

text \<open>What a step of a node may do to the jobs: leave them (or drop some), claim one, losing it if the
  reply is lost, or record the outcome of one it holds.\<close>

definition quiet :: "'s \<Rightarrow> 's \<Rightarrow> bool" where
  "quiet s s' \<longleftrightarrow> phase s' = phase s \<or> (\<exists>i. phase s i = Queued \<and> phase s' = (phase s)(i := Running))"

definition effect :: "event \<Rightarrow> Job multiset \<times> 's \<Rightarrow> Job multiset \<times> 's \<Rightarrow> bool" where
  "effect ev x y \<longleftrightarrow> (case (x, y) of ((J, s), (J', s')) \<Rightarrow>
     inv s' \<and> (\<forall>j \<in># J'. storable j) \<and>
     (ids J' \<subseteq># ids J \<and> quiet s s'
      \<or> (\<exists>i. phase s i = Queued \<and> phase s' = (phase s)(i := Running) \<and> ids J' = add_mset i (ids J))
      \<or> (\<exists>a. ev = Recorded a \<and> ids J = add_mset (ID (action_job a)) (ids J')
          \<and> (phase s' = phase s \<or> phase s' = (phase s)(ID (action_job a) := action_phase a)))))"

lemma effect_same: "inv s \<Longrightarrow> \<forall>j \<in># J'. storable j \<Longrightarrow> ids J' \<subseteq># ids J \<Longrightarrow> effect ev (J, s) (J', s)"
  by (simp add: effect_def quiet_def)

lemma dispatch_effect:
  assumes "inv s" "\<forall>j \<in># djobs d + J. storable j"
    and run: "run_state (dispatcher_step B sch c d) (h, s) = (d', (h', s'))"
  shows "effect Dispatched (djobs d + J, s) (djobs d' + J, s')"
proof (cases d)
  case (DPoll idx)
  show ?thesis
  proof (cases "c \<or> poll_queue sch idx = None")
    case True
    with run DPoll have "s' = s" "djobs d' = {#}" by (auto split: if_splits)
    with assms DPoll show ?thesis by (simp add: effect_same)
  next
    case False
    then obtain q where q: "poll_queue sch idx = Some q" "\<not> c" by auto
    obtain r t where r: "run_state (Dequeue B [q]) s = (r, t)" by (cases "run_state (Dequeue B [q]) s")
    have t: "s' = t" "d' = (case r of Inl err \<Rightarrow> DFail (wrap64 (idx + 1)) q err
        | Inr None \<Rightarrow> DSleep (wrap64 (idx + 1)) | Inr (Some job) \<Rightarrow> DSubmit (wrap64 (idx + 1)) job)"
      using run DPoll q r by (auto simp: Let_def)
    consider (err) e where "r = Inl e" | (none) "r = Inr None" | (some) j where "r = Inr (Some j)"
      by (cases r; cases "projr r") auto
    then show ?thesis
    proof cases
      case err
      with assms DPoll t Dequeue_err [of s "[q]" e t] r show ?thesis
        by (auto simp: effect_def quiet_def)
    next
      case none
      with assms DPoll t Dequeue_none [of s "[q]" t] r show ?thesis
        by (auto simp: effect_def quiet_def)
    next
      case some
      with assms DPoll t Dequeue_job [of s "[q]" j t] r show ?thesis
        by (auto simp: effect_def)
    qed
  qed
next
  case (DFail idx q err)
  with run have "s' = s" "djobs d' = {#}" by (auto split: if_splits prod.splits)
  with assms DFail show ?thesis by (simp add: effect_same)
qed (use run assms in \<open>auto simp: effect_same\<close>)

lemma scheduler_effect:
  assumes "inv s" "\<forall>j \<in># J. storable j"
    and run: "run_state (scheduler_step B qs c t) (h, s) = (t', (h', s'))"
  shows "effect ev (J, s) (J, s')"
proof (cases t)
  case SWait
  obtain r u where r: "run_state (PromoteDueJobs B qs) s = (r, u)" by (cases "run_state (PromoteDueJobs B qs) s")
  with run SWait have "s' = u" by (auto split: prod.splits option.splits if_splits)
  with PromoteDueJobs_spec [OF assms(1) r] assms(2) show ?thesis by (simp add: effect_def quiet_def)
qed (use run assms in \<open>auto simp: effect_same split: if_splits prod.splits\<close>)

lemma recorded_effect:
  assumes "inv s" "pbroker p = B" "storable (action_job a)" "phase s (ID (action_job a)) = Running" "\<forall>j \<in># J. storable j"
    and "run_state (record_action p a) (h, s) = (u, (h', s'))"
  shows "effect (Recorded a) (add_mset (action_job a) J, s) (J, s')"
  using record_action_contract [OF assms(1,3,4), of p] assms(2,5,6) by (auto simp: effect_def)

lemma close_effect:
  assumes "inv s" "\<forall>j \<in># J. storable j" "run_state (close_broker B) (h, s) = (u, (h', s'))"
  shows "effect ev (J, s) (J, s')"
proof -
  obtain r s1 where c: "run_state (Close B) s = (r, s1)" by (rule prod.exhaust)
  with assms(3) have "s' = s1" by (auto simp: close_broker_def split: sum.splits prod.splits)
  with Close_spec [OF assms(1) c] assms(2) show ?thesis by (simp add: effect_def quiet_def)
qed

lemma node_effect:
  assumes "node_step f2i srv (nd, s) ev (nd', s')" "inv s" "server_ok B storable srv"
    and jobs: "\<forall>j \<in># node_jobs nd. storable j \<and> phase s (ID j) = Running"
  shows "effect ev (node_jobs nd, s) (node_jobs nd', s')"
  using assms(1)
proof cases
  case (dispatch d h)
  with assms show ?thesis
    using dispatch_effect [of s "dst nd" "mset (jobCh nd) + sum_list (map wjobs (ws nd))"]
    by (simp add: node_jobs_def server_ok_def add.assoc)
next
  case (submit idx job choice ch)
  then have "ch = jobCh nd @ [job]" by (auto simp: Submit_def split: if_splits)
  with submit assms show ?thesis by (simp add: effect_same node_jobs_def)
next
  case (promote t h)
  with assms show ?thesis by (simp add: scheduler_effect node_jobs_def server_ok_def)
next
  case (ran k job ctx a h)
  let ?W = "sum_list (map wjobs ((ws nd)[k := Idle]))"
  have W: "sum_list (map wjobs (ws nd)) = add_mset job ?W"
    "sum_list (map wjobs ((ws nd)[k := Recording a])) = add_mset (action_job a) ?W"
    using ran sum_wjobs_update(2) [of k "ws nd" Idle] sum_wjobs_update(1) [of k "(ws nd)[k := Idle]" "Recording a"]
    by simp_all
  have "ID (action_job a) = ID job \<and> storable (action_job a)"
    using ran assms W by (intro run_job_ok [of "pool srv"]) (auto simp: server_ok_def node_jobs_def)
  with ran assms W show ?thesis by (auto simp: effect_same node_jobs_def)
next
  case (recorded k a u h)
  have "sum_list (map wjobs (ws nd)) = add_mset (action_job a) (sum_list (map wjobs ((ws nd)[k := Idle])))"
    using recorded sum_wjobs_update(2) [of k "ws nd" Idle] by simp
  with recorded_effect [OF assms(2) _ _ _ _ recorded(5)] recorded assms(3) jobs show ?thesis
    by (simp add: node_jobs_def server_ok_def)
next
  case (main_close u h)
  with assms show ?thesis by (simp add: close_effect node_jobs_def server_ok_def)
qed (use assms in \<open>simp_all add: effect_same node_jobs_def sum_wjobs_exited sum_wjobs_update\<close>)

text \<open>The invariant of a cluster: every job held is running and storable, and held once.\<close>

definition cinv :: "('s, 'u) cluster \<Rightarrow> bool" where
  "cinv c \<longleftrightarrow> (case c of (ns, s) \<Rightarrow> inv s \<and> (\<forall>(srv, nd) \<in> set ns. server_ok B storable srv)
     \<and> (\<forall>j \<in># cluster_jobs ns. storable j \<and> phase s (ID j) = Running)
     \<and> (\<forall>i. count (ids (cluster_jobs ns)) i \<le> 1))"

lemma cluster_jobs_split:
  assumes "k < length ns" "ns ! k = (srv, nd)"
  shows "\<exists>J. cluster_jobs ns = node_jobs nd + J \<and> cluster_jobs (ns[k := (srv, nd')]) = node_jobs nd' + J"
proof -
  let ?f = "node_jobs \<circ> snd"
  have "sum_list (map ?f (ns[k := (srv, x)])) =
      node_jobs x + (sum_list (map ?f (take k ns)) + sum_list (map ?f (drop (Suc k) ns)))" for x
    using assms(1) by (simp add: upd_conv_take_nth_drop add_ac)
  moreover have "ns = ns[k := (srv, nd)]" using assms(2) by (metis list_update_id)
  ultimately show ?thesis unfolding cluster_jobs_def by metis
qed

definition held :: "Job multiset \<Rightarrow> 's \<Rightarrow> bool" where
  "held J s \<longleftrightarrow> inv s \<and> (\<forall>j \<in># J. storable j) \<and> (\<forall>i \<in># ids J. phase s i = Running)
     \<and> (\<forall>i. count (ids J) i \<le> 1)"

lemma effect_frame:
  assumes "effect ev (J, s) (J', s')" "\<forall>j \<in># K. storable j"
  shows "effect ev (J + K, s) (J' + K, s')"
  using assms by (auto simp: effect_def)

lemma effect_held:
  assumes h: "held J s" and e: "effect ev (J, s) (J', s')"
  shows "held J' s'"
proof -
  have i: "inv s'" "\<forall>j \<in># J'. storable j" using e by (simp_all add: effect_def)
  consider (quiet) "ids J' \<subseteq># ids J" "quiet s s'"
    | (claim) i where "phase s i = Queued" "phase s' = (phase s)(i := Running)" "ids J' = add_mset i (ids J)"
    | (recorded) a where "ids J = add_mset (ID (action_job a)) (ids J')"
        "phase s' = phase s \<or> phase s' = (phase s)(ID (action_job a) := action_phase a)"
    using e by (auto simp: effect_def)
  then have "(\<forall>i \<in># ids J'. phase s' i = Running) \<and> (\<forall>i. count (ids J') i \<le> 1)"
  proof cases
    case quiet
    have "count (ids J') i \<le> 1" for i
      using mset_subset_eq_count [OF quiet(1), of i] h by (auto simp: held_def intro: order_trans)
    moreover have "phase s' i = Running" if "i \<in># ids J'" for i
      using that quiet h mset_subset_eqD [OF quiet(1)] by (auto simp: held_def quiet_def)
    ultimately show ?thesis by blast
  next
    case (claim i)
    then have "i \<notin># ids J" using h by (auto simp: held_def)
    with claim h show ?thesis by (auto simp: held_def not_in_iff)
  next
    case (recorded a)
    let ?i = "ID (action_job a)"
    have c: "count (ids J) k \<le> 1" for k using h by (simp add: held_def)
    have "?i \<notin># ids J'" using c [of ?i] recorded(1) by (simp add: not_in_iff)
    moreover have "count (ids J') k \<le> 1" for k using c [of k] recorded(1) by (simp split: if_splits)
    ultimately show ?thesis using recorded h by (auto simp: held_def)
  qed
  with i show ?thesis by (simp add: held_def)
qed

lemma cinv_held: "cinv (ns, s) \<longleftrightarrow> held (cluster_jobs ns) s \<and> (\<forall>(srv, nd) \<in> set ns. server_ok B storable srv)"
  by (auto simp: cinv_def held_def ids_def)

text \<open>Which jobs other clients enqueue and delete.\<close>

definition enqueuable :: "'s \<Rightarrow> Job \<Rightarrow> bool" where
  "enqueuable s j \<longleftrightarrow> storable j \<and> fresh s j"

definition free :: "'s \<Rightarrow> string \<Rightarrow> bool" where
  "free s i \<longleftrightarrow> phase s i \<noteq> Running"

lemma held_other:
  assumes "held J s" "inv s'" "\<And>i. phase s i = Running \<Longrightarrow> phase s' i = Running"
  shows "held J s'"
  using assms by (auto simp: held_def)

lemma client_phases:
  assumes "inv s"
  shows "enqueuable s j \<Longrightarrow> run_state (Enqueue B j) s = (r, s') \<Longrightarrow>
      inv s' \<and> (\<forall>i. phase s i \<noteq> Gone \<longrightarrow> phase s' i = phase s i)"
    and "free s k \<Longrightarrow> run_state (DeleteJob B k) s = (r, s') \<Longrightarrow>
      inv s' \<and> (\<forall>i. i \<noteq> k \<or> phase s i = Running \<longrightarrow> phase s' i = phase s i)"
    and "run_state (RetryDeadJob B k) s = (r, s') \<Longrightarrow>
      inv s' \<and> (\<forall>i. phase s i \<noteq> Buried \<longrightarrow> phase s' i = phase s i) \<and> (phase s' k = Gone \<longrightarrow> phase s k = Gone)
      \<and> (\<forall>i. i \<noteq> k \<longrightarrow> phase s' i = phase s i)"
  using Enqueue_spec [OF assms, of j r s'] DeleteJob_spec [OF assms, of k r s'] RetryDeadJob_spec [OF assms, of k r s']
  by (auto simp: enqueuable_def free_def phase_change_def)

lemma cluster_step_inv:
  assumes "cluster_step f2i B enqueuable free (ns, s) ev (ns', s')" "cinv (ns, s)"
  shows "cinv (ns', s')"
proof -
  have h: "held (cluster_jobs ns) s" and ok: "\<forall>(srv, nd) \<in> set ns. server_ok B storable srv"
    using assms(2) by (simp_all add: cinv_held)
  then have i: "inv s" by (simp add: held_def)
  show ?thesis
    using assms(1)
  proof cases
    case (node k srv nd nd')
    obtain K where K: "cluster_jobs ns = node_jobs nd + K" "cluster_jobs ns' = node_jobs nd' + K"
      using cluster_jobs_split [of k ns srv nd nd'] node by auto
    have srv: "server_ok B storable srv" using node ok nth_mem [of k ns] by auto
    have eff: "effect ev (node_jobs nd, s) (node_jobs nd', s')"
      using h K by (intro node_effect [OF node(4) i srv]) (auto simp: held_def ids_def)
    have "effect ev (cluster_jobs ns, s) (cluster_jobs ns', s')"
      unfolding K using h K(1) by (intro effect_frame [OF eff]) (auto simp: held_def)
    then have "held (cluster_jobs ns') s'" by (rule effect_held [OF h])
    moreover have "\<forall>(srv, nd) \<in> set ns'. server_ok B storable srv"
      using node(1) ok srv set_update_subset_insert [of ns k "(srv, nd')"] by auto
    ultimately show ?thesis by (simp add: cinv_held)
  next
    case (enqueue job r)
    with h ok client_phases(1) [OF i] show ?thesis by (auto simp: cinv_held intro: held_other)
  next
    case (delete k r)
    with ok client_phases(2) [OF i delete(3,4)] show ?thesis
      by (auto simp: cinv_held intro!: held_other [OF h])
  next
    case (retry k r)
    with ok client_phases(3) [OF i retry(3)] show ?thesis
      by (auto simp: cinv_held intro!: held_other [OF h])
  next
    case (get k g)
    with ok GetJob_spec [OF i get(3)] show ?thesis by (auto simp: cinv_held intro!: held_other [OF h])
  next
    case (listing st n js)
    with ok GetJobsByStatus_spec [OF i listing(3)] show ?thesis by (auto simp: cinv_held intro!: held_other [OF h])
  next
    case (stats m)
    with ok GetQueueStats_spec [OF i stats(3)] show ?thesis by (auto simp: cinv_held intro!: held_other [OF h])
  qed
qed

lemma cluster_run_inv:
  assumes "cluster_run f2i B enqueuable free c evs d" "cinv c"
  shows "cinv d"
  using assms
proof (induction rule: cluster_run.induct)
  case (more evs d ev e)
  then show ?case by (cases d; cases e) (auto intro: cluster_step_inv)
qed

end

section \<open>No job is with two workers\<close>

lemma sum_list_mset_one:
  fixes f :: "'a \<Rightarrow> 'b multiset"
  assumes "k < length l"
  shows "f (l ! k) \<subseteq># sum_list (map f l)"
  by (subst (2) id_take_nth_drop [OF assms]) (simp add: subset_mset.add_increasing)

lemma sum_list_mset_two:
  fixes f :: "'a \<Rightarrow> 'b multiset"
  assumes "i < k" "k < length l"
  shows "f (l ! i) + f (l ! k) \<subseteq># sum_list (map f l)"
  using assms
proof (induction l arbitrary: i k)
  case (Cons x l)
  show ?case
  proof (cases i)
    case 0
    with Cons.prems show ?thesis by (cases k) (simp_all add: sum_list_mset_one)
  next
    case (Suc i')
    with Cons show ?thesis by (cases k) (simp_all add: subset_mset.add_increasing)
  qed
qed simp

text \<open>The workers of a cluster, and the jobs they are busy with.\<close>

definition busy :: "(('s, 'u) Server \<times> 'u node) list \<Rightarrow> nat \<Rightarrow> nat \<Rightarrow> Job \<Rightarrow> bool" where
  "busy ns n k j \<longleftrightarrow> n < length ns \<and> k < length (ws (snd (ns ! n)))
     \<and> (ws (snd (ns ! n)) ! k = Busy j \<or> (\<exists>a. ws (snd (ns ! n)) ! k = Recording a \<and> action_job a = j))"

lemma busy_wjobs: "busy ns n k j \<Longrightarrow> wjobs (ws (snd (ns ! n)) ! k) = {#j#}"
  by (auto simp: busy_def)

lemma node_jobs_ws: "sum_list (map wjobs (ws nd)) \<subseteq># node_jobs nd"
  by (simp add: node_jobs_def)

lemma busy_two:
  assumes "busy ns n k j" "busy ns n' k' j'" "n < n' \<or> n = n' \<and> k < k'"
  shows "{#j, j'#} \<subseteq># cluster_jobs ns"
proof -
  have one: "{#j#} \<subseteq># node_jobs (snd (ns ! n))" if "busy ns n k j" for n k j
    using sum_list_mset_one [of k "ws (snd (ns ! n))" wjobs] busy_wjobs [OF that] that node_jobs_ws
    by (metis busy_def subset_mset.order_trans)
  show ?thesis
    using assms(3)
  proof
    assume "n < n'"
    with assms have "node_jobs (snd (ns ! n)) + node_jobs (snd (ns ! n')) \<subseteq># cluster_jobs ns"
      using sum_list_mset_two [of n n' ns "node_jobs \<circ> snd"] by (simp add: cluster_jobs_def busy_def)
    from subset_mset.order_trans [OF subset_mset.add_mono [OF one [OF assms(1)] one [OF assms(2)]] this]
    show ?thesis by (simp add: add_mset_commute)
  next
    assume n: "n = n' \<and> k < k'"
    then have "{#j, j'#} \<subseteq># sum_list (map wjobs (ws (snd (ns ! n))))"
      using sum_list_mset_two [of k k' "ws (snd (ns ! n))" wjobs] assms busy_wjobs [OF assms(1)] busy_wjobs [OF assms(2)]
      by (simp add: busy_def add_mset_commute)
    moreover have "node_jobs (snd (ns ! n)) \<subseteq># cluster_jobs ns"
      using sum_list_mset_one [of n ns "node_jobs \<circ> snd"] assms by (simp add: cluster_jobs_def busy_def)
    ultimately show ?thesis by (meson node_jobs_ws subset_mset.order_trans)
  qed
qed

lemma busy_pair:
  assumes "busy ns n k j" "busy ns n' k' j'" "(n, k) \<noteq> (n', k')"
  shows "{#j, j'#} \<subseteq># cluster_jobs ns"
proof -
  have "n < n' \<or> n = n' \<and> k < k' \<or> n' < n \<or> n' = n \<and> k' < k" using assms(3) by auto
  then show ?thesis
    using busy_two [OF assms(1,2)] busy_two [OF assms(2,1)] by (auto simp: add_mset_commute)
qed

context broker_contract
begin

lemma not_with_two_workers:
  assumes "cinv (ns, s)" "busy ns n k j" "busy ns n' k' j'" "(n, k) \<noteq> (n', k')"
  shows "ID j \<noteq> ID j'"
proof
  assume eq: "ID j = ID j'"
  have "{#j, j'#} \<subseteq># cluster_jobs ns" by (rule busy_pair [OF assms(2-4)])
  then have "ids {#j, j'#} \<subseteq># ids (cluster_jobs ns)" unfolding ids_def by (rule image_mset_subseteq_mono)
  from mset_subset_eq_count [OF this, of "ID j"] have "2 \<le> count (ids (cluster_jobs ns)) (ID j)"
    using eq by simp
  moreover have "count (ids (cluster_jobs ns)) (ID j) \<le> 1" using assms(1) by (simp add: cinv_def)
  ultimately show False by simp
qed

end

section \<open>A job leaves the broker when its handler has succeeded\<close>

text \<open>In a run with the events \<open>evs\<close>, a worker of one of the servers has run the registered handler on the
  job \<open>i\<close>, and it returned no error.\<close>

definition succeeded :: "event list \<Rightarrow> ('s, 'u) Server list \<Rightarrow> string \<Rightarrow> bool" where
  "succeeded evs srvs i \<longleftrightarrow> (\<exists>srv \<in> set srvs. \<exists>job hd ctx h j' h'. ID job = i
     \<and> Ran job (Ack j') \<in> set evs
     \<and> registry (pool srv) (Type job) = Some hd
     \<and> run_state (Chain hd (middleware (pool srv)) ctx job) h = ((Returned None, j'), h'))"

definition acks_ok :: "event list \<Rightarrow> (('s, 'u) Server \<times> 'u node) list \<Rightarrow> bool" where
  "acks_ok evs ns \<longleftrightarrow> (\<forall>(srv, nd) \<in> set ns. \<forall>j. Recording (Ack j) \<in> set (ws nd) \<longrightarrow>
     succeeded evs (map fst ns) (ID j))"

lemma set_update_old: "x \<in> set (l[k := y]) \<Longrightarrow> x \<noteq> y \<Longrightarrow> x \<in> set l"
  using set_update_subset_insert by fastforce

lemma cluster_servers: "cluster_step f2i B enqueuable free (ns, s) ev (ns', s') \<Longrightarrow> map fst ns' = map fst ns"
  by (erule cluster_step.cases) (auto simp: map_update [symmetric] intro: nth_equalityI
      simp: nth_list_update list_eq_iff_nth_eq)

context broker_contract
begin

lemma node_acks:
  assumes "node_step f2i srv (nd, s) ev (nd', s')" "server_ok B storable srv"
    and "\<forall>j \<in># node_jobs nd. storable j" "Recording (Ack j) \<in> set (ws nd')"
  shows "Recording (Ack j) \<in> set (ws nd) \<or> succeeded [ev] [srv] (ID j)"
  using assms(1)
proof cases
  case (ran k job ctx a h)
  show ?thesis
  proof (cases "a = Ack j")
    case True
    have "wjobs (ws nd ! k) \<subseteq># node_jobs nd"
      using sum_list_mset_one [of k "ws nd" wjobs] ran node_jobs_ws by (metis subset_mset.order_trans)
    then have "storable job" using ran assms(3) by simp
    with True ran assms(2) have "ID job = ID j"
      using run_job_ok [of "pool srv" job f2i ctx "nhost nd" a h] by (simp add: server_ok_def)
    with run_job_Ack [of f2i "pool srv" ctx job "nhost nd" j h] True ran show ?thesis
      by (auto simp: succeeded_def)
  next
    case False
    with ran assms(4) show ?thesis by (auto dest: set_update_old)
  qed
qed (use assms(4) in \<open>auto dest: set_update_old\<close>)

lemma effect_Gone:
  assumes "effect ev (J, s) (J', s')" "phase s i \<noteq> Gone" "phase s' i = Gone"
  shows "\<exists>j. ev = Recorded (Ack j) \<and> ID j = i"
proof -
  have "\<exists>a. ev = Recorded a \<and> ID (action_job a) = i \<and> action_phase a = Gone"
    using assms by (auto simp: effect_def quiet_def split: if_splits)
  then show ?thesis by (metis action_job.simps(1) action_phase.elims phase.distinct(1,5))
qed

lemma succeeded_mono: "succeeded e l i \<Longrightarrow> set e \<subseteq> set e' \<Longrightarrow> set l \<subseteq> set l' \<Longrightarrow> succeeded e' l' i"
  unfolding succeeded_def by blast

lemma cluster_node_facts:
  assumes "cinv (ns, s)" "k < length ns" "ns ! k = (srv, nd)"
  shows "inv s" "server_ok B storable srv" "\<forall>j \<in># node_jobs nd. storable j \<and> phase s (ID j) = Running"
proof -
  have "node_jobs nd \<subseteq># cluster_jobs ns"
    using sum_list_mset_one [OF assms(2), of "node_jobs \<circ> snd"] assms(3) by (simp add: cluster_jobs_def)
  then show "inv s" "server_ok B storable srv" "\<forall>j \<in># node_jobs nd. storable j \<and> phase s (ID j) = Running"
    using assms nth_mem [OF assms(2)] by (auto simp: cinv_def dest: mset_subset_eqD)
qed

lemma cluster_step_Gone:
  assumes "cluster_step f2i B enqueuable free (ns, s) ev (ns', s')" "cinv (ns, s)" "acks_ok evs ns"
    and "phase s i \<noteq> Gone" "phase s' i = Gone"
  shows "ev = Deleted i \<or> succeeded evs (map fst ns) i"
  using assms(1)
proof cases
  case (node k srv nd nd')
  note N = cluster_node_facts [OF assms(2) node(2,3)]
  obtain j where j: "ev = Recorded (Ack j)" "ID j = i"
    using effect_Gone [OF node_effect [OF node(4) N] assms(4,5)] by blast
  with node(4) have "Recording (Ack j) \<in> set (ws nd)" by cases (auto dest: nth_mem)
  moreover have "(srv, nd) \<in> set ns" using node(2,3) nth_mem by metis
  ultimately show ?thesis using assms(3) j by (auto simp: acks_ok_def)
next
  case (enqueue job r)
  with client_phases(1) assms(2,4,5) show ?thesis by (auto simp: cinv_def)
next
  case (delete k r)
  have "inv s" using assms(2) by (simp add: cinv_def)
  from client_phases(2) [OF this delete(3,4)] assms(4,5) delete(1) show ?thesis by fastforce
next
  case (retry k r)
  have "inv s" using assms(2) by (simp add: cinv_def)
  from client_phases(3) [OF this retry(3)] assms(4,5) show ?thesis by metis
next
  case (get k g)
  with GetJob_spec assms(2,4,5) show ?thesis by (fastforce simp: cinv_def)
next
  case (listing st n js)
  have "inv s" using assms(2) by (simp add: cinv_def)
  from GetJobsByStatus_spec [OF this listing(3)] assms(4,5) show ?thesis by simp
next
  case (stats m)
  have "inv s" using assms(2) by (simp add: cinv_def)
  from GetQueueStats_spec [OF this stats(3)] assms(4,5) show ?thesis by simp
qed

lemma acks_ok_more: "acks_ok evs ns \<Longrightarrow> acks_ok (evs @ [ev]) ns"
  unfolding acks_ok_def by (fastforce elim!: succeeded_mono)

lemma cluster_step_acks:
  assumes st: "cluster_step f2i B enqueuable free (ns, s) ev (ns', s')" and c: "cinv (ns, s)" "acks_ok evs ns"
  shows "acks_ok (evs @ [ev]) ns'"
  using st
proof cases
  case (node k srv nd nd')
  note N = cluster_node_facts [OF c(1) node(2,3)]
  have srv: "(srv, nd) \<in> set ns" using node(2,3) nth_mem by metis
  have old: "acks_ok (evs @ [ev]) ns" by (rule acks_ok_more [OF c(2)])
  have "succeeded (evs @ [ev]) (map fst ns) (ID j)"
    if x: "(x, y) \<in> set ns'" "Recording (Ack j) \<in> set (ws y)" for x y j
  proof (cases "(x, y) = (srv, nd')")
    case True
    then have "Recording (Ack j) \<in> set (ws nd) \<or> succeeded [ev] [srv] (ID j)"
      using x(2) N by (intro node_acks [OF node(4)]) auto
    moreover have "succeeded [ev] [srv] (ID j) \<Longrightarrow> succeeded (evs @ [ev]) (map fst ns) (ID j)"
      using srv by (erule_tac succeeded_mono) (auto intro: rev_image_eqI)
    ultimately show ?thesis using old srv by (auto simp: acks_ok_def)
  next
    case False
    with x(1) node(1) have "(x, y) \<in> set ns" by (auto dest: set_update_old)
    with x(2) old show ?thesis by (auto simp: acks_ok_def)
  qed
  then show ?thesis unfolding acks_ok_def cluster_servers [OF st] by blast
qed (use c acks_ok_more in blast)+

lemma gone_after_success:
  assumes "cluster_run f2i B enqueuable free c evs d" "cinv c" "acks_ok [] (fst c)"
    and "phase (snd c) i \<noteq> Gone" "phase (snd d) i = Gone" "Deleted i \<notin> set evs"
  shows "succeeded evs (map fst (fst c)) i"
proof -
  have "acks_ok evs (fst d) \<and> map fst (fst d) = map fst (fst c) \<and> cinv d
    \<and> (phase (snd d) i = Gone \<longrightarrow> succeeded evs (map fst (fst c)) i)"
    using assms(1,6)
  proof (induction rule: cluster_run.induct)
    case start
    then show ?case using assms by simp
  next
    case (more evs d ev e)
    obtain ns s ns' s' where de: "d = (ns, s)" "e = (ns', s')" by (cases d; cases e)
    from more have IH: "acks_ok evs ns" "map fst ns = map fst (fst c)" "cinv (ns, s)"
      "phase s i = Gone \<longrightarrow> succeeded evs (map fst (fst c)) i" and st: "cluster_step f2i B enqueuable free (ns, s) ev (ns', s')"
      using de by auto
    have "phase s' i = Gone \<longrightarrow> succeeded evs (map fst (fst c)) i"
      using cluster_step_Gone [OF st IH(3,1), of i] IH(2,4) more.prems by auto
    then have "phase s' i = Gone \<longrightarrow> succeeded (evs @ [ev]) (map fst (fst c)) i"
      by (auto elim: succeeded_mono)
    with cluster_step_acks [OF st IH(3,1)] cluster_servers [OF st] cluster_step_inv [OF st IH(3)] IH(2)
    show ?case by (simp add: de)
  qed
  with assms(5) show ?thesis by simp
qed

end

text \<open>A cluster whose servers have just been started.\<close>

definition start_cluster :: "(('s, 'u) Server \<times> 'u host) list \<Rightarrow> (('s, 'u) Server \<times> 'u node) list" where
  "start_cluster l = map (\<lambda>(srv, h). (srv, Server_start srv h)) l"

lemma sum_list_replicate_empty: "sum_list (replicate n {#}) = {#}"
  by (induction n) simp_all

lemma started_jobs: "node_jobs (Server_start srv h) = {#}" "Recording a \<notin> set (ws (Server_start srv h))"
  by (auto simp: Server_start_def node_jobs_def dispatcher_start_def Pool_Start_def Let_def split_beta sum_list_replicate_empty)

lemma start_cluster_jobs: "cluster_jobs (start_cluster l) = {#}"
  by (induction l) (auto simp: cluster_jobs_def start_cluster_def started_jobs)

lemma start_cluster_acks: "acks_ok evs (start_cluster l)"
  by (auto simp: acks_ok_def start_cluster_def started_jobs)

lemma start_cluster_servers: "map fst (start_cluster l) = map fst l"
  by (auto simp: start_cluster_def)

context broker_contract
begin

lemma cinv_start:
  assumes "inv s" "\<forall>srv \<in> set (map fst l). server_ok B storable srv"
  shows "cinv (start_cluster l, s)"
  using assms by (auto simp: cinv_held held_def start_cluster_jobs) (auto simp: start_cluster_def)

lemma cluster_exclusive:
  assumes "inv s" "\<forall>srv \<in> set (map fst l). server_ok B storable srv"
    and "cluster_run f2i B enqueuable free (start_cluster l, s) evs (ns, s')"
    and "busy ns n k j" "busy ns n' k' j'" "(n, k) \<noteq> (n', k')"
  shows "ID j \<noteq> ID j'" "phase s' (ID j) = Running"
proof -
  have c: "cinv (ns, s')" by (rule cluster_run_inv [OF assms(3) cinv_start [OF assms(1,2)]])
  show "ID j \<noteq> ID j'" by (rule not_with_two_workers [OF c assms(4-6)])
  have "{#j, j'#} \<subseteq># cluster_jobs ns" by (rule busy_pair [OF assms(4-6)])
  then have "j \<in># cluster_jobs ns" by (auto dest: mset_subset_eqD)
  with c show "phase s' (ID j) = Running" by (simp add: cinv_def)
qed

lemma cluster_success:
  assumes "inv s" "\<forall>srv \<in> set (map fst l). server_ok B storable srv"
    and "cluster_run f2i B enqueuable free (start_cluster l, s) evs (ns, s')"
    and "phase s i \<noteq> Gone" "phase s' i = Gone" "Deleted i \<notin> set evs"
  shows "succeeded evs (map fst l) i"
  using gone_after_success [OF assms(3) cinv_start [OF assms(1,2)], of i] assms(4-6)
  by (simp add: start_cluster_acks start_cluster_servers)

end

section \<open>Orphans\<close>

context broker_contract
begin

text \<open>A running job that no server holds stays so.\<close>

definition orphan :: "string \<Rightarrow> ('s, 'u) cluster \<Rightarrow> bool" where
  "orphan i c \<longleftrightarrow> phase (snd c) i = Running \<and> i \<notin># ids (cluster_jobs (fst c))"

lemma effect_orphan:
  assumes "effect ev (J, s) (J', s')" "phase s i = Running" "i \<notin># ids J"
  shows "phase s' i = Running" "i \<notin># ids J'"
  using assms by (auto simp: effect_def quiet_def dest: mset_subset_eqD)

lemma cluster_step_orphan:
  assumes st: "cluster_step f2i B enqueuable free (ns, s) ev (ns', s')" and c: "cinv (ns, s)" "orphan i (ns, s)"
  shows "orphan i (ns', s')"
proof -
  have s: "inv s" "phase s i = Running" "i \<notin># ids (cluster_jobs ns)"
    using c by (simp_all add: cinv_def orphan_def)
  show ?thesis
    using st
  proof cases
    case (node k srv nd nd')
    obtain K where K: "cluster_jobs ns = node_jobs nd + K" "cluster_jobs ns' = node_jobs nd' + K"
      using cluster_jobs_split [OF node(2,3), of nd'] node(1) by auto
    note E = node_effect [OF node(4) cluster_node_facts [OF c(1) node(2,3)]]
    from effect_orphan [OF E s(2)] s(3) K show ?thesis by (simp add: orphan_def)
  next
    case (enqueue job r)
    with client_phases(1) [OF s(1) enqueue(3,4)] s show ?thesis by (simp add: orphan_def)
  next
    case (delete k r)
    with client_phases(2) [OF s(1) delete(3,4)] s show ?thesis by (auto simp: orphan_def)
  next
    case (retry k r)
    with client_phases(3) [OF s(1) retry(3)] s show ?thesis by (simp add: orphan_def)
  next
    case (get k g)
    with GetJob_spec [OF s(1) get(3)] s show ?thesis by (simp add: orphan_def)
  next
    case (listing st n js)
    with GetJobsByStatus_spec [OF s(1) listing(3)] s show ?thesis by (simp add: orphan_def)
  next
    case (stats m)
    with GetQueueStats_spec [OF s(1) stats(3)] s show ?thesis by (simp add: orphan_def)
  qed
qed

lemma cluster_run_orphan:
  assumes "cluster_run f2i B enqueuable free c evs d" "cinv c" "orphan i c"
  shows "orphan i d"
proof -
  have "cinv d \<and> orphan i d"
    using assms
  proof (induction rule: cluster_run.induct)
    case (more evs d ev e)
    then show ?case by (cases d; cases e) (auto intro: cluster_step_inv cluster_step_orphan)
  qed simp
  then show ?thesis ..
qed

end

end
