(* ===== verification/Postgres_Broker.thy ===== *)
theory Postgres_Broker
  imports Broker
begin

text \<open>
  The Postgres implementation of the broker: \<open>internal/broker/postgres.go\<close>. The table \<open>jobs\<close> is
  its list of rows in the order in which the database keeps them; each SQL statement of the source
  is a function on it, which fails when a constraint of the schema would be violated. What
  the database engine and its client library decide is an argument \<open>E\<close>: how JSONB
  values and time stamps are stored, which texts a column accepts, the error for an
  argument that does not fit a column, and the order in which a query meets rows
  that its ORDER BY does not tell apart. The world says which rows other transactions hold
  locked when a job is claimed, and which replies are lost.
\<close>

section \<open>The table\<close>

record row =
  rid :: string
  rqueue :: string
  rtype :: string
  rpayload :: string
  rpriority :: int
  rstatus :: string
  rattempts :: int
  rmax_attempts :: int
  rlast_error :: string
  runique_key :: "string option"
  rprocess_at :: instant
  rcreated_at :: instant
  rupdated_at :: instant

text \<open>The primary key and the partial unique index.\<close>

definition keyed :: "row \<Rightarrow> bool" where
  "keyed r \<longleftrightarrow> runique_key r \<noteq> None \<and> rstatus r \<notin> {''completed'', ''dead''}"

definition constraints :: "row list \<Rightarrow> bool" where
  "constraints rs \<longleftrightarrow> distinct (map rid rs) \<and> distinct (map runique_key (filter keyed rs))"

record engine =
  jsonb :: "string \<Rightarrow> string option"
  stamp :: "instant \<Rightarrow> instant"
  text_ok :: "string \<Rightarrow> bool"
  argument_error :: goerr
  meets :: "row list \<Rightarrow> row list"

text \<open>One statement: executed with its reply received (\<open>Done\<close>), executed or not with the reply lost,
  or, for a query, broken off after some rows.\<close>

datatype reply = Done | Lost bool | Broken nat

record pgworld = env +
  table :: "row list"
  replies :: "reply list"
  locked :: "string list list"

type_synonym 'a stmt = "row list \<Rightarrow> (goerr + 'a) \<times> row list"

definition next_reply :: "(pgworld, reply) state" where
  "next_reply = State (\<lambda>w. (case replies w of [] \<Rightarrow> Done | f # _ \<Rightarrow> f, w\<lparr>replies := tl (replies w)\<rparr>))"

definition next_locked :: "(pgworld, string list) state" where
  "next_locked = State (\<lambda>w. (case locked w of [] \<Rightarrow> [] | l # _ \<Rightarrow> l, w\<lparr>locked := tl (locked w)\<rparr>))"

definition on_table :: "'a stmt \<Rightarrow> (pgworld, goerr + 'a) state" where
  "on_table st = State (\<lambda>w. let (r, t) = st (table w) in (r, w\<lparr>table := t\<rparr>))"

definition pool_Exec :: "'a stmt \<Rightarrow> (pgworld, goerr + 'a) state" where
  "pool_Exec st = do {
     f \<leftarrow> next_reply;
     (case f of
        Done \<Rightarrow> on_table st
      | Lost b \<Rightarrow> do {
          _ \<leftarrow> (if b then on_table st else State_Monad.return (Inl NetError));
          State_Monad.return (Inl NetError) }
      | Broken n \<Rightarrow> State_Monad.return (Inl NetError)) }"

section \<open>Statements\<close>

definition uniqueViolationCode :: string where
  "uniqueViolationCode = ''23505''"

definition unique_violation :: goerr where
  "unique_violation = PgError uniqueViolationCode ''duplicate key value violates unique constraint''"

definition write_table :: "'a \<Rightarrow> row list \<Rightarrow> 'a stmt" where
  "write_table x t' t = (if constraints t' then (Inr x, t') else (Inl unique_violation, t))"

definition int4 :: "int \<Rightarrow> bool" where
  "int4 n \<longleftrightarrow> - (2 ^ 31) \<le> n \<and> n < 2 ^ 31"

definition insert_job :: "engine \<Rightarrow> Job \<Rightarrow> unit stmt" where
  "insert_job E job t =
     (let uniqueKey = (if UniqueKey job \<noteq> '''' then Some (UniqueKey job) else None) in
      if \<not> (int4 (Priority job) \<and> int4 (Attempts job) \<and> int4 (MaxAttempts job)
            \<and> list_all (text_ok E) ([ID job, Queue job, Type job, Status job, LastError job] @
                 (case uniqueKey of None \<Rightarrow> [] | Some u \<Rightarrow> [u])))
      then (Inl (argument_error E), t)
      else case jsonb E (Payload job) of
        None \<Rightarrow> (Inl (PgError ''22P02'' ''invalid input syntax for type json''), t)
      | Some p \<Rightarrow> write_table () (t @ [
          \<lparr>rid = ID job, rqueue = Queue job, rtype = Type job, rpayload = p,
           rpriority = Priority job, rstatus = Status job, rattempts = Attempts job,
           rmax_attempts = MaxAttempts job, rlast_error = LastError job, runique_key = uniqueKey,
           rprocess_at = stamp E (ProcessAt job), rcreated_at = stamp E (CreatedAt job),
           rupdated_at = stamp E (CreatedAt job)\<rparr>]) t)"

text \<open>\<open>UPDATE jobs SET ... WHERE ...\<close>: the number of rows changed.\<close>

definition update_rows :: "(row \<Rightarrow> bool) \<Rightarrow> (row \<Rightarrow> row) \<Rightarrow> nat stmt" where
  "update_rows cond f t =
     write_table (length (filter cond t)) (map (\<lambda>r. if cond r then f r else r) t) t"

text \<open>Rows ordered by a key, those with equal keys in the order the database meets them.\<close>

definition select_rows :: "engine \<Rightarrow> (row \<Rightarrow> bool) \<Rightarrow> (row \<Rightarrow> 'k::linorder) \<Rightarrow> row list \<Rightarrow> row list" where
  "select_rows E cond k t = sort_key k (filter cond (meets E t))"

definition due :: "string \<Rightarrow> instant \<Rightarrow> row \<Rightarrow> bool" where
  "due queue now r \<longleftrightarrow> rqueue r = queue \<and> rstatus r \<in> {''pending'', ''retry''} \<and> rprocess_at r \<le> now"

text \<open>The claim of \<open>Dequeue\<close>: the row it returns, if any.\<close>

definition claim_row :: "engine \<Rightarrow> string \<Rightarrow> instant \<Rightarrow> string list \<Rightarrow> row option stmt" where
  "claim_row E queue now skip t =
     (case select_rows E (\<lambda>r. due queue now r \<and> rid r \<notin> set skip) (\<lambda>r. (rpriority r, rprocess_at r)) t of
        [] \<Rightarrow> (Inr None, t)
      | r # _ \<Rightarrow>
          let r' = r\<lparr>rstatus := ''active'', rupdated_at := now\<rparr> in
          write_table (Some r') (map (\<lambda>x. if rid x = rid r then x\<lparr>rstatus := ''active'', rupdated_at := now\<rparr> else x) t) t)"

definition scanJob :: "row \<Rightarrow> Job" where
  "scanJob r = zeroJob\<lparr>ID := rid r, Queue := rqueue r, Type := rtype r, Payload := rpayload r,
     Priority := rpriority r, Attempts := rattempts r, MaxAttempts := rmax_attempts r,
     LastError := rlast_error r, ProcessAt := rprocess_at r, CreatedAt := rcreated_at r,
     Status := rstatus r,
     UniqueKey := (case runique_key r of None \<Rightarrow> '''' | Some u \<Rightarrow> u)\<rparr>"

section \<open>Methods\<close>

definition is_unique_violation :: "goerr \<Rightarrow> bool" where
  "is_unique_violation err = (case cause err of PgError code m \<Rightarrow> code = uniqueViolationCode | _ \<Rightarrow> False)"

definition pg_Enqueue :: "engine \<Rightarrow> Job \<Rightarrow> (pgworld, goerr + unit) state" where
  "pg_Enqueue E job = do {
     r \<leftarrow> pool_Exec (insert_job E job);
     State_Monad.return (case r of
         Inl err \<Rightarrow> if is_unique_violation err then Inr () else Inl (WrapError ''insert job: '' err)
       | Inr _ \<Rightarrow> Inr ()) }"

fun pg_Dequeue :: "engine \<Rightarrow> string list \<Rightarrow> (pgworld, goerr + Job option) state" where
  "pg_Dequeue E [] = State_Monad.return (Inr None)"
| "pg_Dequeue E (queue # queues) = do {
     now \<leftarrow> time_Now;
     skip \<leftarrow> next_locked;
     r \<leftarrow> pool_Exec (claim_row E queue now skip);
     (case r of
        Inr None \<Rightarrow> pg_Dequeue E queues
      | Inl err \<Rightarrow> State_Monad.return (Inl (WrapError (''dequeue from '' @ queue @ '': '') err))
      | Inr (Some row) \<Rightarrow> State_Monad.return (Inr (Some (scanJob row)))) }"

definition wrap_err :: "string \<Rightarrow> goerr + 'a \<Rightarrow> goerr + unit" where
  "wrap_err m r = (case r of Inl err \<Rightarrow> Inl (WrapError m err) | Inr _ \<Rightarrow> Inr ())"

text \<open>The arguments of an update are encoded before it is sent.\<close>

definition checked :: "engine \<Rightarrow> bool \<Rightarrow> 'a stmt \<Rightarrow> 'a stmt" where
  "checked E ok st t = (if ok then st t else (Inl (argument_error E), t))"

definition pg_Acknowledge :: "engine \<Rightarrow> Job \<Rightarrow> (pgworld, goerr + unit) state" where
  "pg_Acknowledge E job = do {
     now \<leftarrow> time_Now;
     r \<leftarrow> pool_Exec (checked E (text_ok E (ID job)) (update_rows (\<lambda>r. rid r = ID job)
            (\<lambda>r. r\<lparr>rstatus := ''completed'', rupdated_at := now\<rparr>)));
     State_Monad.return (wrap_err (''acknowledge job '' @ ID job @ '': '') r) }"

definition pg_Requeue :: "engine \<Rightarrow> Job \<Rightarrow> duration \<Rightarrow> (pgworld, goerr + unit) state" where
  "pg_Requeue E job delay = do {
     t \<leftarrow> time_Now;
     let processAt = t + delay;
     now \<leftarrow> time_Now;
     r \<leftarrow> pool_Exec (checked E (text_ok E (ID job) \<and> int4 (Attempts job) \<and> text_ok E (LastError job))
            (update_rows (\<lambda>r. rid r = ID job) (\<lambda>r. r\<lparr>rstatus := ''retry'', rattempts := Attempts job,
              rlast_error := LastError job, rprocess_at := stamp E processAt, rupdated_at := now\<rparr>)));
     State_Monad.return (wrap_err (''requeue job '' @ ID job @ '': '') r) }"

definition pg_MoveToDeadLetter :: "engine \<Rightarrow> Job \<Rightarrow> (pgworld, (goerr + unit) \<times> Job) state" where
  "pg_MoveToDeadLetter E job = do {
     now \<leftarrow> time_Now;
     r \<leftarrow> pool_Exec (checked E (text_ok E (ID job) \<and> int4 (Attempts job) \<and> text_ok E (LastError job))
            (update_rows (\<lambda>r. rid r = ID job) (\<lambda>r. r\<lparr>rstatus := ''dead'', rattempts := Attempts job,
              rlast_error := LastError job, rupdated_at := now\<rparr>)));
     State_Monad.return (wrap_err (''move job '' @ ID job @ '' to dead letter: '') r, job) }"

text \<open>A query: the rows read before it broke off, and the error then reported.\<close>

definition pool_Query :: "(row list \<Rightarrow> goerr + 'a list) \<Rightarrow> (pgworld, goerr + 'a list \<times> goerr option) state" where
  "pool_Query q = do {
     f \<leftarrow> next_reply;
     State (\<lambda>w. (case q (table w) of
         Inl err \<Rightarrow> Inl err
       | Inr rs \<Rightarrow> (case f of
             Done \<Rightarrow> Inr (rs, None)
           | Lost b \<Rightarrow> Inl NetError
           | Broken n \<Rightarrow> Inr (take n rs, Some NetError)), w)) }"

definition pg_GetJobsByStatus ::
  "engine \<Rightarrow> JobStatus \<Rightarrow> int \<Rightarrow> (pgworld, Job list option \<times> goerr option) state" where
  "pg_GetJobsByStatus E status limit = do {
     r \<leftarrow> pool_Query (\<lambda>t.
            if \<not> text_ok E status then Inl (argument_error E)
            else if limit < 0 then Inl (PgError ''2201W'' ''LIMIT must not be negative'')
            else Inr (take (nat limit) (select_rows E (\<lambda>r. rstatus r = status) (\<lambda>r. - rupdated_at r) t)));
     State_Monad.return (case r of
         Inl err \<Rightarrow> (None, Some (WrapError ''query jobs by status: '' err))
       | Inr (rs, e) \<Rightarrow>
           (if rs = [] then None else Some (map scanJob rs),
            map_option (WrapError ''iterate jobs: '') e)) }"

definition stats_row :: "row list \<Rightarrow> instant \<Rightarrow> string \<Rightarrow> QueueStats" where
  "stats_row t now q =
     (let n = (\<lambda>cond. int (length (filter (\<lambda>r. rqueue r = q \<and> cond r) t))) in
      zeroStats\<lparr>sQueue := q,
        sEnqueued := n (\<lambda>r. rstatus r = ''pending'' \<and> rprocess_at r \<le> now),
        sScheduled := n (\<lambda>r. rstatus r = ''pending'' \<and> now < rprocess_at r),
        sRetry := n (\<lambda>r. rstatus r = ''retry''),
        sActive := n (\<lambda>r. rstatus r = ''active''),
        sDead := n (\<lambda>r. rstatus r = ''dead'')\<rparr>)"

fun stats_map :: "QueueStats list \<Rightarrow> (string \<rightharpoonup> QueueStats) \<Rightarrow> (string \<rightharpoonup> QueueStats)" where
  "stats_map [] m = m"
| "stats_map (s # ss) m = stats_map ss (m(sQueue s \<mapsto> s))"

definition pg_GetQueueStats :: "engine \<Rightarrow> (pgworld, goerr + (string \<rightharpoonup> QueueStats)) state" where
  "pg_GetQueueStats E = do {
     now \<leftarrow> time_Now;
     r \<leftarrow> pool_Query (\<lambda>t. Inr (map (stats_row t now) (remdups (map rqueue (meets E t)))));
     State_Monad.return (case r of
         Inl err \<Rightarrow> Inl (WrapError ''query queue stats: '' err)
       | Inr (ss, None) \<Rightarrow> Inr (stats_map ss Map.empty)
       | Inr (ss, Some err) \<Rightarrow> Inl (WrapError ''iterate queue stats: '' err)) }"

definition pg_PromoteDueJobs :: "string list \<Rightarrow> (pgworld, int \<times> goerr option) state" where
  "pg_PromoteDueJobs queues = State_Monad.return (0, None)"

definition pg_GetJob :: "engine \<Rightarrow> string \<Rightarrow> (pgworld, goerr + Job option) state" where
  "pg_GetJob E i = do {
     r \<leftarrow> pool_Exec (checked E (text_ok E i) (\<lambda>t. (Inr (find (\<lambda>r. rid r = i) t), t)));
     State_Monad.return (case r of
         Inl err \<Rightarrow> Inl (WrapError (''get job '' @ i @ '': '') err)
       | Inr None \<Rightarrow> Inr None
       | Inr (Some row) \<Rightarrow> Inr (Some (scanJob row))) }"

definition pg_RetryDeadJob :: "engine \<Rightarrow> string \<Rightarrow> (pgworld, goerr + unit) state" where
  "pg_RetryDeadJob E i = do {
     now \<leftarrow> time_Now;
     r \<leftarrow> pool_Exec (checked E (text_ok E i) (update_rows (\<lambda>r. rid r = i \<and> rstatus r = ''dead'')
            (\<lambda>r. r\<lparr>rstatus := ''pending'', rattempts := 0, rlast_error := '''', rprocess_at := now,
              rupdated_at := now\<rparr>)));
     State_Monad.return (case r of
         Inl err \<Rightarrow> Inl (WrapError (''retry dead job '' @ i @ '': '') err)
       | Inr n \<Rightarrow>
           if n = 0 then Inl (ErrorString (''job '' @ i @ '' not found in dead status'')) else Inr ()) }"

definition pg_DeleteJob :: "engine \<Rightarrow> string \<Rightarrow> (pgworld, goerr + unit) state" where
  "pg_DeleteJob E i = do {
     r \<leftarrow> pool_Exec (checked E (text_ok E i) (\<lambda>t. (Inr (), filter (\<lambda>r. rid r \<noteq> i) t)));
     State_Monad.return (wrap_err (''delete job '' @ i @ '': '') r) }"

definition pg_Close :: "(pgworld, goerr + unit) state" where
  "pg_Close = State_Monad.return (Inr ())"

definition postgresBroker :: "engine \<Rightarrow> pgworld broker" where
  "postgresBroker E = \<lparr>
     Enqueue = pg_Enqueue E,
     Dequeue = pg_Dequeue E,
     Acknowledge = pg_Acknowledge E,
     Requeue = pg_Requeue E,
     MoveToDeadLetter = pg_MoveToDeadLetter E,
     GetJobsByStatus = pg_GetJobsByStatus E,
     GetQueueStats = pg_GetQueueStats E,
     PromoteDueJobs = pg_PromoteDueJobs,
     GetJob = pg_GetJob E,
     RetryDeadJob = pg_RetryDeadJob E,
     DeleteJob = pg_DeleteJob E,
     Close = pg_Close \<rparr>"

section \<open>Connecting\<close>

text \<open>The database \<open>NewPostgresBroker\<close> finds: without the table \<open>jobs\<close>, or with one that has the columns of the
  schema. The schema is applied as one transaction. It leaves a table that is there as it is, and creating the unique
  index on it fails if two rows that the index covers have the same key. Opening the pool is up to the client library: an
  argument.\<close>

record pgdb =
  dtable :: "row list option"
  dreplies :: "reply list"

definition schema :: "row list option \<Rightarrow> (goerr + unit) \<times> row list option" where
  "schema db = (case db of
       None \<Rightarrow> (Inr (), Some [])
     | Some t \<Rightarrow>
         if distinct (map runique_key (filter keyed t)) then (Inr (), Some t)
         else (Inl (PgError uniqueViolationCode ''could not create unique index''), Some t))"

definition exec_schema :: "(pgdb, goerr + unit) state" where
  "exec_schema = State (\<lambda>db.
     let db' = db\<lparr>dreplies := tl (dreplies db)\<rparr>; (r, t) = schema (dtable db) in
     case dreplies db of
       Lost b # _ \<Rightarrow> (Inl NetError, if b then db'\<lparr>dtable := t\<rparr> else db')
     | Broken n # _ \<Rightarrow> (Inl NetError, db')
     | _ \<Rightarrow> (r, db'\<lparr>dtable := t\<rparr>))"

definition NewPostgresBroker ::
  "(string \<Rightarrow> goerr option) \<Rightarrow> engine \<Rightarrow> string \<Rightarrow> (pgdb, goerr + pgworld broker) state" where
  "NewPostgresBroker pgxpool_New E connString =
     (case pgxpool_New connString of
        Some err \<Rightarrow> State_Monad.return (Inl (WrapError ''connect to postgres: '' err))
      | None \<Rightarrow> do {
          r \<leftarrow> exec_schema;
          State_Monad.return (case r of
              Inl err \<Rightarrow> Inl (WrapError ''apply schema: '' err)
            | Inr _ \<Rightarrow> Inr (postgresBroker E)) })"

end
