(* ===== verification/Postgres_Contract.thy ===== *)
theory Postgres_Contract
  imports Postgres_Broker Broker_Contract
begin

text \<open>
  The Postgres broker meets the contract of a broker. The phase of a job is read off the status of
  its row; the invariant is the constraints of the schema. A job can be enqueued as a new
  one when no row has its identifier (rows of completed jobs stay in the
  table), it is not yet active or finished, and no unfinished job has its unique key.
\<close>

section \<open>Phases\<close>

definition status_phase :: "string \<Rightarrow> phase" where
  "status_phase s = (if s \<in> {''pending'', ''retry''} then Queued else if s = ''active'' then Running
     else if s = ''dead'' then Buried else Gone)"

definition tphase :: "row list \<Rightarrow> string \<Rightarrow> phase" where
  "tphase t i = (case find (\<lambda>r. rid r = i) t of None \<Rightarrow> Gone | Some r \<Rightarrow> status_phase (rstatus r))"

definition pg_phase :: "pgworld \<Rightarrow> string \<Rightarrow> phase" where
  "pg_phase w = tphase (table w)"

definition pg_inv :: "pgworld \<Rightarrow> bool" where
  "pg_inv w \<longleftrightarrow> constraints (table w)"

definition pg_fresh :: "pgworld \<Rightarrow> Job \<Rightarrow> bool" where
  "pg_fresh w j \<longleftrightarrow> Status j \<in> {StatusPending, StatusRetry} \<and> (\<forall>r \<in> set (table w). rid r \<noteq> ID j)
     \<and> (UniqueKey j \<noteq> '''' \<longrightarrow> (\<forall>r \<in> set (table w). keyed r \<longrightarrow> runique_key r \<noteq> Some (UniqueKey j)))"

lemma status_phase_simps [simp]:
  "status_phase ''pending'' = Queued" "status_phase ''retry'' = Queued" "status_phase ''active'' = Running"
  "status_phase ''dead'' = Buried" "status_phase ''completed'' = Gone"
  by (simp_all add: status_phase_def)

lemma status_phase_iff:
  "status_phase s = Running \<longleftrightarrow> s = ''active''" "status_phase s = Buried \<longleftrightarrow> s = ''dead''"
  "status_phase s = Queued \<longleftrightarrow> s \<in> {''pending'', ''retry''}"
  by (auto simp: status_phase_def)

lemma find_map_same:
  assumes "\<And>r. P (f r) \<longleftrightarrow> P r"
  shows "find P (map f t) = map_option f (find P t)"
  using assms by (induction t) auto

lemma find_SomeD: "find P t = Some r \<Longrightarrow> r \<in> set t \<and> P r"
  by (induction t) (auto split: if_splits)

lemma find_snoc: "find P (t @ [x]) = (case find P t of None \<Rightarrow> if P x then Some x else None | Some r \<Rightarrow> Some r)"
  by (induction t) auto

lemma find_rid:
  assumes "distinct (map rid t)" "r \<in> set t"
  shows "find (\<lambda>x. rid x = rid r) t = Some r"
  using assms by (induction t) (auto dest: inj_onD simp: distinct_map)

lemma tphase_in: "constraints t \<Longrightarrow> r \<in> set t \<Longrightarrow> tphase t (rid r) = status_phase (rstatus r)"
  by (simp add: tphase_def constraints_def find_rid)

lemma tphase_row:
  assumes "tphase t i \<noteq> Gone"
  obtains r where "r \<in> set t" "rid r = i" "tphase t i = status_phase (rstatus r)"
  using assms by (auto simp: tphase_def dest: find_SomeD split: option.splits)

section \<open>Statements\<close>

lemma set_row:
  assumes "\<And>r. rid (f r) = rid r"
  shows "tphase (map (\<lambda>r. if rid r = i then f r else r) t) =
    (tphase t)(i := case find (\<lambda>r. rid r = i) t of None \<Rightarrow> Gone | Some r \<Rightarrow> status_phase (rstatus (f r)))"
proof
  fix k
  let ?g = "\<lambda>r. if rid r = i then f r else r"
  have "find (\<lambda>r. rid r = k) (map ?g t) = map_option ?g (find (\<lambda>r. rid r = k) t)"
    using assms by (intro find_map_same) auto
  then show "tphase (map ?g t) k = ((tphase t)(i := case find (\<lambda>r. rid r = i) t of None \<Rightarrow> Gone
      | Some r \<Rightarrow> status_phase (rstatus (f r)))) k"
    by (cases "find (\<lambda>r. rid r = k) t") (auto simp: tphase_def dest: find_SomeD)
qed

lemma constraints_set_row:
  assumes c: "constraints t"
    and f: "\<And>r. rid (f r) = rid r \<and> runique_key (f r) = runique_key r"
    and k: "\<And>r. r \<in> set t \<Longrightarrow> rid r = i \<Longrightarrow> keyed (f r) \<Longrightarrow> keyed r"
  shows "constraints (map (\<lambda>r. if rid r = i then f r else r) t)"
proof -
  let ?g = "\<lambda>r. if rid r = i then f r else r"
  have ids: "map rid (map ?g t) = map rid t" using f by simp
  have "filter keyed (map ?g t) = map ?g (filter (keyed \<circ> ?g) t)" by (simp add: filter_map)
  then have keys: "map runique_key (filter keyed (map ?g t)) = map runique_key (filter (keyed \<circ> ?g) t)"
    using f by simp
  have "distinct (map runique_key (filter (keyed \<circ> ?g) (filter keyed t)))"
    using c by (simp only: constraints_def distinct_map_filter simp_thms)
  moreover have "filter (keyed \<circ> ?g) (filter keyed t) = filter (keyed \<circ> ?g) t"
    unfolding filter_filter using k by (intro filter_cong) auto
  ultimately have "distinct (map runique_key (filter (keyed \<circ> ?g) t))" by simp
  with c show ?thesis unfolding constraints_def ids keys by simp
qed

lemma tphase_delete: "tphase (filter (\<lambda>r. rid r \<noteq> i) t) = (tphase t)(i := Gone)"
proof
  fix k
  show "tphase (filter (\<lambda>r. rid r \<noteq> i) t) k = ((tphase t)(i := Gone)) k"
    by (induction t) (auto simp: tphase_def)
qed

lemma pool_Exec_cases:
  assumes "run_state (pool_Exec st) w = (r, w')"
  shows "(\<exists>e. r = Inl e) \<and> table w' = table w \<or> table w' = snd (st (table w)) \<and> (r = fst (st (table w)) \<or> (\<exists>e. r = Inl e))"
  using assms
  by (auto simp: pool_Exec_def next_reply_def on_table_def split_beta split: reply.splits if_splits)

lemma pool_Exec_Inr:
  assumes "run_state (pool_Exec st) w = (Inr x, w')"
  shows "st (table w) = (Inr x, table w')"
  using assms
  by (auto simp: pool_Exec_def next_reply_def on_table_def split_beta prod_eq_iff split: reply.splits if_splits)

text \<open>A statement that, if it runs, leaves the table with the phases \<open>ph\<close>.\<close>

lemma exec_phases:
  assumes "run_state (pool_Exec st) w = (r, w')" "pg_inv w"
    and "constraints (snd (st (table w)))"
    and "tphase (snd (st (table w))) = ph \<or> (\<exists>e. fst (st (table w)) = Inl e) \<and> tphase (snd (st (table w))) = pg_phase w"
  shows "pg_inv w' \<and> (pg_phase w' = ph \<or> (\<exists>e. r = Inl e) \<and> pg_phase w' = pg_phase w)"
  using pool_Exec_cases [OF assms(1)] assms(2-4) by (auto simp: pg_inv_def pg_phase_def)

text \<open>What is assumed of the engine and its client library: a query meets every row of the table and
  no other, and an argument that cannot be encoded is not reported as a unique violation.\<close>

locale postgres =
  fixes E :: engine
  assumes meets_rows: "set (meets E t) = set t"
    and argument_error: "\<not> is_unique_violation (argument_error E)"
begin

lemma update_phases:
  assumes inv: "pg_inv w" and ph: "pg_phase w i \<noteq> Gone"
    and run: "run_state (pool_Exec (checked E ok (update_rows (\<lambda>r. rid r = i) f))) w = (r, w')"
    and f: "\<And>r. rid (f r) = rid r \<and> runique_key (f r) = runique_key r \<and> rstatus (f r) = s"
    and k: "s \<in> {''completed'', ''dead''} \<or> pg_phase w i = Running"
  shows "pg_inv w' \<and> phase_change r (pg_phase w) (pg_phase w') i (status_phase s)"
proof -
  let ?t = "table w" and ?t' = "map (\<lambda>r. if rid r = i then f r else r) (table w)"
  have c: "constraints ?t" using inv by (simp add: pg_inv_def)
  have "keyed r" if r: "r \<in> set ?t" "rid r = i" "keyed (f r)" for r
  proof -
    have "status_phase (rstatus r) = pg_phase w i"
      using tphase_in [OF c r(1)] r(2) by (simp add: pg_phase_def)
    with k r(3) f [of r] show ?thesis by (auto simp: keyed_def status_phase_def split: if_splits)
  qed
  then have c': "constraints ?t'" using f by (intro constraints_set_row [OF c]) auto
  obtain r0 where "find (\<lambda>r. rid r = i) ?t = Some r0"
    using ph by (auto simp: pg_phase_def tphase_def split: option.splits)
  then have "tphase ?t' = (pg_phase w)(i := status_phase s)"
    using f by (subst set_row) (simp_all add: pg_phase_def)
  with c c' exec_phases [OF run inv, of "(pg_phase w)(i := status_phase s)"] show ?thesis
    by (auto simp: checked_def update_rows_def write_table_def phase_change_def pg_phase_def)
qed

lemma time_same: "run_state time_Now w = (t, u) \<Longrightarrow> table u = table w"
  by (auto simp: time_Now_def)

lemma same_table: "table u = table w \<Longrightarrow> pg_phase u = pg_phase w \<and> pg_inv u = pg_inv w"
  by (simp add: pg_phase_def pg_inv_def)

lemma phase_change_wrap: "phase_change r p p' i q \<Longrightarrow> phase_change (wrap_err m r) p p' i q"
  by (auto simp: phase_change_def wrap_err_def)

lemma Acknowledge_pg:
  assumes "pg_inv w" "pg_phase w (ID j) = Running" "run_state (pg_Acknowledge E j) w = (r, w')"
  shows "pg_inv w' \<and> phase_change r (pg_phase w) (pg_phase w') (ID j) Gone"
proof -
  obtain t u where u: "run_state time_Now w = (t, u)" by (cases "run_state time_Now w")
  note S = same_table [OF time_same [OF u]]
  obtain r0 where r0: "run_state (pool_Exec (checked E (text_ok E (ID j)) (update_rows (\<lambda>r. rid r = ID j)
      (\<lambda>r. r\<lparr>rstatus := ''completed'', rupdated_at := t\<rparr>)))) u = (r0, w')"
    and r: "r = wrap_err (''acknowledge job '' @ ID j @ '': '') r0"
    using assms(3) u by (auto simp: pg_Acknowledge_def split: prod.splits)
  have "pg_inv w' \<and> phase_change r0 (pg_phase u) (pg_phase w') (ID j) (status_phase ''completed'')"
    by (rule update_phases [OF _ _ r0]) (use assms S in auto)
  with r S show ?thesis by (auto intro: phase_change_wrap)
qed

lemma Requeue_pg:
  assumes "pg_inv w" "pg_phase w (ID j) = Running" "run_state (pg_Requeue E j d) w = (r, w')"
  shows "pg_inv w' \<and> phase_change r (pg_phase w) (pg_phase w') (ID j) Queued"
proof -
  obtain t u where u: "run_state time_Now w = (t, u)" by (cases "run_state time_Now w")
  obtain t' v where v: "run_state time_Now u = (t', v)" by (cases "run_state time_Now u")
  have S: "pg_phase v = pg_phase w" "pg_inv v = pg_inv w"
    using time_same [OF u] time_same [OF v] by (simp_all add: pg_phase_def pg_inv_def)
  obtain r0 where r0: "run_state (pool_Exec (checked E (text_ok E (ID j) \<and> int4 (Attempts j) \<and> text_ok E (LastError j))
        (update_rows (\<lambda>r. rid r = ID j) (\<lambda>r. r\<lparr>rstatus := ''retry'', rattempts := Attempts j,
          rlast_error := LastError j, rprocess_at := stamp E (t + d), rupdated_at := t'\<rparr>)))) v = (r0, w')"
    and r: "r = wrap_err (''requeue job '' @ ID j @ '': '') r0"
    using assms(3) u v by (auto simp: pg_Requeue_def Let_def split: prod.splits)
  have "pg_inv w' \<and> phase_change r0 (pg_phase v) (pg_phase w') (ID j) (status_phase ''retry'')"
    by (rule update_phases [OF _ _ r0]) (use assms S in auto)
  with r S show ?thesis by (auto intro: phase_change_wrap)
qed

lemma MoveToDeadLetter_pg:
  assumes "pg_inv w" "pg_phase w (ID j) = Running" "run_state (pg_MoveToDeadLetter E j) w = ((r, j'), w')"
  shows "pg_inv w' \<and> phase_change r (pg_phase w) (pg_phase w') (ID j) Buried"
proof -
  obtain t u where u: "run_state time_Now w = (t, u)" by (cases "run_state time_Now w")
  note S = same_table [OF time_same [OF u]]
  obtain r0 where r0: "run_state (pool_Exec (checked E (text_ok E (ID j) \<and> int4 (Attempts j) \<and> text_ok E (LastError j))
        (update_rows (\<lambda>r. rid r = ID j) (\<lambda>r. r\<lparr>rstatus := ''dead'', rattempts := Attempts j,
          rlast_error := LastError j, rupdated_at := t\<rparr>)))) u = (r0, w')"
    and r: "r = wrap_err (''move job '' @ ID j @ '' to dead letter: '') r0"
    using assms(3) u by (auto simp: pg_MoveToDeadLetter_def split: prod.splits)
  have "pg_inv w' \<and> phase_change r0 (pg_phase u) (pg_phase w') (ID j) (status_phase ''dead'')"
    by (rule update_phases [OF _ _ r0]) (use assms S in auto)
  with r S show ?thesis by (auto intro: phase_change_wrap)
qed

lemma DeleteJob_pg:
  assumes "pg_inv w" "run_state (pg_DeleteJob E i) w = (r, w')"
  shows "pg_inv w' \<and> phase_change r (pg_phase w) (pg_phase w') i Gone"
proof -
  let ?t' = "filter (\<lambda>r. rid r \<noteq> i) (table w)"
  obtain r0 where r0: "run_state (pool_Exec (checked E (text_ok E i) (\<lambda>t. (Inr (), filter (\<lambda>r. rid r \<noteq> i) t)))) w = (r0, w')"
    and r: "r = wrap_err (''delete job '' @ i @ '': '') r0"
    using assms(2) by (auto simp: pg_DeleteJob_def split: prod.splits)
  have "filter keyed ?t' = filter (\<lambda>r. rid r \<noteq> i) (filter keyed (table w))"
    by (simp add: filter_filter conj_commute)
  then have c: "constraints ?t'"
    using assms(1) by (simp only: pg_inv_def constraints_def distinct_map_filter simp_thms)
  have "tphase ?t' = (pg_phase w)(i := Gone)" by (simp add: tphase_delete pg_phase_def)
  with c exec_phases [OF r0 assms(1), of "(pg_phase w)(i := Gone)"] assms(1)
  have "pg_inv w' \<and> phase_change r0 (pg_phase w) (pg_phase w') i Gone"
    by (auto simp: checked_def phase_change_def pg_phase_def pg_inv_def)
  with r show ?thesis by (auto intro: phase_change_wrap)
qed

lemma RetryDeadJob_pg:
  assumes inv: "pg_inv w" and run: "run_state (pg_RetryDeadJob E i) w = (r, w')"
  shows "pg_inv w' \<and> (pg_phase w i = Buried \<and> pg_phase w' = (pg_phase w)(i := Queued)
    \<or> (\<exists>e. r = Inl e) \<and> pg_phase w' = pg_phase w)"
proof -
  obtain t u where u: "run_state time_Now w = (t, u)" by (cases "run_state time_Now w")
  note S = time_same [OF u]
  let ?f = "\<lambda>r. r\<lparr>rstatus := ''pending'', rattempts := 0, rlast_error := '''', rprocess_at := t, rupdated_at := t\<rparr>"
  let ?cond = "\<lambda>r. rid r = i \<and> rstatus r = ''dead''"
  let ?t' = "map (\<lambda>r. if ?cond r then ?f r else r) (table w)"
  obtain r0 where r0: "run_state (pool_Exec (checked E (text_ok E i) (update_rows ?cond ?f))) u = (r0, w')"
    and r: "\<And>e. r0 = Inl e \<Longrightarrow> \<exists>e. r = Inl e" "r0 = Inr 0 \<Longrightarrow> \<exists>e. r = Inl e"
    using run u by (auto simp: pg_RetryDeadJob_def split: prod.splits)
  have c: "constraints (table w)" using inv by (simp add: pg_inv_def)
  note X = pool_Exec_cases [OF r0, unfolded checked_def update_rows_def write_table_def]
  show ?thesis
  proof (cases "pg_phase w i = Buried")
    case True
    then have "tphase (table w) i = Buried" by (simp add: pg_phase_def)
    then obtain r1 where r1: "r1 \<in> set (table w)" "rid r1 = i" "rstatus r1 = ''dead''"
      using tphase_row [of "table w" i] status_phase_iff(2) by (metis phase.distinct(5))
    have same: "x = r1" if "x \<in> set (table w)" "rid x = i" for x
      using that r1 c by (auto simp: constraints_def distinct_map dest: inj_onD)
    have t': "?t' = map (\<lambda>r. if rid r = i then ?f r else r) (table w)"
    proof (rule map_cong [OF refl])
      fix x
      assume x: "x \<in> set (table w)"
      show "(if ?cond x then ?f x else x) = (if rid x = i then ?f x else x)"
        using same [OF x] r1(3) by (cases "rid x = i") simp_all
    qed
    have "find (\<lambda>r. rid r = i) (table w) = Some r1"
      using find_rid r1 c by (auto simp: constraints_def)
    then have "tphase ?t' = (pg_phase w)(i := Queued)"
      unfolding t' by (subst set_row) (simp_all add: pg_phase_def)
    with X S True r c show ?thesis by (auto simp: pg_inv_def pg_phase_def split: if_splits)
  next
    case False
    then have none: "\<not> ?cond x" if "x \<in> set (table w)" for x
      using tphase_in [OF c that] by (auto simp: pg_phase_def)
    have "?t' = table w" using none by (intro map_idI if_not_P)
    moreover have "filter ?cond (table w) = []" using none by (auto simp: filter_empty_conv)
    ultimately show ?thesis using X S c r by (auto simp: pg_inv_def pg_phase_def split: if_splits)
  qed
qed

lemma insert_cases:
  assumes c: "constraints (table w)" and fresh: "pg_fresh w j"
  shows "(\<exists>e. insert_job E j (table w) = (Inl e, table w) \<and> \<not> is_unique_violation e)
    \<or> (\<exists>t. insert_job E j (table w) = (Inr (), t) \<and> constraints t \<and> tphase t = (pg_phase w)(ID j := Queued))"
proof -
  let ?t = "table w" and ?u = "if UniqueKey j \<noteq> '''' then Some (UniqueKey j) else None"
  have new: "constraints (?t @ [x])" "tphase (?t @ [x]) = (pg_phase w)(ID j := Queued)"
    if x: "rid x = ID j" "rstatus x = Status j" "runique_key x = ?u" for x
  proof -
    show "constraints (?t @ [x])" using c fresh x by (auto simp: constraints_def pg_fresh_def keyed_def)
    have "find (\<lambda>r. rid r = ID j) ?t = None" using fresh by (simp add: pg_fresh_def find_None_iff)
    then show "tphase (?t @ [x]) = (pg_phase w)(ID j := Queued)"
      using x(1,2) fresh by (auto simp: tphase_def pg_phase_def fun_eq_iff pg_fresh_def find_snoc
          status_phase_def status_defs split: option.split)
  qed
  show ?thesis
    using argument_error
    by (auto simp: insert_job_def Let_def write_table_def new is_unique_violation_def
        uniqueViolationCode_def split: option.split)
qed

lemma Enqueue_pg:
  assumes inv: "pg_inv w" and fresh: "pg_fresh w j" and run: "run_state (pg_Enqueue E j) w = (r, w')"
  shows "pg_inv w' \<and> pg_phase w (ID j) = Gone \<and> phase_change r (pg_phase w) (pg_phase w') (ID j) Queued"
proof -
  obtain r0 where r0: "run_state (pool_Exec (insert_job E j)) w = (r0, w')"
    and r: "r = (case r0 of Inl err \<Rightarrow> if is_unique_violation err then Inr () else Inl (WrapError ''insert job: '' err)
        | Inr _ \<Rightarrow> Inr ())"
    using run by (auto simp: pg_Enqueue_def split: prod.splits)
  have c: "constraints (table w)" using inv by (simp add: pg_inv_def)
  have "find (\<lambda>r. rid r = ID j) (table w) = None" using fresh by (simp add: pg_fresh_def find_None_iff)
  then have gone: "pg_phase w (ID j) = Gone" by (simp add: pg_phase_def tphase_def)
  have net: "r0 = Inl e \<Longrightarrow> is_unique_violation e \<Longrightarrow> r0 = fst (insert_job E j (table w))" for e
    using r0 by (auto simp: pool_Exec_def next_reply_def on_table_def is_unique_violation_def split_beta
        split: reply.splits if_splits)
  from insert_cases [OF c fresh] show ?thesis
  proof (elim disjE exE conjE)
    fix e
    assume e: "insert_job E j (table w) = (Inl e, table w)" "\<not> is_unique_violation e"
    then have "table w' = table w" "\<exists>e. r = Inl e"
      using pool_Exec_cases [OF r0] net r by (auto split: sum.splits if_splits)
    with c gone show ?thesis by (simp add: pg_inv_def pg_phase_def phase_change_def)
  next
    fix t
    assume t: "insert_job E j (table w) = (Inr (), t)" "constraints t" "tphase t = (pg_phase w)(ID j := Queued)"
    then have "table w' = t \<or> table w' = table w \<and> (\<exists>e. r = Inl e)"
      using pool_Exec_cases [OF r0] net r by (auto split: sum.splits if_splits)
    with c gone t show ?thesis by (auto simp: pg_inv_def pg_phase_def phase_change_def)
  qed
qed

text \<open>Claiming a row.\<close>

lemma claim_cases:
  assumes c: "constraints (table w)"
  shows "claim_row E q now skip (table w) = (Inr None, table w)
    \<or> (\<exists>r t. claim_row E q now skip (table w) = (Inr (Some r), t) \<and> constraints t
        \<and> pg_phase w (rid r) = Queued \<and> tphase t = (pg_phase w)(rid r := Running))"
proof (cases "select_rows E (\<lambda>r. due q now r \<and> rid r \<notin> set skip) (\<lambda>r. (rpriority r, rprocess_at r)) (table w)")
  case Nil
  then show ?thesis by (simp add: claim_row_def)
next
  case (Cons r rs)
  let ?f = "\<lambda>x. x\<lparr>rstatus := ''active'', rupdated_at := now\<rparr>"
  let ?t' = "map (\<lambda>x. if rid x = rid r then ?f x else x) (table w)"
  have "r \<in> set (select_rows E (\<lambda>r. due q now r \<and> rid r \<notin> set skip) (\<lambda>r. (rpriority r, rprocess_at r)) (table w))"
    by (simp add: Cons)
  then have r: "r \<in> set (table w)" "rstatus r \<in> {''pending'', ''retry''}"
    by (auto simp: select_rows_def meets_rows due_def)
  have same: "x = r" if "x \<in> set (table w)" "rid x = rid r" for x
    using that r c by (auto simp: constraints_def distinct_map dest: inj_onD)
  have c': "constraints ?t'"
    using r by (intro constraints_set_row [OF c]) (auto simp: keyed_def dest!: same)
  have "tphase ?t' = (pg_phase w)(rid r := Running)"
    using find_rid [of "table w" r] r c by (subst set_row) (simp_all add: pg_phase_def constraints_def)
  moreover have "pg_phase w (rid r) = Queued"
    using tphase_in [OF c r(1)] r(2) by (auto simp: pg_phase_def)
  ultimately show ?thesis using c' by (simp add: claim_row_def Cons write_table_def Let_def)
qed

lemma claim_exec:
  assumes "pg_inv w" "run_state (pool_Exec (claim_row E q now skip)) w = (r, w')"
  shows "pg_inv w'"
    and "r = Inr (Some x) \<Longrightarrow> pg_phase w (rid x) = Queued \<and> pg_phase w' = (pg_phase w)(rid x := Running)"
    and "r = Inr None \<Longrightarrow> pg_phase w' = pg_phase w"
    and "r = Inl e \<Longrightarrow> pg_phase w' = pg_phase w
      \<or> (\<exists>i. pg_phase w i = Queued \<and> pg_phase w' = (pg_phase w)(i := Running))"
proof -
  have c: "constraints (table w)" using assms(1) by (simp add: pg_inv_def)
  have "pg_inv w' \<and> (r = Inr (Some x) \<longrightarrow> pg_phase w (rid x) = Queued \<and> pg_phase w' = (pg_phase w)(rid x := Running))
    \<and> (r = Inr None \<longrightarrow> pg_phase w' = pg_phase w)
    \<and> (r = Inl e \<longrightarrow> pg_phase w' = pg_phase w
      \<or> (\<exists>i. pg_phase w i = Queued \<and> pg_phase w' = (pg_phase w)(i := Running)))"
    using claim_cases [OF c, of q now skip] pool_Exec_cases [OF assms(2)] c
    by (auto simp: pg_inv_def pg_phase_def)
  then show "pg_inv w'"
    "r = Inr (Some x) \<Longrightarrow> pg_phase w (rid x) = Queued \<and> pg_phase w' = (pg_phase w)(rid x := Running)"
    "r = Inr None \<Longrightarrow> pg_phase w' = pg_phase w"
    "r = Inl e \<Longrightarrow> pg_phase w' = pg_phase w
      \<or> (\<exists>i. pg_phase w i = Queued \<and> pg_phase w' = (pg_phase w)(i := Running))" by blast+
qed

lemma Dequeue_pg:
  assumes "pg_inv w" "run_state (pg_Dequeue E qs) w = (r, w')"
  shows "pg_inv w' \<and> (case r of
      Inl _ \<Rightarrow> pg_phase w' = pg_phase w \<or> (\<exists>i. pg_phase w i = Queued \<and> pg_phase w' = (pg_phase w)(i := Running))
    | Inr None \<Rightarrow> pg_phase w' = pg_phase w
    | Inr (Some j) \<Rightarrow> pg_phase w (ID j) = Queued \<and> pg_phase w' = (pg_phase w)(ID j := Running))"
  using assms
proof (induction qs arbitrary: w)
  case (Cons q qs)
  obtain t u where u: "run_state time_Now w = (t, u)" by (cases "run_state time_Now w")
  obtain skip v where v: "run_state next_locked u = (skip, v)" by (cases "run_state next_locked u")
  have "table v = table w" using time_same [OF u] v by (auto simp: next_locked_def)
  note S = same_table [OF this]
  obtain r0 x where x: "run_state (pool_Exec (claim_row E q t skip)) v = (r0, x)" (is "?run = _") by (cases ?run)
  have inv: "pg_inv v" using S Cons.prems(1) by simp
  note X = claim_exec [OF inv x]
  have run: "run_state (case r0 of Inr None \<Rightarrow> pg_Dequeue E qs
      | Inl err \<Rightarrow> State_Monad.return (Inl (WrapError (''dequeue from '' @ q @ '': '') err))
      | Inr (Some row) \<Rightarrow> State_Monad.return (Inr (Some (scanJob row)))) x = (r, w')"
    using Cons.prems(2) u v x by (simp del: append_Cons append.simps)
  consider (err) e where "r0 = Inl e" | (none) "r0 = Inr None" | (some) y where "r0 = Inr (Some y)"
    by (cases r0; cases "projr r0") auto
  then show ?case
  proof cases
    case err
    with run X(1) X(4) [OF err] S show ?thesis by auto
  next
    case none
    with run have "run_state (pg_Dequeue E qs) x = (r, w')" by simp
    moreover have eq: "pg_phase x = pg_phase w" using X(3) [OF none] S by simp
    ultimately show ?thesis using Cons.IH [OF X(1)] unfolding eq by blast
  next
    case some
    with run X(1) X(2) [OF some] S show ?thesis by (auto simp: scanJob_def)
  qed
qed auto

lemma pure_query: "run_state (pool_Query q) w = (r, w') \<Longrightarrow> table w' = table w"
  by (auto simp: pool_Query_def next_reply_def)

lemma reads_pg:
  shows "run_state (pg_GetJob E i) w = (g, w') \<Longrightarrow> table w' = table w"
    and "run_state (pg_GetJobsByStatus E st l) w = (js, w') \<Longrightarrow> table w' = table w"
    and "run_state (pg_GetQueueStats E) w = (m, w') \<Longrightarrow> table w' = table w"
proof -
  show "run_state (pg_GetJob E i) w = (g, w') \<Longrightarrow> table w' = table w"
    using pool_Exec_cases [of "checked E (text_ok E i) (\<lambda>t. (Inr (find (\<lambda>r. rid r = i) t), t))" w]
    by (auto simp: pg_GetJob_def checked_def split: prod.splits)
  show "run_state (pg_GetJobsByStatus E st l) w = (js, w') \<Longrightarrow> table w' = table w"
    by (auto simp: pg_GetJobsByStatus_def split: prod.splits dest: pure_query)
  show "run_state (pg_GetQueueStats E) w = (m, w') \<Longrightarrow> table w' = table w"
    by (auto simp: pg_GetQueueStats_def split: prod.splits dest!: pure_query time_same)
qed

end

sublocale postgres \<subseteq> contract: broker_contract "postgresBroker E" pg_inv pg_phase "\<lambda>_. True" pg_fresh
proof (unfold_locales, goal_cases)
  case (2 s j r s')
  then show ?case by (intro Enqueue_pg) (simp_all add: postgresBroker_def)
next
  case (3 s qs j s')
  then show ?case using Dequeue_pg [of s qs "Inr (Some j)" s'] by (simp add: postgresBroker_def)
next
  case (4 s qs s')
  then show ?case using Dequeue_pg [of s qs "Inr None" s'] by (simp add: postgresBroker_def)
next
  case (5 s qs err s')
  then show ?case using Dequeue_pg [of s qs "Inl err" s'] by (simp add: postgresBroker_def)
next
  case (6 s j r s')
  then show ?case by (intro Acknowledge_pg) (simp_all add: postgresBroker_def)
next
  case (7 s j d r s')
  then show ?case by (intro Requeue_pg) (simp_all add: postgresBroker_def)
next
  case (8 s j r j' s')
  then show ?case by (intro MoveToDeadLetter_pg) (simp_all add: postgresBroker_def)
next
  case (9 s qs r' s')
  then show ?case by (simp add: postgresBroker_def pg_PromoteDueJobs_def)
next
  case (10 s i r s')
  then show ?case by (intro RetryDeadJob_pg) (simp_all add: postgresBroker_def)
next
  case (11 s i r s')
  then show ?case by (intro DeleteJob_pg) (simp_all add: postgresBroker_def)
next
  case (12 s i g s')
  then show ?case using same_table [OF reads_pg(1)] by (simp add: postgresBroker_def)
next
  case (13 s st l js s')
  then show ?case using same_table [OF reads_pg(2)] by (simp add: postgresBroker_def)
next
  case (14 s m s')
  then show ?case using same_table [OF reads_pg(3)] by (simp add: postgresBroker_def)
next
  case (15 s r s')
  then show ?case by (simp add: postgresBroker_def pg_Close_def)
qed simp

text \<open>An engine that stores values as they are and meets rows in the order of the table.\<close>

definition plain_engine :: engine where
  "plain_engine = \<lparr>jsonb = Some, stamp = (\<lambda>t. t), text_ok = (\<lambda>_. True),
     argument_error = ErrorString ''argument out of range'', meets = (\<lambda>t. t)\<rparr>"

interpretation plain: postgres plain_engine
  by unfold_locales (simp_all add: plain_engine_def is_unique_violation_def)

end
