(* ===== verification/Cluster_Samples.thy ===== *)
theory Cluster_Samples
  imports Cluster Redis_Functional Postgres_Contract
begin

text \<open>
  Concrete servers and runs on which the properties of clusters are instantiated.
\<close>

section \<open>Steps of a cluster of one server\<close>

lemma enqueue_run:
  assumes "cluster_run f2i B fresh free c evs (ns, s)" "fresh s j" "run_state (Enqueue B j) s = (r, s')"
  shows "cluster_run f2i B fresh free c (evs @ [Enqueued j]) (ns, s')"
  using assms by (blast intro: cluster_run.more cluster_step.enqueue)

lemma node_run:
  assumes "cluster_run f2i B fresh free c evs ([(srv, nd)], s)" "node_step f2i srv (nd, s) ev (nd', s')"
  shows "cluster_run f2i B fresh free c (evs @ [ev]) ([(srv, nd')], s')"
proof -
  have "cluster_step f2i B fresh free ([(srv, nd)], s) ev ([(srv, nd)][0 := (srv, nd')], s')"
    using assms(2) by (intro cluster_step.node) simp_all
  with assms(1) show ?thesis by (auto intro: cluster_run.more)
qed

lemma poll_queue_one: "0 \<le> i \<Longrightarrow> poll_queue [q] i = Some q"
  by (simp add: poll_queue_def go_rem_def)

lemma poll_run:
  assumes run: "cluster_run f2i B fresh free c evs ([(srv, nd)], s)"
    and srv: "schedule (dispatcher srv) = [q]" "dbroker (dispatcher srv) = B"
    and nd: "dst nd = DPoll i" "0 \<le> i" "main nd = Serving" "\<not> cancelled nd" "jobCh nd = []" "k < length (ws nd)" "ws nd ! k = Idle"
    and "run_state (Dequeue B [q]) s = (Inr (Some j), s')"
  shows "cluster_run f2i B fresh free c (evs @ [Dispatched, Tau])
    ([(srv, nd\<lparr>dst := DPoll (wrap64 (i + 1)), ws := (ws nd)[k := Busy j]\<rparr>)], s')"
proof -
  let ?nd = "nd\<lparr>dst := DSubmit (wrap64 (i + 1)) j, nhost := nhost nd\<rparr>"
  have "node_step f2i srv (nd, s) Dispatched (?nd, s')"
    using assms by (intro node_step.dispatch) (simp_all add: poll_queue_one Let_def)
  note r = node_run [OF run this]
  have "node_step f2i srv (?nd, s') Tau (?nd\<lparr>dst := DPoll (wrap64 (i + 1)), ws := (ws ?nd)[k := Busy j]\<rparr>, s')"
    using nd by (intro node_step.handoff) simp_all
  from node_run [OF r this] show ?thesis by simp
qed

section \<open>Two servers\<close>

text \<open>A server with two workers and no handlers, on one queue.\<close>

definition bare_server :: "'s broker \<Rightarrow> ('s, unit) Server" where
  "bare_server B = \<lparr>pool = \<lparr>chanCap = 2, numWorkers = 2, registry = NewRegistry, pbroker = B,
      middleware = [LoggingMiddleware]\<rparr>,
     dispatcher = NewDispatcher B [\<lparr>Name = ''q'', Weight = 1\<rparr>] defaultPollInterval,
     scheduler = NewScheduler B [''q''] defaultSchedulerInterval\<rparr>"

definition bare_host :: "unit host" where
  "bare_host = \<lparr>clock = 0, ticks = [], logs = [], draws = [], user = ()\<rparr>"

lemma bare_server_ok: "server_ok B st (bare_server B)"
  by (simp add: server_ok_def handlers_ok_def bare_server_def NewRegistry_def NewDispatcher_def NewScheduler_def)

text \<open>A server that is polling its queue, with the states of its workers.\<close>

definition bare_node :: "wstate list \<Rightarrow> int \<Rightarrow> unit node" where
  "bare_node l i = \<lparr>nhost = bare_host, dst = DPoll i, sst = SWait, jobCh = [], ws = l, main = Serving,
     cancelled = False\<rparr>"

lemma start_bare:
  assumes "schedule (dispatcher srv) = [q]" "numWorkers (pool srv) = int (length l)" "set l \<subseteq> {Idle}"
    and "0 < interval (scheduler srv)"
  shows "start_cluster [(srv, bare_host)] = [(srv, bare_node l 0)]"
proof -
  have "l = replicate (length l) Idle" using assms(3) by (intro replicate_eqI) auto
  with assms(1,2,4) show ?thesis
    by (simp add: start_cluster_def Server_start_def bare_node_def dispatcher_start_def scheduler_start_def Pool_Start_def)
qed

lemma bare_poll_run:
  assumes "cluster_run f2i B fresh free c evs ([(srv, bare_node l i)], s)"
    and "schedule (dispatcher srv) = [q]" "dbroker (dispatcher srv) = B" "0 \<le> i" "k < length l" "l ! k = Idle"
    and "run_state (Dequeue B [q]) s = (Inr (Some j), s')"
  shows "cluster_run f2i B fresh free c (evs @ [Dispatched, Tau]) ([(srv, bare_node (l[k := Busy j]) (wrap64 (i + 1)))], s')"
  using poll_run [OF assms(1-3), of i k j s'] assms(4-7) by (simp add: bare_node_def)

lemma bare_sel:
  "schedule (dispatcher (bare_server B)) = [''q'']" "dbroker (dispatcher (bare_server B)) = B"
  "numWorkers (pool (bare_server B)) = 2" "0 < interval (scheduler (bare_server B))"
  by (simp_all add: bare_server_def NewDispatcher_def NewScheduler_def defaultSchedulerInterval_def Second_def
      buildPollSchedule_concat)

lemma two_busy:
  assumes "fresh s j" "run_state (Enqueue B j) s = (r, s1)" "fresh s1 j'" "run_state (Enqueue B j') s1 = (r', s2)"
    and "run_state (Dequeue B [''q'']) s2 = (Inr (Some d), s3)" "run_state (Dequeue B [''q'']) s3 = (Inr (Some d'), s4)"
  shows "\<exists>evs ns. cluster_run f2i B fresh free (start_cluster [(bare_server B, bare_host)], s) evs (ns, s4)
    \<and> busy ns 0 0 d \<and> busy ns 0 1 d'"
proof -
  let ?run = "cluster_run f2i B fresh free ([(bare_server B, bare_node [Idle, Idle] 0)], s)"
  have "?run [] ([(bare_server B, bare_node [Idle, Idle] 0)], s)" by (rule cluster_run.start)
  from enqueue_run [OF enqueue_run [OF this assms(1,2)] assms(3,4)]
  have "?run [Enqueued j, Enqueued j'] ([(bare_server B, bare_node [Idle, Idle] 0)], s2)" by simp
  from bare_poll_run [OF this bare_sel(1,2), of 0, OF _ _ _ assms(5)]
  have "?run [Enqueued j, Enqueued j', Dispatched, Tau] ([(bare_server B, bare_node [Busy d, Idle] 1)], s3)"
    by (simp add: wrap64_def)
  from bare_poll_run [OF this bare_sel(1,2), of 1, OF _ _ _ assms(6)]
  have "?run [Enqueued j, Enqueued j', Dispatched, Tau, Dispatched, Tau]
      ([(bare_server B, bare_node [Busy d, Busy d'] (wrap64 2))], s4)" by simp
  moreover have "start_cluster [(bare_server B, bare_host)] = [(bare_server B, bare_node [Idle, Idle] 0)]"
    by (rule start_bare) (simp_all add: bare_sel)
  moreover have "busy [(bare_server B, bare_node [Busy d, Busy d'] i)] 0 0 d"
    "busy [(bare_server B, bare_node [Busy d, Busy d'] i)] 0 1 d'" for i
    by (simp_all add: busy_def bare_node_def)
  ultimately show ?thesis by metis
qed

text \<open>A server with a handler that does nothing and succeeds, for the jobs of the empty type.\<close>

definition echo :: "unit Handler" where
  "echo ctx job = State_Monad.return (Returned None, job)"

definition echo_server :: "'s broker \<Rightarrow> ('s, unit) Server" where
  "echo_server B = Server_Register (bare_server B) '''' echo"

lemma echo_sel:
  "schedule (dispatcher (echo_server B)) = [''q'']" "dbroker (dispatcher (echo_server B)) = B"
  "numWorkers (pool (echo_server B)) = 2" "registry (pool (echo_server B)) = ['''' \<mapsto> echo]"
  "middleware (pool (echo_server B)) = [LoggingMiddleware]" "pbroker (pool (echo_server B)) = B"
  "0 < interval (scheduler (echo_server B))"
  by (simp_all add: bare_sel echo_server_def Server_Register_def)
   (simp_all add: bare_server_def Register_def NewRegistry_def)

lemma echo_logged: "fst (run_state (Chain echo [LoggingMiddleware] ctx job) h) = (Returned None, job)"
  by (simp add: Chain_def LoggingMiddleware_def echo_def slog_def time_Now_def split: prod.splits list.splits)

lemma echo_server_ok: "server_ok B st (echo_server B)"
  using bare_server_ok [of B st]
  by (auto simp: server_ok_def handlers_ok_def echo_sel echo_logged) (simp_all add: echo_server_def Server_Register_def)

lemma echo_done:
  assumes "Type d = ''''" "run_state (Dequeue B [''q'']) s = (Inr (Some d), s1)" "run_state (Acknowledge B d) s1 = (Inr (), s2)"
  shows "\<exists>evs ns. cluster_run f2i B fresh free (start_cluster [(echo_server B, bare_host)], s) evs (ns, s2)
    \<and> (\<forall>i. Deleted i \<notin> set evs)"
proof -
  let ?srv = "echo_server B" and ?nd = "bare_node [Busy d, Idle] 1"
  let ?run = "cluster_run f2i B fresh free ([(?srv, bare_node [Idle, Idle] 0)], s)"
  have "?run [] ([(?srv, bare_node [Idle, Idle] 0)], s)" by (rule cluster_run.start)
  from bare_poll_run [OF this echo_sel(1,2), of 0, OF _ _ _ assms(2)]
  have 1: "?run [Dispatched, Tau] ([(?srv, ?nd)], s1)"
    by (simp add: wrap64_def)
  define ctx where "ctx = \<lparr>Deadline = None, CancelledAt = None\<rparr>"
  obtain a h where ah: "run_state (run_job f2i (pool ?srv) ctx d) (nhost ?nd) = (a, h)" by force
  have a: "a = Ack d" using ah assms(1) echo_logged [of ctx d "nhost ?nd"]
    by (auto simp: run_job_def Registry_Get_def echo_sel runHandler_def split: prod.splits)
  let ?nd' = "?nd\<lparr>ws := [Recording a, Idle], nhost := h\<rparr>"
  have "node_step f2i ?srv (?nd, s1) (Ran d a) (?nd\<lparr>ws := (ws ?nd)[0 := Recording a], nhost := h\<rparr>, s1)"
    using ah by (intro node_step.ran) (simp_all add: bare_node_def)
  from node_run [OF 1 this] have 2: "?run [Dispatched, Tau, Ran d a] ([(?srv, ?nd')], s1)"
    by (simp add: bare_node_def)
  have "node_step f2i ?srv (?nd', s1) (Recorded a) (?nd'\<lparr>ws := (ws ?nd')[0 := Idle], nhost := h\<rparr>, s2)"
    using assms(3) a by (intro node_step.recorded) (simp_all add: bare_node_def acknowledge_def echo_sel)
  note 3 = node_run [OF 2 this]
  moreover have "start_cluster [(?srv, bare_host)] = [(?srv, bare_node [Idle, Idle] 0)]"
    by (rule start_bare) (simp_all add: echo_sel)
  ultimately show ?thesis by (intro exI conjI) auto
qed

text \<open>A server is killed while its worker has a job.\<close>

lemma killed_run:
  assumes "run_state (Dequeue B [''q'']) s = (Inr (Some d), s1)"
  shows "\<exists>evs ns. cluster_run f2i B fresh free (start_cluster [(bare_server B, bare_host)], s) evs (ns, s1)
    \<and> cluster_jobs ns = {#}"
proof -
  let ?run = "cluster_run f2i B fresh free ([(bare_server B, bare_node [Idle, Idle] 0)], s)"
  have "?run [] ([(bare_server B, bare_node [Idle, Idle] 0)], s)" by (rule cluster_run.start)
  from bare_poll_run [OF this bare_sel(1,2), of 0, OF _ _ _ assms]
  have "?run [Dispatched, Tau] ([(bare_server B, bare_node [Busy d, Idle] 1)], s1)" by (simp add: wrap64_def)
  note run = node_run [OF this node_step.kill]
  have "start_cluster [(bare_server B, bare_host)] = [(bare_server B, bare_node [Idle, Idle] 0)]"
    by (rule start_bare) (simp_all add: bare_sel)
  with run show ?thesis
    by (intro exI conjI) (auto simp: cluster_jobs_def node_jobs_def bare_node_def)
qed

section \<open>Two jobs in Redis\<close>

lemma mem_empty_inv: "redis_inv map_of text_codec (\<lambda>_. True) (mem_world t [] [])"
  by (simp add: redis_inv_def winv_def well_placed_empty)

lemma redis_two_jobs:
  fixes B defines "B \<equiv> redisBroker text_codec mem_redis"
  shows "\<exists>s1 s2 s3 s4. run_state (Enqueue B (sample_job ''a'' ''q'' 0)) (mem_world 0 [] []) = (Inr (), s1)
    \<and> redis_phase map_of s1 ''b'' = Gone
    \<and> run_state (Enqueue B (sample_job ''b'' ''q'' 0)) s1 = (Inr (), s2)
    \<and> run_state (Dequeue B [''q'']) s2 = (Inr (Some (sample_job ''a'' ''q'' 0)), s3)
    \<and> run_state (Dequeue B [''q'']) s3 = (Inr (Some (sample_job ''b'' ''q'' 0)), s4)"
proof -
  let ?a = "sample_job ''a'' ''q'' 0" and ?b = "sample_job ''b'' ''q'' 0" and ?w = "mem_world 0 [] []"
  have rel: "reliable ?w" "typed (map_of (store ?w))" by (simp_all add: reliable_def)
  obtain r1 s1 where s1: "run_state (redis_Enqueue text_codec mem_redis ?a) ?w = (r1, s1)" by force
  note E1 = mem.reliable_Enqueue [OF rel text_codec_of(1) s1]
  have t1: "typed (map_of (store s1))" using E1(2) by simp
  obtain r2 s2 where s2: "run_state (redis_Enqueue text_codec mem_redis ?b) s1 = (r2, s2)" by force
  note E2 = mem.reliable_Enqueue [OF E1(3) t1 text_codec_of(1) s2]
  have t2: "typed (map_of (store s2))" using E2(2) t1 by simp
  have p2: "pending (map_of (store s2)) ''q'' = [''b'', ''a'']"
    "record_of (map_of (store s2)) ''a'' = Some (text_of ?a)" "record_of (map_of (store s2)) ''b'' = Some (text_of ?b)"
    using E1(2,4) E2(2) by (simp_all add: db_enqueue_def Let_def Unix_def Second_def pos_imp_zdiv_nonneg_iff)
  obtain r3 s3 where s3: "run_state (redis_Dequeue text_codec mem_redis [''q'']) s2 = (r3, s3)" by force
  have n2: "pending (map_of (store s2)) ''q'' \<noteq> []" "last (pending (map_of (store s2)) ''q'') = ''a''" "''a'' \<noteq> ''''"
    using p2 by simp_all
  note D1 = mem.reliable_Dequeue [OF E2(3) t2 n2 p2(2) text_codec_of(2) s3]
  have t3: "typed (map_of (store s3))" using D1(2) t2 by simp
  have n3: "pending (map_of (store s3)) ''q'' \<noteq> []" "last (pending (map_of (store s3)) ''q'') = ''b''" "''b'' \<noteq> ''''"
    "record_of (map_of (store s3)) ''b'' = Some (text_of ?b)"
    using D1(2) p2 by (simp_all add: db_claim_def)
  obtain r4 s4 where s4: "run_state (redis_Dequeue text_codec mem_redis [''q'']) s3 = (r4, s4)" by force
  note D2 = mem.reliable_Dequeue [OF D1(3) t3 n3(1-4) text_codec_of(2) s4]
  have "redis_phase map_of s1 ''b'' = Gone"
  proof -
    have "occ (map_of (store s1)) p ''b'' = 0" for p
      using E1(2) by (cases p) (simp_all add: db_enqueue_def Let_def members_def)
    then show ?thesis by (simp add: redis_phase_def kphase_Gone places_empty)
  qed
  with s1 s2 s3 s4 E1(1) E2(1) D1(1) D2(1) show ?thesis by (simp add: B_def redisBroker_def)
qed

lemma sample_type: "Type (sample_job i q t) = ''''"
  by (simp add: sample_job_def zeroJob_def)

text \<open>The job of \<open>queued_store\<close> is claimed and acknowledged.\<close>

lemma queued_done:
  assumes "ID j \<noteq> ''''"
  shows "\<exists>s1 s2. run_state (Dequeue (redisBroker text_codec mem_redis) [Queue j]) (mem_world t (queued_store j) []) = (Inr (Some j), s1)
    \<and> run_state (Acknowledge (redisBroker text_codec mem_redis) j) s1 = (Inr (), s2)
    \<and> redis_phase map_of (mem_world t (queued_store j) []) (ID j) = Queued \<and> redis_phase map_of s2 (ID j) = Gone"
proof -
  let ?B = "redisBroker text_codec mem_redis" and ?w = "mem_world t (queued_store j) []"
  have inv: "redis_inv map_of text_codec (\<lambda>_. True) ?w"
    using queued_store_placed [of "nameable (\<lambda>_. True)" j] assms by (simp add: redis_inv_def winv_def nameable_def)
  have w: "reliable ?w" "typed (map_of (store ?w))" "pending (map_of (store ?w)) (Queue j) = [ID j]"
    "record_of (map_of (store ?w)) (ID j) = Some (text_of j)"
    by (simp_all add: reliable_def queued_store_typed) (simp_all add: queued_store_view db_enqueue_def Let_def)
  obtain r s1 where s1: "run_state (redis_Dequeue text_codec mem_redis [Queue j]) ?w = (r, s1)" by force
  note D = mem.reliable_Dequeue [OF w(1,2) _ _ assms w(4) text_codec_of(2) s1]
  obtain r' s2 where s2: "run_state (redis_Acknowledge mem_redis j) s1 = (r', s2)" by force
  note A = mem.reliable_Acknowledge [OF D(3) _ s2]
  have ok: "run_state (Dequeue ?B [Queue j]) ?w = (Inr (Some j), s1)" "run_state (Acknowledge ?B j) s1 = (Inr (), s2)"
    using s1 s2 D(1,2) A(1) w by (simp_all add: redisBroker_def)
  note C = mem_text_broker.contract.Dequeue_job [OF inv ok(1)]
  have "redis_phase map_of s1 (ID j) = Running" using C by simp
  from mem_text_broker.contract.Acknowledge_spec [OF conjunct1 [OF C] this ok(2)]
  have "redis_phase map_of s2 (ID j) = Gone" by (simp add: phase_change_ok)
  with ok C show ?thesis by blast
qed

section \<open>Two jobs in Postgres\<close>

text \<open>Postgres: two jobs are enqueued and claimed, and one of them acknowledged.\<close>

definition pg_empty :: pgworld where
  "pg_empty = \<lparr>clock = 0, ticks = [], table = [], replies = [], locked = []\<rparr>"

definition pg_sample :: "nat \<Rightarrow> pgworld" where
  "pg_sample n = (let B = postgresBroker plain_engine in
     foldl (\<lambda>w f. f w) pg_empty (take n [\<lambda>w. snd (run_state (Enqueue B (sample_job ''a'' ''q'' 0)) w),
       \<lambda>w. snd (run_state (Enqueue B (sample_job ''b'' ''q'' 0)) w),
       \<lambda>w. snd (run_state (Dequeue B [''q'']) w), \<lambda>w. snd (run_state (Dequeue B [''q'']) w)]))"

lemma pg_run:
  "fst (run_state (Enqueue (postgresBroker plain_engine) (sample_job ''a'' ''q'' 0)) (pg_sample 0)) = Inr ()"
  "fst (run_state (Enqueue (postgresBroker plain_engine) (sample_job ''b'' ''q'' 0)) (pg_sample 1)) = Inr ()"
  "case fst (run_state (Dequeue (postgresBroker plain_engine) [''q'']) (pg_sample 2)) of
     Inr (Some d) \<Rightarrow> ID d = ''a'' \<and> Type d = '''' | _ \<Rightarrow> False"
  "case fst (run_state (Dequeue (postgresBroker plain_engine) [''q'']) (pg_sample 3)) of
     Inr (Some d) \<Rightarrow> ID d = ''b'' | _ \<Rightarrow> False"
  "pg_fresh (pg_sample 0) (sample_job ''a'' ''q'' 0)" "pg_fresh (pg_sample 1) (sample_job ''b'' ''q'' 0)"
  by code_simp+

lemma pg_two_jobs:
  fixes B defines "B \<equiv> postgresBroker plain_engine"
  obtains d d' where "run_state (Enqueue B (sample_job ''a'' ''q'' 0)) pg_empty = (Inr (), pg_sample 1)"
    "run_state (Enqueue B (sample_job ''b'' ''q'' 0)) (pg_sample 1) = (Inr (), pg_sample 2)"
    "run_state (Dequeue B [''q'']) (pg_sample 2) = (Inr (Some d), pg_sample 3)"
    "run_state (Dequeue B [''q'']) (pg_sample 3) = (Inr (Some d'), pg_sample 4)"
    "ID d = ''a''" "ID d' = ''b''" "Type d = ''''"
proof -
  have "pg_sample 0 = pg_empty" "pg_sample 1 = snd (run_state (Enqueue B (sample_job ''a'' ''q'' 0)) (pg_sample 0))"
    "pg_sample 2 = snd (run_state (Enqueue B (sample_job ''b'' ''q'' 0)) (pg_sample 1))"
    "pg_sample 3 = snd (run_state (Dequeue B [''q'']) (pg_sample 2))"
    "pg_sample 4 = snd (run_state (Dequeue B [''q'']) (pg_sample 3))"
    by (simp_all add: pg_sample_def B_def Let_def)
  with pg_run(1-4) that show thesis
    unfolding B_def by (auto simp: prod_eq_iff split: sum.splits option.splits)
qed

lemma pg_empty_ok: "pg_inv pg_empty" "pg_fresh pg_empty (sample_job ''a'' ''q'' 0)"
  using pg_run(5) by (simp_all add: pg_sample_def pg_empty_def pg_inv_def constraints_def)

lemma pg_ack_id:
  "run_state (Acknowledge (postgresBroker plain_engine) d) (pg_sample 3) =
     run_state (Acknowledge (postgresBroker plain_engine) (zeroJob\<lparr>ID := ID d\<rparr>)) (pg_sample 3)"
  by (simp add: postgresBroker_def pg_Acknowledge_def)

lemma pg_done:
  "fst (run_state (Acknowledge (postgresBroker plain_engine) (zeroJob\<lparr>ID := ''a''\<rparr>)) (pg_sample 3)) = Inr ()"
  "pg_phase (snd (run_state (Acknowledge (postgresBroker plain_engine) (zeroJob\<lparr>ID := ''a''\<rparr>)) (pg_sample 3))) ''a'' = Gone"
  "pg_phase (pg_sample 2) ''a'' = Queued" "pg_inv (pg_sample 2)"
  by code_simp+

end
