(* ===== verification/Postgres_Properties.thy ===== *)
theory Postgres_Properties
  imports Cluster_Samples
begin

text \<open>
  Properties of the Postgres broker: the constraints of the schema over any history, what
  \<open>Enqueue\<close>, \<open>Dequeue\<close> and \<open>GetQueueStats\<close> do to and read from the table.
\<close>

section \<open>Constraints\<close>

definition sound :: "pgworld \<Rightarrow> bool" where
  "sound w \<longleftrightarrow> constraints (table w)"

text \<open>A statement that leaves a table that satisfies the constraints.\<close>

definition safe :: "'a stmt \<Rightarrow> bool" where
  "safe st \<longleftrightarrow> (\<forall>t. constraints t \<longrightarrow> constraints (snd (st t)))"

lemma safe_write [simp]: "constraints t \<Longrightarrow> constraints (snd (write_table x t' t))"
  by (simp add: write_table_def)

lemma safe_stmts:
  "safe (insert_job E j)" "safe (update_rows cond f)" "safe (claim_row E q now skip)"
  "safe (\<lambda>t. (Inr (find P t) :: goerr + row option, t))"
  by (auto simp: safe_def insert_job_def update_rows_def claim_row_def Let_def split: option.splits list.splits)

lemma safe_delete: "safe (\<lambda>t. (Inr () :: goerr + unit, filter P t))"
proof -
  have "constraints (filter P t)" if "constraints t" for t
  proof -
    have "filter keyed (filter P t) = filter P (filter keyed t)" by (simp add: conj_commute)
    with that show ?thesis by (simp only: constraints_def distinct_map_filter simp_thms)
  qed
  then show ?thesis by (simp add: safe_def)
qed

lemma safe_checked: "safe st \<Longrightarrow> safe (checked E ok st)"
  by (simp add: safe_def checked_def)

lemmas safe = safe_checked safe_stmts safe_delete

lemma keeps_sound [keep_intro]:
  "keeps sound time_Now" "keeps sound next_reply" "keeps sound next_locked" "keeps sound (pool_Query q)"
  by (auto simp: keeps_def sound_def time_Now_def next_reply_def next_locked_def pool_Query_def)

lemma keeps_on_table: "safe st \<Longrightarrow> keeps sound (on_table st)"
  by (auto simp: keeps_def sound_def on_table_def safe_def split_beta)

lemma keeps_pool_Exec [keep_intro]: "safe st \<Longrightarrow> keeps sound (pool_Exec st)"
  unfolding pool_Exec_def by (intro keep_intro) (auto intro!: keep_intro keeps_on_table split: reply.split)

lemma keeps_Dequeue: "keeps sound (pg_Dequeue E qs)"
  by (induction qs) (auto intro!: keep_intro safe split: sum.split option.split)

lemma keeps_methods:
  "keeps sound (pg_Enqueue E j)" "keeps sound (pg_Acknowledge E j)" "keeps sound (pg_Requeue E j d)"
  "keeps sound (pg_MoveToDeadLetter E j)" "keeps sound (pg_GetJobsByStatus E st l)" "keeps sound (pg_GetQueueStats E)"
  "keeps sound (pg_GetJob E i)" "keeps sound (pg_RetryDeadJob E i)" "keeps sound (pg_DeleteJob E i)" "keeps sound (pg_PromoteDueJobs qs)"
  "keeps sound pg_Close"
  unfolding pg_Enqueue_def pg_Acknowledge_def pg_Requeue_def pg_MoveToDeadLetter_def pg_GetJobsByStatus_def
    pg_GetQueueStats_def pg_GetJob_def pg_RetryDeadJob_def pg_DeleteJob_def pg_PromoteDueJobs_def
    pg_Close_def Let_def
  by (intro keep_intro safe)+

lemma keeps_history: "keeps sound (run_calls (postgresBroker E) cs)"
proof (rule keeps_run_calls)
  fix c
  show "keeps sound (run_call (postgresBroker E) c)"
    by (cases c) (simp_all add: postgresBroker_def keeps_ignore keeps_methods keeps_Dequeue)
qed

section \<open>Enqueue\<close>

text \<open>The row a job is inserted as, and when it clashes with the rows that are there.\<close>

definition row_of :: "engine \<Rightarrow> string \<Rightarrow> Job \<Rightarrow> row" where
  "row_of E p job = \<lparr>rid = ID job, rqueue = Queue job, rtype = Type job, rpayload = p,
     rpriority = Priority job, rstatus = Status job, rattempts = Attempts job,
     rmax_attempts = MaxAttempts job, rlast_error = LastError job,
     runique_key = (if UniqueKey job \<noteq> '''' then Some (UniqueKey job) else None),
     rprocess_at = stamp E (ProcessAt job), rcreated_at = stamp E (CreatedAt job), rupdated_at = stamp E (CreatedAt job)\<rparr>"

definition same_key :: "Job \<Rightarrow> row \<Rightarrow> bool" where
  "same_key j r \<longleftrightarrow> UniqueKey j \<noteq> '''' \<and> keyed r \<and> runique_key r = Some (UniqueKey j)"

lemma row_of_sel [simp]:
  "rid (row_of E p j) = ID j" "rstatus (row_of E p j) = Status j"
  "runique_key (row_of E p j) = (if UniqueKey j \<noteq> '''' then Some (UniqueKey j) else None)"
  by (simp_all add: row_of_def)

lemma clash:
  assumes "constraints t" "\<not> constraints (t @ [row_of E p j])"
  shows "\<exists>r \<in> set t. rid r = ID j \<or> same_key j r"
  using assms by (auto simp: constraints_def same_key_def keyed_def split: if_splits)

lemma no_clash:
  assumes "constraints t" "\<forall>r \<in> set t. rid r \<noteq> ID j \<and> \<not> same_key j r"
  shows "constraints (t @ [row_of E p j])"
  using assms clash by blast

text \<open>An \<open>Enqueue\<close> that reports success has inserted the row, or the table has one it clashes with.\<close>

lemma Enqueue_success:
  assumes "postgres E" "constraints (table w)" "run_state (pg_Enqueue E j) w = (Inr (), w')"
  shows "(\<exists>p. jsonb E (Payload j) = Some p \<and> table w' = table w @ [row_of E p j])
    \<or> table w' = table w \<and> (\<exists>r \<in> set (table w). rid r = ID j \<or> same_key j r)"
proof -
  obtain r where r: "run_state (pool_Exec (insert_job E j)) w = (r, w')" "\<And>e. r = Inl e \<Longrightarrow> is_unique_violation e"
    using assms(3) by (auto simp: pg_Enqueue_def split: prod.splits sum.splits if_splits)
  show ?thesis
  proof (cases "jsonb E (Payload j)")
    case None
    then show ?thesis using r postgres.argument_error [OF assms(1)]
      by (auto simp: pool_Exec_def next_reply_def on_table_def insert_job_def Let_def is_unique_violation_def uniqueViolationCode_def
        split: reply.splits if_splits)
  next
    case (Some p)
    then show ?thesis using r postgres.argument_error [OF assms(1)] clash [OF assms(2), of E p j]
      by (auto simp: pool_Exec_def next_reply_def on_table_def insert_job_def Let_def is_unique_violation_def uniqueViolationCode_def
          write_table_def row_of_def split: reply.splits if_splits)
  qed
qed

text \<open>Whatever the network does, an \<open>Enqueue\<close> touches no row of another job.\<close>

definition others :: "string \<Rightarrow> pgworld \<Rightarrow> row list" where
  "others i w = filter (\<lambda>r. rid r \<noteq> i) (table w)"

lemma insert_others: "filter (\<lambda>r. rid r \<noteq> ID j) (snd (insert_job E j t)) = filter (\<lambda>r. rid r \<noteq> ID j) t"
  by (auto simp: insert_job_def Let_def write_table_def split: option.splits)

lemma Enqueue_others: "others (ID j) (snd (run_state (pg_Enqueue E j) w)) = others (ID j) w"
proof -
  obtain r w' where r: "run_state (pool_Exec (insert_job E j)) w = (r, w')" by (rule prod.exhaust)
  from pool_Exec_cases [OF r] insert_others [of j E "table w"] show ?thesis
    by (auto simp: others_def pg_Enqueue_def r)
qed

lemma resends_others:
  "others (ID j) (snd (run_state (run_calls (postgresBroker E) (replicate n (CEnqueue j))) w)) = others (ID j) w"
  by (induction n arbitrary: w) (simp_all add: postgresBroker_def Enqueue_others split_beta)

lemma one_row:
  assumes "constraints t" "r \<in> set t"
  shows "filter (\<lambda>x. rid x = rid r) t = [r]"
  using assms
proof (induction t)
  case (Cons x t)
  have "constraints t" using Cons.prems(1) by (auto simp: constraints_def split: if_splits)
  moreover have "rid x \<notin> set (map rid t)" using Cons.prems(1) by (simp add: constraints_def)
  ultimately show ?case using Cons by (auto simp: filter_empty_conv image_iff)
qed simp

text \<open>
  C12. Enqueuing is idempotent in Postgres: a client may call \<open>Enqueue\<close> for the same job again and
  again, whatever happened to the earlier calls (failed, executed with the reply lost, executed and
  answered), until a call reports success. Then the table has exactly one row with the identifier of the job, or an
  unfinished other job with the same unique key is there; the rows of other jobs are what
  they were.
\<close>

theorem postgres_enqueue_idempotent:
  assumes "postgres E" "constraints (table w)"
    and "u = snd (run_state (run_calls (postgresBroker E) (replicate n (CEnqueue j))) w)"
    and "run_state (Enqueue (postgresBroker E) j) u = (Inr (), w')"
  shows "(length (filter (\<lambda>r. rid r = ID j) (table w')) = 1 \<or> (\<exists>r \<in> set (table w'). rid r \<noteq> ID j \<and> same_key j r))
    \<and> filter (\<lambda>r. rid r \<noteq> ID j) (table w') = filter (\<lambda>r. rid r \<noteq> ID j) (table w)"
proof -
  have run: "run_state (pg_Enqueue E j) u = (Inr (), w')" using assms(4) by (simp add: postgresBroker_def)
  have "sound u" using keepsD [OF keeps_history] assms(2,3) by (auto simp: sound_def)
  then have c: "constraints (table u)" "constraints (table w')"
    using keepsD [OF keeps_methods(1), of u E j] run by (simp_all add: sound_def)
  have "\<exists>r \<in> set (table w'). rid r = ID j \<or> same_key j r" using Enqueue_success [OF assms(1) c(1) run] by auto
  then have "length (filter (\<lambda>r. rid r = ID j) (table w')) = 1 \<or> (\<exists>r \<in> set (table w'). rid r \<noteq> ID j \<and> same_key j r)"
    using one_row [OF c(2)] by (metis One_nat_def length_0_conv length_Cons)
  moreover have "others (ID j) w' = others (ID j) w"
    using Enqueue_others [of j E u] resends_others [of j E n w] assms(3) run by simp
  ultimately show ?thesis by (simp add: others_def)
qed

theorem postgres_enqueue_idempotent_witness:
  "\<exists>w'. run_state (Enqueue (postgresBroker plain_engine) (sample_job ''a'' ''q'' 0))
      (snd (run_state (run_calls (postgresBroker plain_engine) (replicate 2 (CEnqueue (sample_job ''a'' ''q'' 0))))
         (pg_empty\<lparr>replies := [Lost True, Lost False]\<rparr>))) = (Inr (), w')
    \<and> length (filter (\<lambda>r. rid r = ''a'') (table w')) = 1"
proof -
  let ?j = "sample_job ''a'' ''q'' 0" and ?w = "pg_empty\<lparr>replies := [Lost True, Lost False]\<rparr>"
  let ?u = "snd (run_state (run_calls (postgresBroker plain_engine) (replicate 2 (CEnqueue ?j))) ?w)"
  have r: "fst (run_state (Enqueue (postgresBroker plain_engine) ?j) ?u) = Inr ()" by code_simp
  define w' where "w' = snd (run_state (Enqueue (postgresBroker plain_engine) ?j) ?u)"
  have run: "run_state (Enqueue (postgresBroker plain_engine) ?j) ?u = (Inr (), w')" using r by (simp add: w'_def prod_eq_iff)
  have c: "constraints (table ?w)" by (simp add: pg_empty_def constraints_def)
  have "\<not> same_key ?j r" for r by (simp add: same_key_def sample_job_def zeroJob_def)
  then show ?thesis using postgres_enqueue_idempotent [OF plain.postgres_axioms c refl run] run by simp
qed

lemma NewPostgresBroker_ok:
  assumes "run_state (NewPostgresBroker pgxpool_New E connString) db = (Inr B, db')"
  shows "B = postgresBroker E" "schema (dtable db) = (Inr (), dtable db')"
  using assms
  by (auto simp: NewPostgresBroker_def exec_schema_def schema_def Let_def split: option.splits list.splits reply.splits sum.splits if_splits)

lemma schema_ok:
  assumes "schema d = (Inr (), Some t)"
  shows "distinct (map runique_key (filter keyed t))" "d = Some t \<or> d = None \<and> t = []"
  using assms by (auto simp: schema_def split: option.splits if_splits)



text \<open>
  C28. Round trip: after \<open>Enqueue\<close> of a job that is new to the table has succeeded, \<open>GetJob\<close> returns the
  job as it was, with the payload in the form in which the database keeps JSON and the times at
  the precision of the database. Only the field \<open>EnqueuedAt\<close>, which has no column, is lost.
\<close>

theorem postgres_enqueue_get:
  assumes "postgres E" "constraints (table w)" "replies w = []" "jsonb E (Payload j) = Some p"
    and "\<forall>r \<in> set (table w). rid r \<noteq> ID j \<and> \<not> same_key j r"
    and "run_state (Enqueue (postgresBroker E) j) w = (Inr (), u)"
    and "run_state (GetJob (postgresBroker E) (ID j)) u = (g, w')"
  shows "g = Inr (Some (j\<lparr>Payload := p, ProcessAt := stamp E (ProcessAt j), CreatedAt := stamp E (CreatedAt j),
    EnqueuedAt := EnqueuedAt zeroJob\<rparr>))"
proof -
  have run: "run_state (pg_Enqueue E j) w = (Inr (), u)" using assms(6) by (simp add: postgresBroker_def)
  have t: "table u = table w @ [row_of E p j]" using Enqueue_success [OF assms(1,2) run] assms(4,5) by auto
  have "find (\<lambda>r. rid r = ID j) (table w) = None" using assms(5) by (simp add: find_None_iff)
  then have "find (\<lambda>r. rid r = ID j) (table u) = Some (row_of E p j)" using t by (simp add: find_snoc)
  moreover have "replies u = []" "text_ok E (ID j)"
    using run assms(3,4) postgres.argument_error [OF assms(1)]
    by (auto simp: pg_Enqueue_def pool_Exec_def next_reply_def on_table_def insert_job_def Let_def split_beta split: if_splits)
  ultimately show ?thesis
    using assms(7) by (auto simp: postgresBroker_def pg_GetJob_def pool_Exec_def next_reply_def on_table_def checked_def
      scanJob_def row_of_def zeroJob_def)
qed

theorem postgres_enqueue_get_witness:
  "\<exists>u w'. run_state (Enqueue (postgresBroker plain_engine) (sample_job ''a'' ''q'' 5)) pg_empty = (Inr (), u)
    \<and> run_state (GetJob (postgresBroker plain_engine) ''a'') u = (Inr (Some (sample_job ''a'' ''q'' 5)), w')"
proof -
  let ?j = "sample_job ''a'' ''q'' 5"
  have r: "fst (run_state (Enqueue (postgresBroker plain_engine) ?j) pg_empty) = Inr ()" by code_simp
  define u where "u = snd (run_state (Enqueue (postgresBroker plain_engine) ?j) pg_empty)"
  have u: "run_state (Enqueue (postgresBroker plain_engine) ?j) pg_empty = (Inr (), u)" using r by (simp add: u_def prod_eq_iff)
  obtain g w' where g: "run_state (GetJob (postgresBroker plain_engine) (ID ?j)) u = (g, w')" by (rule prod.exhaust)
  have pre: "constraints (table pg_empty)" "replies pg_empty = []" "jsonb plain_engine (Payload ?j) = Some ''''"
    "\<forall>r \<in> set (table pg_empty). rid r \<noteq> ID ?j \<and> \<not> same_key ?j r"
    by (simp_all add: pg_empty_def constraints_def plain_engine_def sample_job_def zeroJob_def)
  from postgres_enqueue_get [OF plain.postgres_axioms pre u g] have "g = Inr (Some ?j)"
    by (simp add: plain_engine_def sample_job_def zeroJob_def)
  with u g show ?thesis by auto
qed

section \<open>Dequeue\<close>

lemma select_rows_first:
  assumes "postgres E" "select_rows E cond k t = r # rs"
  shows "r \<in> set t \<and> cond r \<and> (\<forall>r' \<in> set t. cond r' \<longrightarrow> k r \<le> k r')"
proof -
  have set: "set (r # rs) = {r \<in> set t. cond r}"
    unfolding assms(2) [symmetric] select_rows_def using postgres.meets_rows [OF assms(1)] by auto
  have "sorted (map k (r # rs))" unfolding assms(2) [symmetric] select_rows_def by (rule sorted_sort_key)
  then show ?thesis using set by auto
qed

lemma select_rows_none:
  assumes "postgres E" "select_rows E cond k t = []"
  shows "\<forall>r \<in> set t. \<not> cond r"
proof -
  have "set (select_rows E cond k t) = {r \<in> set t. cond r}"
    unfolding select_rows_def using postgres.meets_rows [OF assms(1)] by auto
  then show ?thesis using assms(2) by auto
qed

definition claimed_at :: "instant \<Rightarrow> row \<Rightarrow> row" where
  "claimed_at now r = r\<lparr>rstatus := ''active'', rupdated_at := now\<rparr>"

definition first_due :: "string \<Rightarrow> instant \<Rightarrow> row list \<Rightarrow> row \<Rightarrow> bool" where
  "first_due q now t r \<longleftrightarrow> r \<in> set t \<and> due q now r
     \<and> (\<forall>r' \<in> set t. due q now r' \<longrightarrow> (rpriority r, rprocess_at r) \<le> (rpriority r', rprocess_at r'))"

lemma claim_row_cases:
  assumes "postgres E" "claim_row E q now [] t = (Inr x, t')"
  shows "case x of None \<Rightarrow> t' = t \<and> (\<forall>r \<in> set t. \<not> due q now r)
    | Some y \<Rightarrow> (\<exists>r. first_due q now t r \<and> y = claimed_at now r \<and> t' = map (\<lambda>x. if rid x = rid r then claimed_at now x else x) t)"
proof (cases "select_rows E (\<lambda>r. due q now r \<and> rid r \<notin> set []) (\<lambda>r. (rpriority r, rprocess_at r)) t")
  case Nil
  with select_rows_none [OF assms(1) Nil] assms(2) show ?thesis by (auto simp: claim_row_def)
next
  case (Cons r rs)
  have "first_due q now t r" using select_rows_first [OF assms(1) Cons] by (simp add: first_due_def)
  with Cons assms(2) show ?thesis by (auto simp: claim_row_def claimed_at_def Let_def write_table_def split: if_splits)
qed

lemma due_later: "due q now r \<Longrightarrow> now \<le> now' \<Longrightarrow> due q now' r"
  by (auto simp: due_def)

lemma no_locks: "locked w = [] \<Longrightarrow> run_state next_locked w = ([], w)"
  by (cases w) (simp add: next_locked_def)

lemma pg_Dequeue_step:
  assumes "locked w = []"
  shows "run_state (pg_Dequeue E (q # qs)) w = (case run_state (pool_Exec (claim_row E q (clock w) [])) (snd (run_state time_Now w)) of
      (Inr None, v) \<Rightarrow> run_state (pg_Dequeue E qs) v
    | (Inl err, v) \<Rightarrow> (Inl (WrapError (''dequeue from '' @ q @ '': '') err), v)
    | (Inr (Some row), v) \<Rightarrow> (Inr (Some (scanJob row)), v))"
proof -
  have "locked (snd (run_state time_Now w)) = []" using assms by (simp add: time_Now_def)
  from no_locks [OF this] show ?thesis
    by (auto simp: split_beta split: sum.split option.split simp del: append_Cons append.simps)
qed

lemma pool_Exec_env:
  assumes "run_state (pool_Exec st) w = (r, w')"
  shows "clock w' = clock w" "locked w' = locked w"
  using assms by (auto simp: pool_Exec_def next_reply_def on_table_def split_beta split: reply.splits if_splits)

text \<open>The claim of \<open>Dequeue\<close>: in the first queue that has a due row, the row that is first there.\<close>

definition first_claim :: "string list \<Rightarrow> pgworld \<Rightarrow> Job \<Rightarrow> pgworld \<Rightarrow> bool" where
  "first_claim qs w j w' \<longleftrightarrow> (\<exists>pre q post now r. qs = pre @ q # post \<and> clock w \<le> now \<and> now \<le> clock w'
     \<and> (\<forall>q' \<in> set pre. \<forall>r' \<in> set (table w). \<not> due q' (clock w) r') \<and> first_due q now (table w) r
     \<and> j = scanJob (claimed_at now r) \<and> table w' = map (\<lambda>x. if rid x = rid r then claimed_at now x else x) (table w))"

lemma first_claim_skip:
  assumes "first_claim qs v j w'" "table v = table w" "clock w \<le> clock v" "\<forall>r \<in> set (table w). \<not> due q (clock w) r"
  shows "first_claim (q # qs) w j w'"
proof -
  from assms(1)[unfolded first_claim_def assms(2)] obtain pre q' post now r where
    X: "qs = pre @ q' # post" "clock v \<le> now" "now \<le> clock w'"
      "\<forall>q' \<in> set pre. \<forall>r' \<in> set (table w). \<not> due q' (clock v) r'" "first_due q' now (table w) r"
      "j = scanJob (claimed_at now r)" "table w' = map (\<lambda>x. if rid x = rid r then claimed_at now x else x) (table w)" by blast
  have "q # qs = (q # pre) @ q' # post" "clock w \<le> now" "\<forall>q' \<in> set (q # pre). \<forall>r' \<in> set (table w). \<not> due q' (clock w) r'"
    using X assms(3,4) by (auto dest: due_later)
  with X(3,5-7) show ?thesis unfolding first_claim_def by blast
qed

lemma first_claim_now:
  assumes "first_due q (clock w) (table w) r" "table w' = map (\<lambda>x. if rid x = rid r then claimed_at (clock w) x else x) (table w)"
    and "clock w \<le> clock w'"
  shows "first_claim (q # qs) w (scanJob (claimed_at (clock w) r)) w'"
proof -
  have "q # qs = [] @ q # qs" "\<forall>q' \<in> set []. \<forall>r' \<in> set (table w). \<not> due q' (clock w) r'" by simp_all
  with assms show ?thesis unfolding first_claim_def by blast
qed

lemma Dequeue_first:
  assumes "postgres E" "locked w = []" "run_state (pg_Dequeue E qs) w = (Inr x, w')"
  shows "case x of None \<Rightarrow> table w' = table w \<and> (\<forall>q \<in> set qs. \<forall>r \<in> set (table w). \<not> due q (clock w) r)
    | Some j \<Rightarrow> first_claim qs w j w'"
  using assms(2,3)
proof (induction qs arbitrary: w)
  case (Cons q qs)
  let ?u = "snd (run_state time_Now w)"
  have u: "table ?u = table w" "clock w \<le> clock ?u" "locked ?u = []" using Cons.prems(1) by (simp_all add: time_Now_def)
  obtain y v where v: "run_state (pool_Exec (claim_row E q (clock w) [])) ?u = (y, v)" by (rule prod.exhaust)
  note env = pool_Exec_env [OF v]
  note step = Cons.prems(2) [unfolded pg_Dequeue_step [OF Cons.prems(1)] v]
  from step obtain z where y: "y = Inr z" by (cases y) auto
  note claim = claim_row_cases [OF assms(1) pool_Exec_Inr [OF v [unfolded y]], unfolded u(1)]
  have le: "clock w \<le> clock v" using env u(2) by simp
  show ?case
  proof (cases z)
    case None
    then have run: "run_state (pg_Dequeue E qs) v = (Inr x, w')" and same: "table v = table w" "\<forall>r \<in> set (table w). \<not> due q (clock w) r"
      using step y claim by simp_all
    from Cons.IH [OF _ run] env u(3) have IH: "case x of None \<Rightarrow> table w' = table v \<and> (\<forall>q \<in> set qs. \<forall>r \<in> set (table v). \<not> due q (clock v) r)
      | Some j \<Rightarrow> first_claim qs v j w'" by simp
    then show ?thesis using first_claim_skip [OF _ same(1) le same(2)] same le by (auto split: option.splits dest: due_later)
  next
    case (Some y')
    then have x: "x = Some (scanJob y')" "w' = v" using step y by simp_all
    from claim [unfolded Some, simplified] obtain r where "first_due q (clock w) (table w) r" "y' = claimed_at (clock w) r"
      "table v = map (\<lambda>x. if rid x = rid r then claimed_at (clock w) x else x) (table w)" by blast
    with first_claim_now [of q w r v qs] x le show ?thesis by simp
  qed
qed simp

text \<open>
  C11. \<open>Dequeue\<close> in Postgres takes the right job: when it returns a job and no other transaction holds
  rows locked, the job's row was due (never early), in the first of the queues that has a due
  row, and first by priority and then by time among the due rows of that queue; the row is now
  active and no other row has changed. When it returns no job, no row of any of the queues was due when
  it was called, and the table is what it was.
\<close>

theorem postgres_dequeue_first_due:
  assumes "postgres E" "locked w = []" "run_state (Dequeue (postgresBroker E) qs) w = (Inr x, w')"
  shows "case x of None \<Rightarrow> table w' = table w \<and> (\<forall>q \<in> set qs. \<forall>r \<in> set (table w). \<not> due q (clock w) r)
    | Some j \<Rightarrow> (\<exists>pre q post now r. qs = pre @ q # post \<and> clock w \<le> now \<and> now \<le> clock w'
        \<and> (\<forall>q' \<in> set pre. \<forall>r' \<in> set (table w). \<not> due q' (clock w) r') \<and> first_due q now (table w) r
        \<and> j = scanJob (claimed_at now r) \<and> table w' = map (\<lambda>x. if rid x = rid r then claimed_at now x else x) (table w))"
  using Dequeue_first [OF assms(1,2), of qs x w', unfolded first_claim_def] assms(3) by (simp add: postgresBroker_def)

theorem postgres_dequeue_first_due_witness:
  "\<exists>j w' r. run_state (Dequeue (postgresBroker plain_engine) [''p'', ''q'']) (pg_sample 2) = (Inr (Some j), w')
    \<and> first_due ''q'' 0 (table (pg_sample 2)) r \<and> j = scanJob (claimed_at 0 r)"
proof -
  let ?run = "run_state (Dequeue (postgresBroker plain_engine) [''p'', ''q'']) (pg_sample 2)"
  have s: "fst ?run \<noteq> Inl NetError \<and> (case fst ?run of Inr (Some j) \<Rightarrow> True | _ \<Rightarrow> False)"
    "locked (pg_sample 2) = []" "clock (pg_sample 2) = 0" "clock (snd ?run) = 0" "list_all (\<lambda>r. rqueue r = ''q'') (table (pg_sample 2))"
    by code_simp+
  then obtain j where j: "fst ?run = Inr (Some j)" by (auto split: sum.splits option.splits)
  then have run: "?run = (Inr (Some j), snd ?run)" by (simp add: prod_eq_iff)
  from postgres_dequeue_first_due [OF plain.postgres_axioms s(2) run] obtain pre q post now r where
    X: "[''p'', ''q''] = pre @ q # post" "0 \<le> now" "now \<le> 0" "first_due q now (table (pg_sample 2)) r" "j = scanJob (claimed_at now r)"
    using s(3,4) by auto
  have "q = ''q''" using X(4) s(5) by (auto simp: first_due_def due_def list_all_iff)
  with X(2-5) run show ?thesis by auto
qed

section \<open>Statistics\<close>

lemma stats_map_lookup:
  "distinct (map sQueue ss) \<Longrightarrow> stats_map ss m q = (case find (\<lambda>s. sQueue s = q) ss of None \<Rightarrow> m q | Some s \<Rightarrow> Some s)"
  by (induction ss arbitrary: m) (auto simp: find_None_iff split: option.splits dest!: find_SomeD)

lemma sQueue_stats_row [simp]: "sQueue (stats_row t now q) = q"
  by (simp add: stats_row_def Let_def)

lemma find_stats:
  "find (\<lambda>s. sQueue s = q) (map (stats_row t now) qs) = (if q \<in> set qs then Some (stats_row t now q) else None)"
  by (induction qs) auto

lemma stats_row_total:
  assumes "\<forall>x \<in> set t. rstatus x \<in> {StatusPending, StatusActive, StatusCompleted, StatusRetry, StatusDead}"
  shows "sEnqueued (stats_row t now q) + sScheduled (stats_row t now q) + sRetry (stats_row t now q)
      + sActive (stats_row t now q) + sDead (stats_row t now q) =
    int (length (filter (\<lambda>x. rqueue x = q \<and> rstatus x \<noteq> StatusCompleted) t))"
  using assms
proof (induction t)
  case (Cons x t)
  have "rstatus x \<in> {''pending'', ''active'', ''completed'', ''retry'', ''dead''}"
    using Cons.prems by (auto simp: StatusPending_def StatusActive_def StatusCompleted_def StatusRetry_def StatusDead_def)
  then show ?case using Cons by (auto simp: stats_row_def zeroStats_def StatusCompleted_def not_le)
qed (simp add: stats_row_def zeroStats_def)

text \<open>
  C29. Statistics in Postgres: one entry for every queue that has a row, no other; its numbers are
  those of the rows of the queue by status, pending ones divided by whether they are due. Every
  row whose status is not completed is counted exactly once.
\<close>

theorem postgres_queue_stats:
  assumes "postgres E" "replies w = []" "run_state (GetQueueStats (postgresBroker E)) w = (r, w')"
    and "\<forall>x \<in> set (table w). rstatus x \<in> {StatusPending, StatusActive, StatusCompleted, StatusRetry, StatusDead}"
  shows "\<exists>m. r = Inr m \<and> dom m = rqueue ` set (table w) \<and> (\<forall>q s. m q = Some s \<longrightarrow>
      s = stats_row (table w) (clock w) q
    \<and> sEnqueued s + sScheduled s + sRetry s + sActive s + sDead s =
        int (length (filter (\<lambda>x. rqueue x = q \<and> rstatus x \<noteq> StatusCompleted) (table w))))"
proof -
  let ?m = "\<lambda>q. if q \<in> rqueue ` set (table w) then Some (stats_row (table w) (clock w) q) else None"
  have "stats_map (map (stats_row (table w) (clock w)) (remdups (map rqueue (meets E (table w))))) Map.empty = ?m"
    by (rule ext) (simp add: stats_map_lookup comp_def find_stats postgres.meets_rows [OF assms(1)])
  then have r: "r = Inr ?m"
    using assms(2,3) by (auto simp: postgresBroker_def pg_GetQueueStats_def pool_Query_def next_reply_def time_Now_def split: prod.splits)
  show ?thesis
    by (rule exI [of _ ?m]) (auto simp: r stats_row_total [OF assms(4)] split: if_splits)
qed

theorem postgres_queue_stats_witness:
  "\<exists>m s w'. run_state (GetQueueStats (postgresBroker plain_engine)) (pg_sample 2) = (Inr m, w') \<and> m ''q'' = Some s
    \<and> sEnqueued s + sScheduled s + sRetry s + sActive s + sDead s = 2"
proof -
  have s: "replies (pg_sample 2) = []" "list_all (\<lambda>x. rqueue x = ''q'' \<and> rstatus x = StatusPending) (table (pg_sample 2))"
    "length (table (pg_sample 2)) = 2" by code_simp+
  obtain r w' where run: "run_state (GetQueueStats (postgresBroker plain_engine)) (pg_sample 2) = (r, w')" by (rule prod.exhaust)
  have "\<forall>x \<in> set (table (pg_sample 2)). rstatus x \<in> {StatusPending, StatusActive, StatusCompleted, StatusRetry, StatusDead}"
    using s(2) by (auto simp: list_all_iff)
  from postgres_queue_stats [OF plain.postgres_axioms s(1) run this] obtain m where
    m: "r = Inr m" "dom m = rqueue ` set (table (pg_sample 2))" "\<And>q s. m q = Some s \<Longrightarrow>
      sEnqueued s + sScheduled s + sRetry s + sActive s + sDead s =
        int (length (filter (\<lambda>x. rqueue x = q \<and> rstatus x \<noteq> StatusCompleted) (table (pg_sample 2))))" by blast
  have all: "filter (\<lambda>x. rqueue x = ''q'' \<and> rstatus x \<noteq> StatusCompleted) (table (pg_sample 2)) = table (pg_sample 2)"
    using s(2) by (simp add: filter_id_conv list_all_iff)
  have "table (pg_sample 2) \<noteq> []" using s(3) by auto
  then have "''q'' \<in> dom m" using m(2) s(2) by (cases "table (pg_sample 2)") auto
  then obtain s' where "m ''q'' = Some s'" by blast
  with m(3) [OF this] run m(1) all s(3) show ?thesis by auto
qed

end
