(* ===== verification/Cluster_Properties.thy ===== *)
theory Cluster_Properties
  imports Cluster_Samples
begin

text \<open>
  The properties of whole clusters, for both brokers: the lemmas of \<open>Cluster\<close> through the contract
  that each broker meets.
\<close>

context redis_broker
begin

lemma redis_contract:
  "broker_contract (redisBroker C R) (redis_inv view C storable) (redis_phase view) (nameable storable)
     (\<lambda>w j. redis_phase view w (ID j) = Gone)"
  by (rule contract.broker_contract_axioms)

end

context postgres
begin

lemma postgres_contract:
  "broker_contract (postgresBroker E) pg_inv pg_phase (\<lambda>_. True) pg_fresh"
  by (rule contract.broker_contract_axioms)

end

text \<open>The conditions on the other clients, written out.\<close>

lemma clients_conv:
  assumes "broker_contract B I phase storable fresh"
  shows "broker_contract.enqueuable storable fresh = (\<lambda>s j. storable j \<and> fresh s j)"
    and "broker_contract.free phase = (\<lambda>s i. phase s i \<noteq> Running)"
  by (simp_all add: fun_eq_iff broker_contract.enqueuable_def [OF assms] broker_contract.free_def [OF assms])

section \<open>Redis\<close>



text \<open>
  C4. A job leaves the broker only by success or deletion: if a job that Redis held is no longer
  there after any run of a cluster, and nobody deleted it, then some server ran
  the handler registered for the type of that job, on that job, and the handler (with its
  middleware) returned no error.
\<close>

theorem redis_gone_only_after_success:
  assumes "redis_broker R view C storable canon" "redis_inv view C storable w"
    and "\<forall>srv \<in> set (map fst l). server_ok (redisBroker C R) (nameable storable) srv"
    and "cluster_run f2i (redisBroker C R) (\<lambda>w j. nameable storable j \<and> redis_phase view w (ID j) = Gone)
          (\<lambda>w i. redis_phase view w i \<noteq> Running) (start_cluster l, w) evs (ns, w')"
    and "redis_phase view w i \<noteq> Gone" "redis_phase view w' i = Gone" "Deleted i \<notin> set evs"
  shows "succeeded evs (map fst l) i"
proof -
  note con = redis_broker.redis_contract [OF assms(1)]
  show ?thesis
    using broker_contract.cluster_success [OF con assms(2,3) _ assms(5-7)] assms(4)
    unfolding clients_conv [OF con] by blast
qed

lemma redis_gone_only_after_success_witness: "\<exists>evs ns w'.
    cluster_run (\<lambda>x. x) (redisBroker text_codec mem_redis)
      (\<lambda>w j. nameable (\<lambda>_. True) j \<and> redis_phase map_of w (ID j) = Gone) (\<lambda>w i. redis_phase map_of w i \<noteq> Running)
      (start_cluster [(echo_server (redisBroker text_codec mem_redis), bare_host)],
       mem_world 0 (queued_store (sample_job ''a'' ''q'' 0)) []) evs (ns, w')
    \<and> redis_phase map_of w' ''a'' = Gone \<and> succeeded evs [echo_server (redisBroker text_codec mem_redis)] ''a''"
proof -
  let ?B = "redisBroker text_codec mem_redis" and ?j = "sample_job ''a'' ''q'' 0"
  let ?w = "mem_world 0 (queued_store ?j) []"
  let ?fresh = "\<lambda>w j. nameable (\<lambda>_. True) j \<and> redis_phase map_of w (ID j) = Gone"
  have rb: "redis_broker mem_redis map_of text_codec (\<lambda>_. True) (\<lambda>j. j)" by (rule mem_text_broker.redis_broker_axioms)
  have inv: "redis_inv map_of text_codec (\<lambda>_. True) ?w"
    using queued_store_placed [of "nameable (\<lambda>_. True)" ?j] by (simp add: redis_inv_def winv_def nameable_def)
  obtain s1 s2 where s: "run_state (Dequeue ?B [''q'']) ?w = (Inr (Some ?j), s1)"
      "run_state (Acknowledge ?B ?j) s1 = (Inr (), s2)" "redis_phase map_of ?w ''a'' = Queued"
      "redis_phase map_of s2 ''a'' = Gone"
    using queued_done [of ?j 0] by auto
  obtain evs ns where run: "cluster_run (\<lambda>x. x) ?B ?fresh (\<lambda>w i. redis_phase map_of w i \<noteq> Running)
      (start_cluster [(echo_server ?B, bare_host)], ?w) evs (ns, s2)" and d: "\<forall>i. Deleted i \<notin> set evs"
    using echo_done [OF sample_type s(1,2), of "\<lambda>x. x" ?fresh] by blast
  have "succeeded evs (map fst [(echo_server ?B, bare_host)]) ''a''"
    by (rule redis_gone_only_after_success [OF rb inv _ run]) (use s d in \<open>simp_all add: echo_server_ok\<close>)
  with run s(4) show ?thesis by auto
qed



section \<open>Postgres\<close>

text \<open>The same for Postgres.\<close>

lemma postgres_one_worker_per_job:
  assumes "postgres E" "pg_inv w"
    and "\<forall>srv \<in> set (map fst l). server_ok (postgresBroker E) (\<lambda>_. True) srv"
    and "cluster_run f2i (postgresBroker E) (\<lambda>w j. True \<and> pg_fresh w j)
          (\<lambda>w i. pg_phase w i \<noteq> Running) (start_cluster l, w) evs (ns, w')"
    and "busy ns n k j" "busy ns n' k' j'" "(n, k) \<noteq> (n', k')"
  shows "ID j \<noteq> ID j'"
proof -
  note con = postgres.postgres_contract [OF assms(1)]
  show ?thesis
    using broker_contract.cluster_exclusive(1) [OF con assms(2,3) _ assms(5-7)] assms(4)
    unfolding clients_conv [OF con] by blast
qed

lemma postgres_gone_only_after_success:
  assumes "postgres E" "pg_inv w"
    and "\<forall>srv \<in> set (map fst l). server_ok (postgresBroker E) (\<lambda>_. True) srv"
    and "cluster_run f2i (postgresBroker E) (\<lambda>w j. True \<and> pg_fresh w j)
          (\<lambda>w i. pg_phase w i \<noteq> Running) (start_cluster l, w) evs (ns, w')"
    and "pg_phase w i \<noteq> Gone" "pg_phase w' i = Gone" "Deleted i \<notin> set evs"
  shows "succeeded evs (map fst l) i"
proof -
  note con = postgres.postgres_contract [OF assms(1)]
  show ?thesis
    using broker_contract.cluster_success [OF con assms(2,3) _ assms(5-7)] assms(4)
    unfolding clients_conv [OF con] by blast
qed

text \<open>Runs of a cluster: two workers are busy with two jobs; a worker has finished a job.\<close>

lemma pg_busy_run:
  obtains evs ns j j' where
    "cluster_run (\<lambda>x. x) (postgresBroker plain_engine) (\<lambda>w j. True \<and> pg_fresh w j) (\<lambda>w i. pg_phase w i \<noteq> Running)
      (start_cluster [(bare_server (postgresBroker plain_engine), bare_host)], pg_empty) evs (ns, pg_sample 4)"
    "busy ns 0 0 j" "busy ns 0 1 j'"
proof -
  let ?B = "postgresBroker plain_engine" and ?fresh = "\<lambda>w j. True \<and> pg_fresh w j"
  obtain d d' where s: "run_state (Enqueue ?B (sample_job ''a'' ''q'' 0)) pg_empty = (Inr (), pg_sample 1)"
    "run_state (Enqueue ?B (sample_job ''b'' ''q'' 0)) (pg_sample 1) = (Inr (), pg_sample 2)"
    "run_state (Dequeue ?B [''q'']) (pg_sample 2) = (Inr (Some d), pg_sample 3)"
    "run_state (Dequeue ?B [''q'']) (pg_sample 3) = (Inr (Some d'), pg_sample 4)"
    by (rule pg_two_jobs)
  have f: "?fresh pg_empty (sample_job ''a'' ''q'' 0)" "?fresh (pg_sample 1) (sample_job ''b'' ''q'' 0)"
    using pg_empty_ok pg_run(6) by simp_all
  from two_busy [of ?fresh, OF f(1) s(1) f(2) s(2-4)] that show ?thesis by blast
qed

lemma pg_done_run:
  obtains evs ns w' where
    "cluster_run (\<lambda>x. x) (postgresBroker plain_engine) (\<lambda>w j. True \<and> pg_fresh w j) (\<lambda>w i. pg_phase w i \<noteq> Running)
      (start_cluster [(echo_server (postgresBroker plain_engine), bare_host)], pg_sample 2) evs (ns, w')"
    "pg_phase w' ''a'' = Gone" "\<forall>i. Deleted i \<notin> set evs"
proof -
  let ?B = "postgresBroker plain_engine"
  obtain d where s: "run_state (Dequeue ?B [''q'']) (pg_sample 2) = (Inr (Some d), pg_sample 3)" "ID d = ''a''" "Type d = ''''"
    by (rule pg_two_jobs)
  obtain s' where a: "run_state (Acknowledge ?B d) (pg_sample 3) = (Inr (), s')" "pg_phase s' ''a'' = Gone"
    using pg_done(1,2) s(2) by (auto simp: pg_ack_id [of d] prod_eq_iff)
  from echo_done [OF s(3,1) a(1), of "\<lambda>x. x" "\<lambda>w j. True \<and> pg_fresh w j"] a(2) that show ?thesis by blast
qed

text \<open>
  C6. Clusters around one Postgres database, whatever rows other transactions hold locked and whichever replies are lost: no job is ever
  with two workers, and a job leaves the phases in which the broker holds it (its row becomes completed or disappears)
  only after its handler returned no error, or by deletion.
\<close>

theorem postgres_cluster_safe:
  assumes "postgres E" "pg_inv w"
    and "\<forall>srv \<in> set (map fst l). server_ok (postgresBroker E) (\<lambda>_. True) srv"
    and "cluster_run f2i (postgresBroker E) (\<lambda>w j. True \<and> pg_fresh w j)
          (\<lambda>w i. pg_phase w i \<noteq> Running) (start_cluster l, w) evs (ns, w')"
  shows "(\<forall>n k j n' k' j'. busy ns n k j \<and> busy ns n' k' j' \<and> (n, k) \<noteq> (n', k') \<longrightarrow> ID j \<noteq> ID j')
    \<and> (\<forall>i. pg_phase w i \<noteq> Gone \<and> pg_phase w' i = Gone \<and> Deleted i \<notin> set evs \<longrightarrow> succeeded evs (map fst l) i)"
  using postgres_one_worker_per_job [OF assms] postgres_gone_only_after_success [OF assms] by blast

theorem postgres_cluster_safe_witness: "(\<exists>evs ns w' j j'.
    cluster_run (\<lambda>x. x) (postgresBroker plain_engine) (\<lambda>w j. True \<and> pg_fresh w j) (\<lambda>w i. pg_phase w i \<noteq> Running)
      (start_cluster [(bare_server (postgresBroker plain_engine), bare_host)], pg_empty) evs (ns, w')
    \<and> busy ns 0 0 j \<and> busy ns 0 1 j' \<and> ID j \<noteq> ID j')
  \<and> (\<exists>evs ns w'.
    cluster_run (\<lambda>x. x) (postgresBroker plain_engine) (\<lambda>w j. True \<and> pg_fresh w j) (\<lambda>w i. pg_phase w i \<noteq> Running)
      (start_cluster [(echo_server (postgresBroker plain_engine), bare_host)], pg_sample 2) evs (ns, w')
    \<and> pg_phase w' ''a'' = Gone \<and> succeeded evs [echo_server (postgresBroker plain_engine)] ''a'')" (is "?A \<and> ?B")
proof
  obtain evs ns j j' where
    run: "cluster_run (\<lambda>x. x) (postgresBroker plain_engine) (\<lambda>w j. True \<and> pg_fresh w j) (\<lambda>w i. pg_phase w i \<noteq> Running)
      (start_cluster [(bare_server (postgresBroker plain_engine), bare_host)], pg_empty) evs (ns, pg_sample 4)"
    and b: "busy ns 0 0 j" "busy ns 0 1 j'" by (rule pg_busy_run)
  from b postgres_cluster_safe [OF plain.postgres_axioms pg_empty_ok(1) _ run] have "ID j \<noteq> ID j'"
    by (force simp: bare_server_ok)
  with run b show ?A by blast
next
  obtain evs ns w' where
    run: "cluster_run (\<lambda>x. x) (postgresBroker plain_engine) (\<lambda>w j. True \<and> pg_fresh w j) (\<lambda>w i. pg_phase w i \<noteq> Running)
      (start_cluster [(echo_server (postgresBroker plain_engine), bare_host)], pg_sample 2) evs (ns, w')"
    and a: "pg_phase w' ''a'' = Gone" "\<forall>i. Deleted i \<notin> set evs" by (rule pg_done_run)
  with postgres_cluster_safe [OF plain.postgres_axioms pg_done(4) _ run] pg_done(3)
  have "succeeded evs [echo_server (postgresBroker plain_engine)] ''a''" by (simp add: echo_server_ok)
  with run a show ?B by blast
qed

end
