(* ===== verification/Worker_Properties.thy ===== *)
theory Worker_Properties
  imports Cluster_Samples
begin

text \<open>
  The properties of the worker pool: what becomes of a job that a worker processes.
\<close>

text \<open>Failures in a row: a job that fails with the given errors, each time it is tried again.\<close>

fun failures :: "(int \<Rightarrow> int) \<Rightarrow> goerr list \<Rightarrow> Job \<Rightarrow> ('u host, action) state" where
  "failures f2i [] job = State_Monad.return (Retry_In job 0)"
| "failures f2i (e # es) job = do {
     a \<leftarrow> fail_action f2i (job\<lparr>LastError := Error e\<rparr>);
     (case a of
        Retry_In job' d \<Rightarrow> if es = [] then State_Monad.return a else failures f2i es job'
      | _ \<Rightarrow> State_Monad.return a) }"

section \<open>Outcomes\<close>

text \<open>The error a run of a handler ends with, if any.\<close>

fun outcome_error :: "outcome \<Rightarrow> goerr option" where
  "outcome_error (Returned e) = e"
| "outcome_error (Panicked v st) = Some (panic_error v st)"

lemma runHandler_error:
  "run_state (runHandler ctx hn job) h = ((outcome_error (fst x), snd x), h')"
  if "run_state (hn ctx job) h = (x, h')"
  using that by (cases x; cases "fst x") (auto simp: runHandler_def)

lemma rand_Intn_range: "0 < n \<Longrightarrow> fst (run_state (rand_Intn n) h) \<in> {0..<n}"
  by (auto simp: rand_Intn_def split: list.split)

text \<open>A pool with a handler that panics.\<close>

definition boom_pool :: "'s broker \<Rightarrow> ('s, unit) Pool" where
  "boom_pool B = pool (Server_Register (bare_server B) '''' boom)"

lemma boom_pool_sel:
  "registry (boom_pool B) = ['''' \<mapsto> boom]" "middleware (boom_pool B) = [LoggingMiddleware]" "pbroker (boom_pool B) = B"
  by (simp_all add: boom_pool_def Server_Register_def bare_server_def Register_def NewRegistry_def)

lemma boom_logged: "fst (run_state (Chain boom [LoggingMiddleware] ctx job) h) = (Panicked ''boom'' ''main'', job)"
  by (simp add: Chain_def LoggingMiddleware_def boom_def slog_def time_Now_def split: prod.splits list.splits)

section \<open>Properties\<close>

text \<open>
  C7. What happens to a job that a worker processes: exactly one call of the broker records the outcome.
  Without a registered handler the job is moved to the dead letters at once, with that as its
  error and its attempts as they were. With a handler, the chain of the middlewares around it is run on the job; if it
  returns no error the job is acknowledged; if it returns an error or panics, the job as the handler left it
  gets that error and one attempt more, and is moved to the dead letters if its attempts have reached its
  maximum, or else requeued with the delay of the backoff for its attempts.
\<close>

theorem process_outcome:
  assumes "run_state (process f2i p ctx job) (h, s) = (u, (h', s'))"
  shows "(case registry p (Type job) of
      None \<Rightarrow> s' = snd (run_state (MoveToDeadLetter (pbroker p) (job\<lparr>LastError :=
          ''no handler registered for job type '' @ go_quote (Type job), Status := StatusDead\<rparr>)) s)
    | Some hn \<Rightarrow> \<exists>out j h1. run_state (Chain hn (middleware p) ctx job) h = ((out, j), h1)
        \<and> (case outcome_error out of
            None \<Rightarrow> s' = snd (run_state (Acknowledge (pbroker p) j) s)
          | Some err \<Rightarrow> \<exists>j1. j1 = j\<lparr>LastError := Error err, Attempts := wrap64 (Attempts j + 1)\<rparr>
              \<and> (if MaxAttempts j1 \<le> Attempts j1
                 then s' = snd (run_state (MoveToDeadLetter (pbroker p) (j1\<lparr>Status := StatusDead\<rparr>)) s)
                 else \<exists>n \<in> {0..<30}. s' = snd (run_state (Requeue (pbroker p) (j1\<lparr>Status := StatusRetry\<rparr>)
                   (NextDelay f2i n (Attempts j1))) s))))"
proof (cases "registry p (Type job)")
  case None
  with assms show ?thesis
    by (auto simp: process_def Registry_Get_def deadLetter_def no_handler_def split: prod.splits sum.splits)
next
  case (Some hn)
  obtain out j h1 where run: "run_state (Chain hn (middleware p) ctx job) h = ((out, j), h1)" by (metis surj_pair)
  have rh: "run_state (runHandler ctx (Chain hn (middleware p)) job) h = ((outcome_error out, j), h1)"
    using runHandler_error [of "Chain hn (middleware p)" ctx job h "(out, j)" h1] run by simp
  show ?thesis
  proof (cases "outcome_error out")
    case None
    with assms Some rh run show ?thesis
      by (auto simp: process_def Registry_Get_def acknowledge_def split: prod.splits sum.splits)
  next
    case (Some err)
    have f: "run_state (fail f2i p (j\<lparr>LastError := Error err\<rparr>)) (h1, s) = (u, (h', s'))"
      using assms \<open>registry p (Type job) = Some hn\<close> rh Some by (simp add: process_def Registry_Get_def)
    with \<open>registry p (Type job) = Some hn\<close> run Some rand_Intn_range [of 30 h1] show ?thesis
      by (auto simp: fail_def deadLetter_def Let_def split_beta split: prod.splits sum.splits if_splits)
  qed
qed

theorem process_outcome_witness:
  "\<exists>u h' s'. run_state (process (\<lambda>x. x) (boom_pool (postgresBroker plain_engine)) \<lparr>Deadline = None, CancelledAt = None\<rparr>
        (sample_job ''a'' ''q'' 0)) (bare_host, pg_empty) = (u, (h', s'))
    \<and> (\<exists>n \<in> {0..<30}. s' = snd (run_state (Requeue (postgresBroker plain_engine) ((sample_job ''a'' ''q'' 0)\<lparr>
          LastError := Error (panic_error ''boom'' ''main''), Attempts := 1, Status := StatusRetry\<rparr>)
          (NextDelay (\<lambda>x. x) n 1)) pg_empty))"
proof -
  let ?p = "boom_pool (postgresBroker plain_engine)" and ?ctx = "\<lparr>Deadline = None, CancelledAt = None\<rparr>"
  let ?j = "sample_job ''a'' ''q'' 0"
  obtain u h' s' where run: "run_state (process (\<lambda>x. x) ?p ?ctx ?j) (bare_host, pg_empty) = (u, (h', s'))"
    by (metis surj_pair)
  have "Attempts ?j = 0" "MaxAttempts ?j = 3" by (simp_all add: sample_job_def zeroJob_def)
  then show ?thesis
    using process_outcome [OF run] run boom_logged [of ?ctx ?j bare_host]
    by (auto simp: boom_pool_sel sample_type wrap64_def)
qed

text \<open>
  C18. A job that keeps failing is dead after its maximum of attempts, and not before: with
  \<open>m\<close> attempts left, each of the next \<open>m - 1\<close> failures in a row decides for another try, with one
  attempt more each time, and the \<open>m\<close>th for the dead letters.
\<close>

theorem failures_until_dead:
  assumes "0 \<le> Attempts job" "Attempts job < MaxAttempts job" "MaxAttempts job < 2 ^ 63" "es \<noteq> []"
    and "run_state (failures f2i es job) h = (a, h')"
  shows "if int (length es) < MaxAttempts job - Attempts job
    then \<exists>d. a = Retry_In (job\<lparr>LastError := Error (last es), Attempts := Attempts job + int (length es),
      Status := StatusRetry\<rparr>) d
    else a = Bury (job\<lparr>LastError := Error (es ! nat (MaxAttempts job - Attempts job - 1)), Attempts := MaxAttempts job,
      Status := StatusDead\<rparr>)"
  using assms
proof (induction es arbitrary: job h)
  case (Cons e es)
  let ?j = "job\<lparr>LastError := Error e, Attempts := Attempts job + 1\<rparr>"
  have w: "wrap64 (Attempts job + 1) = Attempts job + 1" using Cons.prems(1-3) by (intro wrap64_id) auto
  show ?case
  proof (cases "MaxAttempts job \<le> Attempts job + 1")
    case True
    with Cons.prems w have "a = Bury (?j\<lparr>Status := StatusDead\<rparr>)" "Attempts job + 1 = MaxAttempts job"
      by (auto simp: fail_action_def Let_def split: prod.splits)
    with True show ?thesis by auto
  next
    case False
    obtain n h1 where n: "run_state (rand_Intn 30) h = (n, h1)" by (rule prod.exhaust)
    let ?r = "?j\<lparr>Status := StatusRetry\<rparr>"
    have step: "run_state (fail_action f2i (job\<lparr>LastError := Error e\<rparr>)) h = (Retry_In ?r (NextDelay f2i n (Attempts job + 1)), h1)"
      using False w n by (simp add: fail_action_def Let_def)
    show ?thesis
    proof (cases es)
      case Nil
      with Cons.prems(5) step False show ?thesis by auto
    next
      case (Cons e' es')
      then have "run_state (failures f2i es ?r) h1 = (a, h')" using Cons.prems(5) step by simp
      note IH = Cons.IH [OF _ _ _ _ this]
      have "nat (MaxAttempts job - Attempts job - 1) = Suc (nat (MaxAttempts job - (Attempts job + 1) - 1))"
        using False by linarith
      with IH Cons.prems(1-3) False Cons show ?thesis by (auto simp: algebra_simps split: if_splits)
    qed
  qed
qed simp

theorem failures_until_dead_witness:
  "\<exists>a h'. run_state (failures (\<lambda>x. x) [NetError, NetError, NetError] (sample_job ''a'' ''q'' 0)) bare_host = (a, h')
    \<and> a = Bury ((sample_job ''a'' ''q'' 0)\<lparr>LastError := Error NetError, Attempts := 3, Status := StatusDead\<rparr>)"
proof -
  obtain a h' where run: "run_state (failures (\<lambda>x. x) [NetError, NetError, NetError] (sample_job ''a'' ''q'' 0)) bare_host = (a, h')"
    by (rule prod.exhaust)
  have "Attempts (sample_job ''a'' ''q'' 0) = 0" "MaxAttempts (sample_job ''a'' ''q'' 0) = 3" by (simp_all add: sample_job_def zeroJob_def)
  with failures_until_dead [OF _ _ _ _ run] run show ?thesis by auto
qed

end
