(* ===== verification/Server_Properties.thy ===== *)
theory Server_Properties
  imports Cluster_Samples
begin

text \<open>
  The properties of \<open>pkg/client\<close>: enqueuing through the client, the construction of a server, its capacity and its
  shutdown.
\<close>

section \<open>Invariants of nodes\<close>

text \<open>What holds of every server that has just started and is kept by its steps holds of every server
  in every run of a cluster.\<close>

lemma cluster_run_nodes:
  assumes "cluster_run f2i B fresh free (start_cluster l, s) evs (ns, s')" "(srv, nd) \<in> set ns"
    and start: "\<And>srv h. I srv (Server_start srv h)"
    and step: "\<And>srv nd s ev nd' s'. node_step f2i srv (nd, s) ev (nd', s') \<Longrightarrow> I srv nd \<Longrightarrow> I srv nd'"
  shows "I srv nd"
proof -
  have "\<forall>(srv, nd) \<in> set (fst d). I srv nd" if "cluster_run f2i B fresh free (start_cluster l, s) evs d" for d
    using that
  proof (induction rule: cluster_run.induct)
    case start
    then show ?case using assms(3) by (auto simp: start_cluster_def)
  next
    case (more evs d ev e)
    from more.hyps(2) more.IH show ?case
    proof cases
      case (node k ns srv nd s nd' s')
      have "I srv nd" using node more.IH nth_mem [of k ns] by auto
      with step node have "I srv nd'" by blast
      with node more.IH show ?thesis by (auto dest!: subsetD [OF set_update_subset_insert])
    qed auto
  qed
  with assms(1,2) show ?thesis by fastforce
qed

section \<open>Capacity\<close>

definition within_capacity :: "('s, 'u) Server \<Rightarrow> 'u node \<Rightarrow> bool" where
  "within_capacity srv nd \<longleftrightarrow> length (jobCh nd) \<le> chanCap (pool srv)
     \<and> length (ws nd) = nat (numWorkers (pool srv))"

lemma size_wjobs: "size (wjobs x) \<le> 1"
  by (cases x) simp_all

lemma size_djobs: "size (djobs d) \<le> 1"
  by (cases d) simp_all

lemma size_sum_wjobs: "size (sum_list (map wjobs l)) \<le> length l"
proof (induction l)
  case (Cons x l)
  then show ?case using size_wjobs [of x] by simp
qed simp

lemma size_node_jobs: "size (node_jobs nd) \<le> 1 + length (jobCh nd) + length (ws nd)"
  using size_djobs [of "dst nd"] size_sum_wjobs [of "ws nd"] by (simp add: node_jobs_def)

lemma within_capacity_start: "within_capacity srv (Server_start srv h)"
  by (simp add: within_capacity_def Server_start_def Pool_Start_def split_beta)

lemma within_capacity_step:
  "node_step f2i srv (nd, s) ev (nd', s') \<Longrightarrow> within_capacity srv nd \<Longrightarrow> within_capacity srv nd'"
  by (erule node_step.cases) (auto simp: within_capacity_def Submit_def split: if_splits)

section \<open>Shutdown\<close>

definition shut_down :: "'u node \<Rightarrow> bool" where
  "shut_down nd \<longleftrightarrow> (main nd \<in> {Stopping, Closed} \<longrightarrow> cancelled nd \<and> dst nd = DStopped \<and> sst nd = SStopped)
     \<and> (main nd = Closed \<longrightarrow> set (ws nd) \<subseteq> {Exited})"

lemma exited_nth: "set l \<subseteq> {Exited} \<Longrightarrow> k < length l \<Longrightarrow> l ! k = Exited"
  using nth_mem by fastforce

lemma shut_down_start: "shut_down (Server_start srv h)"
  by (simp add: shut_down_def Server_start_def split_beta)

lemma shut_down_step:
  assumes "node_step f2i srv (nd, s) ev (nd', s')" "shut_down nd"
  shows "shut_down nd'"
  using assms by cases (auto simp: shut_down_def dest: exited_nth split: if_splits)

lemma sum_wjobs_all_exited: "set l \<subseteq> {Exited} \<Longrightarrow> sum_list (map wjobs l) = {#}"
  by (induction l) auto

lemma closed_steps:
  assumes "node_step f2i srv (nd, s) ev (nd', s')" "shut_down nd" "main nd = Closed"
  shows "s' = s \<and> jobCh nd' \<in> {jobCh nd, []} \<and> ev \<in> {Tau, Dispatched}"
  using assms by cases (auto simp: shut_down_def dest: exited_nth split: if_splits)

section \<open>Shutdown with a job in the channel\<close>

text \<open>Steps of a cluster of one server, as one list.\<close>

lemma node_run2:
  assumes "cluster_run f2i B fresh free c evs ([(srv, nd)], s)"
    and "node_step f2i srv (nd, s) e1 (nd1, s1)" "node_step f2i srv (nd1, s1) e2 (nd2, s2)"
  shows "cluster_run f2i B fresh free c (evs @ [e1, e2]) ([(srv, nd2)], s2)"
  using node_run [OF node_run [OF assms(1,2)] assms(3)] by simp

text \<open>A job is dispatched to the channel, the context is cancelled, and all goroutines take the branch of
  their select statements that ends them.\<close>

lemma strand_run:
  assumes srv: "schedule (dispatcher srv) = [q]" "dbroker (dispatcher srv) = B" "0 < chanCap (pool srv)"
    and "numWorkers (pool srv) = 1" "0 < interval (scheduler srv)" "pbroker (pool srv) = B" and deq: "run_state (Dequeue B [q]) s = (Inr (Some j), s')"
  shows "\<exists>evs nd. cluster_run f2i B fresh free (start_cluster [(srv, bare_host)], s) evs
      ([(srv, nd)], snd (run_state (Close B) s'))
    \<and> main nd = Closed \<and> jobCh nd = [j] \<and> (\<forall>k a. Ran k a \<notin> set evs)"
proof -
  let ?run = "cluster_run f2i B fresh free ([(srv, bare_node [Idle] 0)], s)"
  let ?nd = "\<lambda>d t ch l m c. \<lparr>nhost = bare_host, dst = d, sst = t, jobCh = ch, ws = l, main = m, cancelled = c\<rparr>"
  have start: "start_cluster [(srv, bare_host)] = [(srv, bare_node [Idle] 0)]"
    using assms(4,5) by (intro start_bare [OF srv(1)]) simp_all
  have 0: "?run [] ([(srv, ?nd (DPoll 0) SWait [] [Idle] Serving False)], s)"
    unfolding bare_node_def by (rule cluster_run.start)
  have 1: "node_step f2i srv (?nd (DPoll 0) SWait [] [Idle] Serving False, s) Dispatched
      (?nd (DSubmit 1 j) SWait [] [Idle] Serving False, s')"
    using node_step.dispatch [of "?nd (DPoll 0) SWait [] [Idle] Serving False" srv s "DSubmit 1 j" bare_host s' f2i] srv deq
    by (simp add: poll_queue_one Let_def wrap64_def)
  have 2: "node_step f2i srv (?nd (DSubmit 1 j) SWait [] [Idle] Serving False, s') Tau
      (?nd (DPoll 1) SWait [j] [Idle] Serving False, s')"
    using node_step.submit [of "?nd (DSubmit 1 j) SWait [] [Idle] Serving False" 1 j srv True "[j]" f2i s'] srv(3)
    by (simp add: Submit_def)
  have 3: "node_step f2i srv (?nd (DPoll 1) SWait [j] [Idle] Serving False, s') Tau (?nd (DPoll 1) SWait [j] [Idle] Serving True, s')"
    using node_step.cancel [of f2i srv "?nd (DPoll 1) SWait [j] [Idle] Serving False" s'] by simp
  have 4: "node_step f2i srv (?nd (DPoll 1) SWait [j] [Idle] Serving True, s') Tau (?nd (DPoll 1) SWait [j] [Exited] Serving True, s')"
    using node_step.worker_exit [of 0 "?nd (DPoll 1) SWait [j] [Idle] Serving True" f2i srv s'] by simp
  have 5: "node_step f2i srv (?nd (DPoll 1) SWait [j] [Exited] Serving True, s') Dispatched (?nd DStopped SWait [j] [Exited] Serving True, s')"
    using node_step.dispatch [of "?nd (DPoll 1) SWait [j] [Exited] Serving True" srv s' DStopped bare_host s' f2i] by simp
  have 6: "node_step f2i srv (?nd DStopped SWait [j] [Exited] Serving True, s') Tau (?nd DStopped SStopped [j] [Exited] Serving True, s')"
    using node_step.schedule_exit [of "?nd DStopped SWait [j] [Exited] Serving True" f2i srv s'] by simp
  have 7: "node_step f2i srv (?nd DStopped SStopped [j] [Exited] Serving True, s') Tau (?nd DStopped SStopped [j] [Exited] Stopping True, s')"
    using node_step.main_stop [of "?nd DStopped SStopped [j] [Exited] Serving True" f2i srv s'] by simp
  define n7 where "n7 = ?nd DStopped SStopped [j] [Exited] Stopping True"
  obtain h where h: "run_state (close_broker (pbroker (pool srv))) (nhost n7, s') = ((), (h, snd (run_state (Close B) s')))"
    using assms(6) close_broker_run [of B "nhost n7" s'] by auto
  have 8: "node_step f2i srv (n7, s') Tau (n7\<lparr>main := Closed, nhost := h\<rparr>, snd (run_state (Close B) s'))"
    by (rule node_step.main_close [OF _ _ h]) (simp_all add: n7_def)
  from node_run2 [OF node_run2 [OF node_run2 [OF node_run2 [OF 0 1 2] 3 4] 5 6] 7 [folded n7_def] 8]
  show ?thesis unfolding start by (intro exI conjI) (auto simp: n7_def)
qed

lemma one_worker_server:
  assumes "NewServer \<lparr>Concurrency = 1, Queues = [(q, 1)], BufferSize = b, PollInterval = 0, SchedulerInterval = 0\<rparr> B = Some srv"
    and "0 \<le> b"
  shows "schedule (dispatcher srv) = [q]" "dbroker (dispatcher srv) = B" "0 < chanCap (pool srv)" "numWorkers (pool srv) = 1"
    "0 < interval (scheduler srv)" "pbroker (pool srv) = B"
proof -
  have "wrap64 2 = 2" by (simp add: wrap64_def)
  with assms show "schedule (dispatcher srv) = [q]" "dbroker (dispatcher srv) = B" "0 < chanCap (pool srv)" "numWorkers (pool srv) = 1"
    "0 < interval (scheduler srv)" "pbroker (pool srv) = B"
    by (auto simp: NewServer_def NewPool_def NewDispatcher_def NewScheduler_def defaultSchedulerInterval_def Second_def
        buildPollSchedule_concat Let_def split: if_splits)
qed

text \<open>The run of \<open>strand_run\<close>, for one job in Postgres.\<close>

definition one_worker :: "(pgworld, unit) Server" where
  "one_worker = the (NewServer \<lparr>Concurrency = 1, Queues = [(''q'', 1)], BufferSize = 0, PollInterval = 0,
     SchedulerInterval = 0\<rparr> (postgresBroker plain_engine))"

lemma one_worker_new:
  "NewServer \<lparr>Concurrency = 1, Queues = [(''q'', 1)], BufferSize = 0, PollInterval = 0, SchedulerInterval = 0\<rparr>
     (postgresBroker plain_engine) = Some one_worker"
  by (simp add: one_worker_def NewServer_def NewPool_def Let_def wrap64_def)

lemma stranded_run:
  obtains evs nd d s' where "cluster_run (\<lambda>x. x) (postgresBroker plain_engine) (\<lambda>_ _. True) (\<lambda>_ _. True)
      (start_cluster [(one_worker, bare_host)], pg_sample 2) evs ([(one_worker, nd)], pg_sample 3)"
    "main nd = Closed" "jobCh nd = [d]" "run_state (Dequeue (postgresBroker plain_engine) [''q'']) (pg_sample 2) = (Inr (Some d), pg_sample 3)"
proof -
  obtain d where d: "run_state (Dequeue (postgresBroker plain_engine) [''q'']) (pg_sample 2) = (Inr (Some d), pg_sample 3)"
    by (rule pg_two_jobs)
  have "snd (run_state (Close (postgresBroker plain_engine)) (pg_sample 3)) = pg_sample 3"
    by (simp add: postgresBroker_def pg_Close_def)
  from strand_run [OF one_worker_server [OF one_worker_new] d, unfolded this] d that show thesis by blast
qed

section \<open>Properties\<close>

text \<open>
  C14. Backpressure: in every run of a cluster, a server's channel never holds more jobs than
  its capacity, the number of its workers never changes, and the server never holds more
  jobs than fit its channel and its workers, plus the one its dispatcher is handing over.
\<close>

theorem server_capacity:
  assumes "cluster_run f2i B fresh free (start_cluster l, s) evs (ns, s')" "(srv, nd) \<in> set ns"
  shows "length (jobCh nd) \<le> chanCap (pool srv) \<and> length (ws nd) = nat (numWorkers (pool srv))
    \<and> size (node_jobs nd) \<le> chanCap (pool srv) + nat (numWorkers (pool srv)) + 1"
proof -
  have "within_capacity srv nd"
    by (rule cluster_run_nodes [OF assms]) (rule within_capacity_start, rule within_capacity_step)
  then show ?thesis using size_node_jobs [of nd] by (simp add: within_capacity_def)
qed

theorem server_capacity_witness:
  "\<exists>evs nd. cluster_run (\<lambda>x. x) (postgresBroker plain_engine) (\<lambda>_ _. True) (\<lambda>_ _. True)
      (start_cluster [(one_worker, bare_host)], pg_sample 2) evs ([(one_worker, nd)], pg_sample 3)
    \<and> length (jobCh nd) = 1 \<and> length (jobCh nd) \<le> chanCap (pool one_worker)
    \<and> length (ws nd) = nat (numWorkers (pool one_worker))
    \<and> size (node_jobs nd) \<le> chanCap (pool one_worker) + nat (numWorkers (pool one_worker)) + 1"
proof -
  obtain evs nd d where r: "cluster_run (\<lambda>x. x) (postgresBroker plain_engine) (\<lambda>_ _. True) (\<lambda>_ _. True)
      (start_cluster [(one_worker, bare_host)], pg_sample 2) evs ([(one_worker, nd)], pg_sample 3)" "jobCh nd = [d]"
    by (rule stranded_run)
  have "(one_worker, nd) \<in> set [(one_worker, nd)]" by simp
  from server_capacity [OF r(1) this] r show ?thesis by (intro exI [of _ evs] exI [of _ nd]) simp
qed

text \<open>
  C15. Shutdown: in every run of a cluster, once \<open>Run\<close> of a server has returned, its context is done, its
  dispatcher and its scheduler have stopped, every worker has exited, and no job is with a worker: the
  only jobs the server still holds are those left in its channel. From then on no step of the server changes
  the broker.
\<close>

theorem server_shutdown:
  assumes "cluster_run f2i B fresh free (start_cluster l, s) evs (ns, s')" "(srv, nd) \<in> set ns" "main nd = Closed"
  shows "cancelled nd \<and> dst nd = DStopped \<and> sst nd = SStopped \<and> set (ws nd) \<subseteq> {Exited}
    \<and> node_jobs nd = mset (jobCh nd)
    \<and> (\<forall>s1 ev nd' s2. node_step f2i srv (nd, s1) ev (nd', s2) \<longrightarrow> s2 = s1)"
proof -
  have sd: "shut_down nd"
    by (rule cluster_run_nodes [OF assms(1,2), where I = "\<lambda>_. shut_down"]) (rule shut_down_start, rule shut_down_step)
  with assms(3) have "cancelled nd \<and> dst nd = DStopped \<and> sst nd = SStopped \<and> set (ws nd) \<subseteq> {Exited}"
    "node_jobs nd = mset (jobCh nd)" by (simp_all add: shut_down_def node_jobs_def sum_wjobs_all_exited)
  moreover have "\<forall>s1 ev nd' s2. node_step f2i srv (nd, s1) ev (nd', s2) \<longrightarrow> s2 = s1"
    by (intro allI impI) (rule conjunct1 [OF closed_steps [OF _ sd assms(3)]])
  ultimately show ?thesis by blast
qed

theorem server_shutdown_witness:
  "\<exists>evs nd. cluster_run (\<lambda>x. x) (postgresBroker plain_engine) (\<lambda>_ _. True) (\<lambda>_ _. True)
      (start_cluster [(one_worker, bare_host)], pg_sample 2) evs ([(one_worker, nd)], pg_sample 3)
    \<and> main nd = Closed \<and> cancelled nd \<and> dst nd = DStopped \<and> sst nd = SStopped \<and> set (ws nd) \<subseteq> {Exited}
    \<and> node_jobs nd = mset (jobCh nd)"
proof -
  obtain evs nd d where r: "cluster_run (\<lambda>x. x) (postgresBroker plain_engine) (\<lambda>_ _. True) (\<lambda>_ _. True)
      (start_cluster [(one_worker, bare_host)], pg_sample 2) evs ([(one_worker, nd)], pg_sample 3)" "main nd = Closed"
    by (rule stranded_run)
  have "(one_worker, nd) \<in> set [(one_worker, nd)]" by simp
  from server_shutdown [OF r(1) this r(2)] r show ?thesis by blast
qed

text \<open>
  C17. Shutdown can strand a job: a server with one worker, as \<open>NewServer\<close> builds it, whose broker has a job to
  hand out, has a run that ends with \<open>Run\<close> returned and the job still in its channel, claimed from
  the broker and never given to a handler.
\<close>

theorem shutdown_strands_job:
  assumes "NewServer \<lparr>Concurrency = 1, Queues = [(q, 1)], BufferSize = b, PollInterval = 0, SchedulerInterval = 0\<rparr> B = Some srv"
    and "0 \<le> b" "run_state (Dequeue B [q]) s = (Inr (Some j), s')"
  shows "\<exists>evs nd. cluster_run f2i B fresh free (start_cluster [(srv, bare_host)], s) evs
      ([(srv, nd)], snd (run_state (Close B) s'))
    \<and> main nd = Closed \<and> jobCh nd = [j] \<and> (\<forall>k a. Ran k a \<notin> set evs)"
  by (rule strand_run [OF one_worker_server [OF assms(1,2)] assms(3)])

theorem shutdown_strands_job_witness:
  "\<exists>d evs nd. run_state (Dequeue (postgresBroker plain_engine) [''q'']) (pg_sample 2) = (Inr (Some d), pg_sample 3)
    \<and> cluster_run (\<lambda>x. x) (postgresBroker plain_engine) (\<lambda>_ _. True) (\<lambda>_ _. True)
      (start_cluster [(one_worker, bare_host)], pg_sample 2) evs
      ([(one_worker, nd)], snd (run_state (Close (postgresBroker plain_engine)) (pg_sample 3)))
    \<and> main nd = Closed \<and> jobCh nd = [d]"
proof -
  obtain d where d: "run_state (Dequeue (postgresBroker plain_engine) [''q'']) (pg_sample 2) = (Inr (Some d), pg_sample 3)"
    by (rule pg_two_jobs)
  from shutdown_strands_job [OF one_worker_new order_refl d] d show ?thesis by blast
qed

lemma Client_Enqueue_effect:
  assumes "run_state (Client_Enqueue mj uuid c jobType payload opts) (h, s) = (r, (h', s'))"
    and "opt = (case opts of [] \<Rightarrow> \<lparr>oQueue = '''', oIn = 0, oMaxAttempts = 0\<rparr> | o1 # _ \<Rightarrow> o1)"
  shows "case mj payload of
      Inl err \<Rightarrow> r = Inl (WrapError ''build job: '' err) \<and> s' = s
    | Inr p \<Rightarrow> \<exists>job e. run_state (Enqueue (cbroker c) job) s = (e, s')
        \<and> r = (case e of Inl err \<Rightarrow> Inl (WrapError ''enqueue: '' err) | Inr _ \<Rightarrow> Inr job)
        \<and> ID job = uuid \<and> Type job = jobType \<and> Payload job = p \<and> Status job = StatusPending \<and> Attempts job = 0
        \<and> Queue job = (if oQueue opt = '''' then ''default'' else oQueue opt)
        \<and> MaxAttempts job = (if 0 < oMaxAttempts opt then oMaxAttempts opt else 3)
        \<and> clock h + max 0 (oIn opt) \<le> ProcessAt job \<and> ProcessAt job \<le> clock h' + max 0 (oIn opt)"
proof (cases "mj payload")
  case (Inl err)
  with assms(1) show ?thesis
    by (auto simp: Client_Enqueue_def NewJob_def time_Now_def Let_def)
next
  case (Inr p)
  define now where "now = (\<lambda>h :: 'a host. snd (run_state time_Now h))"
  define job where "job = zeroJob\<lparr>ID := uuid, Queue := if oQueue opt = [] then ''default'' else oQueue opt, Type := jobType,
    Payload := p, CreatedAt := clock h, ProcessAt := if 0 < oIn opt then clock (now (now h)) + oIn opt else clock (now h),
    Attempts := 0, MaxAttempts := if 0 < oMaxAttempts opt then oMaxAttempts opt else 3, Status := StatusPending\<rparr>"
  have tn: "run_state time_Now h = (clock h, now h)" "clock h \<le> clock (now h)" for h
    by (simp_all add: now_def time_Now_def)
  obtain e s1 where e: "run_state (Enqueue (cbroker c) job) s = (e, s1)" by (rule prod.exhaust)
  have "run_state (Client_Enqueue mj uuid c jobType payload opts) (h, s) =
      (case e of Inl err \<Rightarrow> Inl (WrapError ''enqueue: '' err) | Inr _ \<Rightarrow> Inr job,
       (if 0 < oIn opt then now (now (now h)) else now (now h), s1))"
    using e Inr assms(2) unfolding job_def zeroJob_def
    by (cases opts) (auto simp: Client_Enqueue_def NewJob_def zeroJob_def tn(1) Let_def cong: sum.case_cong)
  with assms(1) have *: "r = (case e of Inl err \<Rightarrow> Inl (WrapError ''enqueue: '' err) | Inr _ \<Rightarrow> Inr job)" "s' = s1"
    "h' = (if 0 < oIn opt then now (now (now h)) else now (now h))" by simp_all
  have "clock h + max 0 (oIn opt) \<le> ProcessAt job" "ProcessAt job \<le> clock h' + max 0 (oIn opt)"
    using tn(2) [of h] tn(2) [of "now h"] tn(2) [of "now (now h)"] *(3) by (auto simp: job_def)
  then show ?thesis
    using Inr e * by (auto simp: job_def intro!: exI [of _ job] exI [of _ e])
qed

text \<open>
  C33. What \<open>Client.Enqueue\<close> does: it makes at most one call of the broker. A payload that cannot be
  encoded gives an error and no call. Otherwise the broker is given one new pending job with
  the payload and the identifier drawn for it: in the queue of the options or in
  the queue \<open>default\<close>, with the maximal number of attempts of the options or 3, due now or after the
  delay of the options. The job is returned exactly if the broker reported no error.
\<close>

theorem client_enqueue:
  assumes "run_state (Client_Enqueue mj uuid c jobType payload opts) (h, s) = (r, (h', s'))"
    and "opt = (case opts of [] \<Rightarrow> \<lparr>oQueue = '''', oIn = 0, oMaxAttempts = 0\<rparr> | o1 # _ \<Rightarrow> o1)"
  shows "case mj payload of
      Inl err \<Rightarrow> r = Inl (WrapError ''build job: '' err) \<and> s' = s
    | Inr p \<Rightarrow> \<exists>job e. run_state (Enqueue (cbroker c) job) s = (e, s')
        \<and> r = (case e of Inl err \<Rightarrow> Inl (WrapError ''enqueue: '' err) | Inr _ \<Rightarrow> Inr job)
        \<and> ID job = uuid \<and> Type job = jobType \<and> Payload job = p \<and> Status job = StatusPending \<and> Attempts job = 0
        \<and> Queue job = (if oQueue opt = '''' then ''default'' else oQueue opt)
        \<and> MaxAttempts job = (if 0 < oMaxAttempts opt then oMaxAttempts opt else 3)
        \<and> clock h + max 0 (oIn opt) \<le> ProcessAt job \<and> ProcessAt job \<le> clock h' + max 0 (oIn opt)"
  by (rule Client_Enqueue_effect [OF assms])

theorem client_enqueue_witness:
  "\<exists>r h' s' job e. run_state (Client_Enqueue Inr ''u1'' (NewClient (\<lambda>_. postgresBroker plain_engine) \<lparr>RedisAddr = ''''\<rparr>) ''mail'' ''{}''
        [\<lparr>oQueue = ''low'', oIn = 5, oMaxAttempts = 0\<rparr>]) (bare_host, pg_empty) = (r, (h', s'))
    \<and> run_state (Enqueue (postgresBroker plain_engine) job) pg_empty = (e, s')
    \<and> Queue job = ''low'' \<and> MaxAttempts job = 3 \<and> 5 \<le> ProcessAt job"
proof -
  obtain r h' s' where run: "run_state (Client_Enqueue Inr ''u1'' (NewClient (\<lambda>_. postgresBroker plain_engine) \<lparr>RedisAddr = ''''\<rparr>) ''mail'' ''{}''
      [\<lparr>oQueue = ''low'', oIn = 5, oMaxAttempts = 0\<rparr>]) (bare_host, pg_empty) = (r, (h', s'))" by (metis surj_pair)
  have "clock bare_host = 0" by (simp add: bare_host_def)
  with client_enqueue [OF run refl] run show ?thesis by (fastforce simp: NewClient_def)
qed


end
