(* ===== verification/Shutdown.thy ===== *)
theory Shutdown
  imports Server_Properties
begin

text \<open>
  The graceful shutdown of \<open>pkg/client/server.go\<close> ends: a measure of the work a server has left once its context is
  done, and that some goroutine can always go on until \<open>Run\<close> has returned. Handlers are functions here, so this holds
  for handlers that return.
\<close>

section \<open>The work that is left\<close>

fun dwork :: "dstate \<Rightarrow> nat" where
  "dwork (DPoll idx) = 1"
| "dwork (DFail idx queue err) = 1"
| "dwork (DSleep idx) = 2"
| "dwork (DSubmit idx job) = 5"
| "dwork _ = 0"

fun swork :: "sstate \<Rightarrow> nat" where
  "swork SWait = 2"
| "swork (SFail err) = 1"
| "swork _ = 0"

fun wwork :: "wstate \<Rightarrow> nat" where
  "wwork Idle = 1"
| "wwork (Busy job) = 3"
| "wwork (Recording a) = 2"
| "wwork Exited = 0"

fun mwork :: "mainpc \<Rightarrow> nat" where
  "mwork Serving = 2"
| "mwork Stopping = 1"
| "mwork _ = 0"

definition work :: "'u node \<Rightarrow> nat" where
  "work nd = dwork (dst nd) + swork (sst nd) + mwork (main nd) + 3 * length (jobCh nd) + sum_list (map wwork (ws nd))"

lemma wwork_le: "sum_list (map wwork l) \<le> 3 * length l"
proof (induction l)
  case (Cons x l)
  then show ?case by (cases x) simp_all
qed simp

lemma work_le: "work nd \<le> 9 + 3 * length (jobCh nd) + 3 * length (ws nd)"
proof -
  have "dwork (dst nd) \<le> 5" by (cases "dst nd") simp_all
  moreover have "swork (sst nd) \<le> 2" by (cases "sst nd") simp_all
  moreover have "mwork (main nd) \<le> 2" by (cases "main nd") simp_all
  ultimately show ?thesis using wwork_le [of "ws nd"] by (simp add: work_def)
qed

lemma wwork_update:
  "k < length l \<Longrightarrow> sum_list (map wwork (l[k := x])) + wwork (l ! k) = sum_list (map wwork l) + wwork x"
  by (induction l arbitrary: k) (auto simp: nth_Cons split: nat.splits)

text \<open>A node that is shutting down: its context is done and it has neither been killed nor panicked.\<close>

definition stopping :: "'u node \<Rightarrow> bool" where
  "stopping nd \<longleftrightarrow> cancelled nd \<and> main nd \<noteq> Killed \<and> dst nd \<noteq> DPanicked \<and> sst nd \<noteq> SPanicked"

text \<open>A step that changes the state of a goroutine or the channel, in whatever state the broker is. The other
  steps of a server that is shutting down are the ticks of the scheduler that end without an error.\<close>

definition shutdown_step :: "(int \<Rightarrow> int) \<Rightarrow> ('s, 'u) Server \<Rightarrow> 'u node \<Rightarrow> 'u node \<Rightarrow> bool" where
  "shutdown_step f2i srv nd nd' \<longleftrightarrow> (\<exists>s ev s'. node_step f2i srv (nd, s) ev (nd', s'))
     \<and> main nd' \<noteq> Killed \<and> nd' \<noteq> nd\<lparr>nhost := nhost nd'\<rparr>"

lemma dispatcher_stops:
  assumes "run_state (dispatcher_step B sch True d) x = (d', y)" "d \<noteq> DPanicked"
  shows "d' \<noteq> DPanicked \<and> (d' = d \<or> dwork d' < dwork d)"
  using assms by (cases d) auto

lemma scheduler_stops:
  assumes "run_state (scheduler_step B qs True t) x = (t', y)" "t \<noteq> SPanicked"
  shows "t' \<noteq> SPanicked \<and> (t' = t \<or> swork t' < swork t)"
  using assms by (cases t; cases x) (auto split: prod.splits option.splits if_splits)

lemma node_step_work:
  assumes "node_step f2i srv (nd, s) ev (nd', s')" "stopping nd" "main nd' \<noteq> Killed"
  shows "stopping nd' \<and> (nd' = nd\<lparr>nhost := nhost nd'\<rparr> \<or> work nd' < work nd)"
  using assms(1)
proof cases
  case (dispatch d h)
  with dispatcher_stops [of _ _ "dst nd"] assms(2) show ?thesis by (fastforce simp: stopping_def work_def)
next
  case (promote t h)
  with scheduler_stops [of _ _ "sst nd"] assms(2) show ?thesis by (fastforce simp: stopping_def work_def)
next
  case (handoff idx job k)
  with assms(2) wwork_update [of k "ws nd" "Busy job"] show ?thesis by (simp add: stopping_def work_def)
next
  case (receive k job ch)
  with assms(2) wwork_update [of k "ws nd" "Busy job"] show ?thesis by (simp add: stopping_def work_def)
next
  case (worker_exit k)
  with assms(2) wwork_update [of k "ws nd" Exited] show ?thesis by (simp add: stopping_def work_def)
next
  case (ran k job ctx a h)
  with assms(2) wwork_update [of k "ws nd" "Recording a"] show ?thesis by (simp add: stopping_def work_def)
next
  case (recorded k a u h)
  with assms(2) wwork_update [of k "ws nd" Idle] show ?thesis by (simp add: stopping_def work_def)
next
  case (submit idx job choice ch)
  then have "length ch = Suc (length (jobCh nd))" by (auto simp: Submit_def split: if_splits)
  with submit assms(2) show ?thesis by (simp add: stopping_def work_def)
qed (use assms(2,3) in \<open>simp_all add: stopping_def work_def\<close>)

lemma shutdown_step_work: "shutdown_step f2i srv nd nd' \<Longrightarrow> stopping nd \<Longrightarrow> stopping nd' \<and> work nd' < work nd"
  unfolding shutdown_step_def by (metis node_step_work)

lemma shutdown_steps_work:
  "(shutdown_step f2i srv ^^ n) nd nd' \<Longrightarrow> stopping nd \<Longrightarrow> stopping nd' \<and> n + work nd' \<le> work nd"
proof (induction n arbitrary: nd')
  case (Suc n)
  then obtain nd1 where "(shutdown_step f2i srv ^^ n) nd nd1" "shutdown_step f2i srv nd1 nd'" by auto
  with Suc.IH [of nd1] Suc.prems(2) shutdown_step_work [of f2i srv nd1 nd'] show ?case by auto
qed simp

lemma changed_node:
  "dst nd' \<noteq> dst nd \<or> sst nd' \<noteq> sst nd \<or> ws nd' \<noteq> ws nd \<or> main nd' \<noteq> main nd \<Longrightarrow> nd' \<noteq> nd\<lparr>nhost := h\<rparr>"
  by auto

text \<open>Until \<open>Run\<close> has returned, some goroutine can go on.\<close>

lemma dispatcher_goes_on:
  assumes "stopping nd" "dst nd \<noteq> DStopped"
  shows "\<exists>ev nd'. node_step f2i srv (nd, s) ev (nd', s) \<and> main nd' = main nd \<and> dst nd' \<noteq> dst nd"
proof (cases "dst nd")
  case (DSubmit idx job)
  have "node_step f2i srv (nd, s) Tau (nd\<lparr>dst := DStopped\<rparr>, s)"
    by (rule node_step.submit_err [OF DSubmit, where choice = False]) (use assms in \<open>simp add: Submit_def stopping_def\<close>)
  with DSubmit show ?thesis by fastforce
next
  case (DPoll idx)
  have "node_step f2i srv (nd, s) Dispatched (nd\<lparr>dst := DStopped, nhost := nhost nd\<rparr>, s)"
    using assms DPoll by (intro node_step.dispatch) (simp_all add: stopping_def)
  with DPoll show ?thesis by fastforce
next
  case (DFail idx q e)
  have "node_step f2i srv (nd, s) Dispatched (nd\<lparr>dst := DStopped, nhost := nhost nd\<rparr>, s)"
    using assms DFail by (intro node_step.dispatch) (simp_all add: stopping_def)
  with DFail show ?thesis by fastforce
next
  case (DSleep idx)
  have "node_step f2i srv (nd, s) Dispatched (nd\<lparr>dst := DPoll idx, nhost := nhost nd\<rparr>, s)"
    using assms DSleep by (intro node_step.dispatch) (simp_all add: stopping_def)
  with DSleep show ?thesis by fastforce
qed (use assms in \<open>simp_all add: stopping_def\<close>)

lemma scheduler_goes_on:
  assumes "stopping nd" "sst nd \<noteq> SStopped"
  shows "\<exists>ev nd'. node_step f2i srv (nd, s) ev (nd', s) \<and> main nd' = main nd \<and> sst nd' \<noteq> sst nd"
proof (cases "sst nd")
  case SWait
  have "node_step f2i srv (nd, s) Tau (nd\<lparr>sst := SStopped\<rparr>, s)"
    using assms SWait by (intro node_step.schedule_exit) (simp_all add: stopping_def)
  with SWait show ?thesis by fastforce
next
  case (SFail e)
  have "node_step f2i srv (nd, s) Tau (nd\<lparr>sst := SStopped, nhost := nhost nd\<rparr>, s)"
    using assms SFail by (intro node_step.promote) (simp_all add: stopping_def)
  with SFail show ?thesis by fastforce
qed (use assms in \<open>simp_all add: stopping_def\<close>)

lemma worker_goes_on:
  assumes "stopping nd" "k < length (ws nd)" "ws nd ! k \<noteq> Exited"
  shows "\<exists>ev nd' s'. node_step f2i srv (nd, s) ev (nd', s') \<and> main nd' = main nd \<and> ws nd' \<noteq> ws nd"
proof (cases "ws nd ! k")
  case Idle
  with assms have "node_step f2i srv (nd, s) Tau (nd\<lparr>ws := (ws nd)[k := Exited]\<rparr>, s)"
    by (intro node_step.worker_exit) (simp_all add: stopping_def)
  then show ?thesis using assms Idle by (fastforce simp: list_update_same_conv)
next
  case (Busy job)
  obtain a h where "run_state (run_job f2i (pool srv) undefined job) (nhost nd) = (a, h)" by (rule prod.exhaust)
  from node_step.ran [OF assms(2) Busy this] show ?thesis using assms Busy by (fastforce simp: list_update_same_conv)
next
  case (Recording a)
  obtain u h s' where "run_state (record_action (pool srv) a) (nhost nd, s) = (u, (h, s'))" by (metis surj_pair)
  from node_step.recorded [OF assms(2) Recording this] show ?thesis using assms Recording by (fastforce simp: list_update_same_conv)
qed (use assms in simp)

lemma main_goes_on:
  assumes "stopping nd" "main nd \<noteq> Closed" "dst nd = DStopped" "sst nd = SStopped" "set (ws nd) \<subseteq> {Exited}"
  shows "\<exists>ev nd' s'. node_step f2i srv (nd, s) ev (nd', s') \<and> main nd' \<noteq> Killed \<and> main nd' \<noteq> main nd"
proof (cases "main nd = Serving")
  case True
  have "node_step f2i srv (nd, s) Tau (nd\<lparr>main := Stopping\<rparr>, s)"
    using True assms by (intro node_step.main_stop) (simp_all add: stopping_def)
  with True show ?thesis by fastforce
next
  case False
  with assms(1,2) have S: "main nd = Stopping" by (cases "main nd") (simp_all add: stopping_def)
  obtain u h s' where "run_state (close_broker (pbroker (pool srv))) (nhost nd, s) = (u, (h, s'))" by (metis surj_pair)
  from node_step.main_close [OF S _ this] assms(5) S show ?thesis by fastforce
qed

lemma shutdown_goes_on:
  assumes st: "stopping nd" and open': "main nd \<noteq> Closed"
  shows "\<exists>ev nd' s'. node_step f2i srv (nd, s) ev (nd', s') \<and> main nd' \<noteq> Killed \<and> nd' \<noteq> nd\<lparr>nhost := nhost nd'\<rparr>"
proof -
  have alive: "main nd \<noteq> Killed" using st by (simp add: stopping_def)
  consider (d) "dst nd \<noteq> DStopped" | (s) "sst nd \<noteq> SStopped" | (w) k where "k < length (ws nd)" "ws nd ! k \<noteq> Exited"
    | (m) "dst nd = DStopped" "sst nd = SStopped" "set (ws nd) \<subseteq> {Exited}"
    by (metis in_set_conv_nth insertI1 subsetI)
  then show ?thesis
  proof cases
    case d
    from dispatcher_goes_on [OF st d, of f2i srv s] alive changed_node show ?thesis by metis
  next
    case s
    from scheduler_goes_on [OF st s, of f2i srv] alive changed_node show ?thesis by metis
  next
    case w
    from worker_goes_on [OF st w, of f2i srv s] alive changed_node show ?thesis by metis
  next
    case m
    from main_goes_on [OF st open' m, of f2i srv s] changed_node show ?thesis by metis
  qed
qed

section \<open>Property\<close>

text \<open>
  C16. Graceful shutdown ends: once the context of a server is done, and unless its process is killed, its goroutines
  take at most \<open>9 + 3 * j + 3 * w\<close> steps, where \<open>j\<close> is the number of jobs in its channel and \<open>w\<close> the number of its
  workers, whatever the broker does meanwhile (the ticks of the scheduler that end without an error are not counted).
  And they never get stuck before \<open>Run\<close> has returned: until then, in whatever state the broker is, such a step is possible.
\<close>

theorem shutdown_terminates:
  assumes "(shutdown_step f2i srv ^^ n) nd nd'"
    and "cancelled nd" "main nd \<noteq> Killed" "dst nd \<noteq> DPanicked" "sst nd \<noteq> SPanicked"
  shows "n \<le> 9 + 3 * length (jobCh nd) + 3 * length (ws nd)
    \<and> (main nd' = Closed \<or> (\<forall>s. \<exists>ev nd'' s'. node_step f2i srv (nd', s) ev (nd'', s') \<and> shutdown_step f2i srv nd' nd''))"
proof -
  have "stopping nd" using assms(2-5) by (simp add: stopping_def)
  from shutdown_steps_work [OF assms(1) this] have w: "stopping nd'" "n \<le> work nd" by simp_all
  have "\<exists>ev nd'' s'. node_step f2i srv (nd', s) ev (nd'', s') \<and> shutdown_step f2i srv nd' nd''" if "main nd' \<noteq> Closed" for s
    using shutdown_goes_on [OF w(1) that, of f2i srv s] unfolding shutdown_step_def by blast
  with w(2) work_le [of nd] show ?thesis by auto
qed

theorem shutdown_terminates_witness:
  "\<exists>nd'. (shutdown_step (\<lambda>x. x) one_worker ^^ 1) ((bare_node [Idle] 0)\<lparr>cancelled := True\<rparr>) nd'
    \<and> (1 :: nat) \<le> 9 + 3 * length (jobCh (bare_node [Idle] 0)) + 3 * length (ws (bare_node [Idle] 0))
    \<and> (\<exists>ev nd'' s'. node_step (\<lambda>x. x) one_worker (nd', pg_empty) ev (nd'', s') \<and> shutdown_step (\<lambda>x. x) one_worker nd' nd'')"
proof -
  let ?nd = "(bare_node [Idle] 0)\<lparr>cancelled := True\<rparr>"
  have "node_step (\<lambda>x. x) one_worker (?nd, pg_empty) Tau (?nd\<lparr>ws := (ws ?nd)[0 := Exited]\<rparr>, pg_empty)"
    by (rule node_step.worker_exit) (simp_all add: bare_node_def)
  then have s: "(shutdown_step (\<lambda>x. x) one_worker ^^ 1) ?nd (?nd\<lparr>ws := [Exited]\<rparr>)"
    unfolding shutdown_step_def relpowp_1 by (fastforce simp: bare_node_def)
  from shutdown_terminates [OF s] s show ?thesis by (intro exI [of _ "?nd\<lparr>ws := [Exited]\<rparr>"]) (simp add: bare_node_def)
qed

end
