(* ===== verification/Config_Load.thy ===== *)
theory Config_Load
  imports Prelude
begin

text \<open>
  \<open>config/config.go\<close>: the configuration of the server and the dashboard. The package viper, which
  reads the file and the environment, is not part of the repository: its operations are the
  record \<open>viper\<close>, and what its documentation promises is the locale \<open>viper_docs\<close>.
\<close>

section \<open>Configuration\<close>

record Config =
  cRedisAddr :: string
  cDashboardAddr :: string
  cConcurrency :: int
  cQueues :: "(string \<times> int) list"
  cPollInterval :: duration
  cSchedulerInterval :: duration

definition defaults :: Config where
  "defaults = \<lparr>cRedisAddr = ''localhost:6379'', cDashboardAddr = '':8080'', cConcurrency = 10,
     cQueues = [(''critical'', 3), (''default'', 2), (''low'', 1)],
     cPollInterval = 250 * Millisecond, cSchedulerInterval = 5 * Second\<rparr>"

datatype setting = SStr string | SInt int | SDur duration | SMap "(string \<times> int) list"

record 'v viper =
  New :: 'v
  SetDefault :: "string \<Rightarrow> setting \<Rightarrow> 'v \<Rightarrow> 'v"
  SetEnvPrefix :: "string \<Rightarrow> 'v \<Rightarrow> 'v"
  SetEnvKeyReplacer :: "(string \<times> string) list \<Rightarrow> 'v \<Rightarrow> 'v"
  AutomaticEnv :: "'v \<Rightarrow> 'v"
  SetConfigFile :: "string \<Rightarrow> 'v \<Rightarrow> 'v"
  ReadInConfig :: "'v \<Rightarrow> goerr option \<times> 'v"
  Unmarshal :: "'v \<Rightarrow> goerr + Config"
  IsConfigFileNotFound :: "goerr \<Rightarrow> bool"
  IsErrNotExist :: "goerr \<Rightarrow> bool"

definition with_defaults :: "'v viper \<Rightarrow> 'v \<Rightarrow> 'v" where
  "with_defaults V v =
     (let d = defaults;
          v = SetDefault V ''redis_addr'' (SStr (cRedisAddr d)) v;
          v = SetDefault V ''dashboard_addr'' (SStr (cDashboardAddr d)) v;
          v = SetDefault V ''concurrency'' (SInt (cConcurrency d)) v;
          v = SetDefault V ''queues'' (SMap (cQueues d)) v;
          v = SetDefault V ''poll_interval'' (SDur (cPollInterval d)) v
      in SetDefault V ''scheduler_interval'' (SDur (cSchedulerInterval d)) v)"

definition Load :: "'v viper \<Rightarrow> string \<Rightarrow> goerr + Config" where
  "Load V path =
     (let v = with_defaults V (New V);
          v = SetEnvPrefix V ''sidekiq'' v;
          v = SetEnvKeyReplacer V [(''.'', ''_'')] v;
          v = AutomaticEnv V v;
          r = (if path \<noteq> '''' then
                 (case ReadInConfig V (SetConfigFile V path v) of
                    (None, v') \<Rightarrow> Inr v'
                  | (Some err, v') \<Rightarrow>
                      if \<not> IsConfigFileNotFound V err \<and> \<not> IsErrNotExist V err
                      then Inl (WrapError (''read config '' @ path @ '': '') err)
                      else Inr v')
               else Inr v)
      in case r of
           Inl err \<Rightarrow> Inl err
         | Inr v \<Rightarrow>
             (case Unmarshal V v of
                Inl err \<Rightarrow> Inl (WrapError ''unmarshal config: '' err)
              | Inr cfg \<Rightarrow> Inr cfg))"

section \<open>What viper documents\<close>

text \<open>A value is looked up in the environment, then in the file, then in the defaults. The variable
  of a key is the prefix and the key in upper case; a variable that is empty counts as not set.\<close>

definition ToUpper :: "string \<Rightarrow> string" where
  "ToUpper = map (\<lambda>c. let n = of_char c :: nat in if 97 \<le> n \<and> n \<le> 122 then char_of (n - 32) else c)"

definition lookup :: "(string \<Rightarrow> string) \<Rightarrow> string \<Rightarrow> bool \<Rightarrow> (string \<rightharpoonup> setting) \<Rightarrow> (string \<rightharpoonup> setting) \<Rightarrow> string \<rightharpoonup> setting" where
  "lookup env pre auto file dflt k =
     (let s = env (ToUpper (pre @ ''_'' @ k)) in
      if auto \<and> s \<noteq> '''' then Some (SStr s)
      else case file k of Some x \<Rightarrow> Some x | None \<Rightarrow> dflt k)"

text \<open>The values \<open>Unmarshal\<close> accepts for the types of the fields; texts are parsed.\<close>

fun as_string :: "setting \<Rightarrow> string option" where
  "as_string (SStr s) = Some s" | "as_string _ = None"

fun as_int :: "(string \<Rightarrow> int option) \<Rightarrow> setting \<Rightarrow> int option" where
  "as_int parse (SInt n) = Some n" | "as_int parse (SStr s) = parse s" | "as_int parse _ = None"

fun as_duration :: "(string \<Rightarrow> duration option) \<Rightarrow> setting \<Rightarrow> duration option" where
  "as_duration parse (SDur d) = Some d" | "as_duration parse (SStr s) = parse s" | "as_duration parse _ = None"

fun as_map :: "setting \<Rightarrow> (string \<times> int) list option" where
  "as_map (SMap m) = Some m" | "as_map _ = None"

definition decoded :: "(string \<Rightarrow> int option) \<Rightarrow> (string \<Rightarrow> duration option) \<Rightarrow> (string \<rightharpoonup> setting) \<Rightarrow> Config option" where
  "decoded pint pdur get = do {
     a \<leftarrow> Option.bind (get ''redis_addr'') as_string;
     d \<leftarrow> Option.bind (get ''dashboard_addr'') as_string;
     c \<leftarrow> Option.bind (get ''concurrency'') (as_int pint);
     q \<leftarrow> Option.bind (get ''queues'') as_map;
     p \<leftarrow> Option.bind (get ''poll_interval'') (as_duration pdur);
     s \<leftarrow> Option.bind (get ''scheduler_interval'') (as_duration pdur);
     Some \<lparr>cRedisAddr = a, cDashboardAddr = d, cConcurrency = c, cQueues = q, cPollInterval = p, cSchedulerInterval = s\<rparr> }"

definition default_settings :: "string \<rightharpoonup> setting" where
  "default_settings = [''redis_addr'' \<mapsto> SStr ''localhost:6379'', ''dashboard_addr'' \<mapsto> SStr '':8080'', ''concurrency'' \<mapsto> SInt 10,
     ''queues'' \<mapsto> SMap [(''critical'', 3), (''default'', 2), (''low'', 1)], ''poll_interval'' \<mapsto> SDur (250 * Millisecond),
     ''scheduler_interval'' \<mapsto> SDur (5 * Second)]"

locale viper_docs =
  fixes V :: "'v viper" and env :: "string \<Rightarrow> string" and contents :: "string \<Rightarrow> goerr + (string \<rightharpoonup> setting)"
    and pint :: "string \<Rightarrow> int option" and pdur :: "string \<Rightarrow> duration option"
    and dflt conf :: "'v \<Rightarrow> string \<rightharpoonup> setting" and prefix_of path_of :: "'v \<Rightarrow> string" and auto_of :: "'v \<Rightarrow> bool"
  assumes New_law: "dflt (New V) = Map.empty" "conf (New V) = Map.empty"
    and SetDefault_law: "dflt (SetDefault V k x v) = (dflt v)(k \<mapsto> x)" "conf (SetDefault V k x v) = conf v"
    and SetEnvPrefix_law: "prefix_of (SetEnvPrefix V p v) = p" "dflt (SetEnvPrefix V p v) = dflt v" "conf (SetEnvPrefix V p v) = conf v"
    and SetEnvKeyReplacer_law: "prefix_of (SetEnvKeyReplacer V rs v) = prefix_of v" "dflt (SetEnvKeyReplacer V rs v) = dflt v"
      "conf (SetEnvKeyReplacer V rs v) = conf v"
    and AutomaticEnv_law: "auto_of (AutomaticEnv V v)" "prefix_of (AutomaticEnv V v) = prefix_of v"
      "dflt (AutomaticEnv V v) = dflt v" "conf (AutomaticEnv V v) = conf v"
    and SetConfigFile_law: "path_of (SetConfigFile V p v) = p" "auto_of (SetConfigFile V p v) = auto_of v"
      "prefix_of (SetConfigFile V p v) = prefix_of v" "dflt (SetConfigFile V p v) = dflt v" "conf (SetConfigFile V p v) = conf v"
    and ReadInConfig_law: "ReadInConfig V v = (r, v') \<Longrightarrow> auto_of v' = auto_of v \<and> prefix_of v' = prefix_of v \<and> dflt v' = dflt v
      \<and> (case contents (path_of v) of Inl e \<Rightarrow> r = Some e \<and> conf v' = conf v | Inr m \<Rightarrow> r = None \<and> conf v' = m)"
    and Unmarshal_law: "decoded pint pdur (lookup env (prefix_of v) (auto_of v) (conf v) (dflt v)) = Some cfg \<Longrightarrow> Unmarshal V v = Inr cfg"
begin

lemmas viper_laws = New_law SetDefault_law SetEnvPrefix_law SetEnvKeyReplacer_law AutomaticEnv_law SetConfigFile_law

text \<open>The instance before the file is read, and what the file contributes.\<close>

definition prepared :: 'v where
  "prepared = AutomaticEnv V (SetEnvKeyReplacer V [(''.'', ''_'')] (SetEnvPrefix V ''sidekiq'' (with_defaults V (New V))))"

lemma prepared_obs:
  "dflt prepared = default_settings" "conf prepared = Map.empty" "prefix_of prepared = ''sidekiq''" "auto_of prepared"
  by (simp_all add: prepared_def with_defaults_def Let_def viper_laws defaults_def default_settings_def)

lemma Load_prepared:
  "Load V path =
     (case (if path \<noteq> '''' then
              (case ReadInConfig V (SetConfigFile V path prepared) of
                 (None, v') \<Rightarrow> Inr v'
               | (Some err, v') \<Rightarrow> if \<not> IsConfigFileNotFound V err \<and> \<not> IsErrNotExist V err
                   then Inl (WrapError (''read config '' @ path @ '': '') err) else Inr v')
            else Inr prepared) of
        Inl err \<Rightarrow> Inl err
      | Inr v \<Rightarrow> (case Unmarshal V v of Inl err \<Rightarrow> Inl (WrapError ''unmarshal config: '' err) | Inr cfg \<Rightarrow> Inr cfg))"
  by (simp only: Load_def prepared_def Let_def)

lemma Load_unreadable:
  assumes "path \<noteq> ''''" "contents path = Inl e" "\<not> IsConfigFileNotFound V e" "\<not> IsErrNotExist V e"
  shows "Load V path = Inl (WrapError (''read config '' @ path @ '': '') e)"
proof -
  obtain r v' where r: "ReadInConfig V (SetConfigFile V path prepared) = (r, v')" by (rule prod.exhaust)
  from ReadInConfig_law [OF r] assms show ?thesis by (simp add: Load_prepared r viper_laws)
qed

lemma Load_settings:
  assumes "path = '''' \<and> m = Map.empty \<or> path \<noteq> '''' \<and> (contents path = Inr m
      \<or> (\<exists>e. contents path = Inl e \<and> (IsConfigFileNotFound V e \<or> IsErrNotExist V e) \<and> m = Map.empty))"
    and "decoded pint pdur (lookup env ''sidekiq'' True m default_settings) = Some cfg"
  shows "Load V path = Inr cfg"
proof (cases "path = ''''")
  case True
  with assms have "Unmarshal V prepared = Inr cfg" by (intro Unmarshal_law) (simp add: prepared_obs)
  with True show ?thesis by (simp add: Load_prepared)
next
  case False
  obtain r v' where r: "ReadInConfig V (SetConfigFile V path prepared) = (r, v')" by (rule prod.exhaust)
  note law = ReadInConfig_law [OF r, unfolded viper_laws prepared_obs]
  have "conf v' = m" using law assms(1) False by auto
  with law assms(2) have "Unmarshal V v' = Inr cfg" by (intro Unmarshal_law) (simp add: prepared_obs(4))
  with r law assms(1) False show ?thesis by (auto simp: Load_prepared)
qed

end

section \<open>An instance of viper\<close>

record vstate =
  vdflt :: "string \<rightharpoonup> setting"
  vfile :: "string \<rightharpoonup> setting"
  vprefix :: string
  vpath :: string
  vauto :: bool

definition simple_viper ::
  "(string \<Rightarrow> string) \<Rightarrow> (string \<Rightarrow> goerr + (string \<rightharpoonup> setting)) \<Rightarrow> (string \<Rightarrow> int option) \<Rightarrow> (string \<Rightarrow> duration option) \<Rightarrow> vstate viper" where
  "simple_viper env contents pint pdur = \<lparr>
     New = \<lparr>vdflt = Map.empty, vfile = Map.empty, vprefix = '''', vpath = '''', vauto = False\<rparr>,
     SetDefault = (\<lambda>k x v. v\<lparr>vdflt := (vdflt v)(k \<mapsto> x)\<rparr>),
     SetEnvPrefix = (\<lambda>p v. v\<lparr>vprefix := p\<rparr>),
     SetEnvKeyReplacer = (\<lambda>rs v. v),
     AutomaticEnv = (\<lambda>v. v\<lparr>vauto := True\<rparr>),
     SetConfigFile = (\<lambda>p v. v\<lparr>vpath := p\<rparr>),
     ReadInConfig = (\<lambda>v. case contents (vpath v) of Inl e \<Rightarrow> (Some e, v) | Inr m \<Rightarrow> (None, v\<lparr>vfile := m\<rparr>)),
     Unmarshal = (\<lambda>v. case decoded pint pdur (lookup env (vprefix v) (vauto v) (vfile v) (vdflt v)) of
         None \<Rightarrow> Inl (ErrorString ''decoding failed'') | Some cfg \<Rightarrow> Inr cfg),
     IsConfigFileNotFound = (\<lambda>e. False),
     IsErrNotExist = (\<lambda>e. e = ErrorString ''no such file'')\<rparr>"

interpretation simple: viper_docs "simple_viper env contents pint pdur" env contents pint pdur vdflt vfile vprefix vpath vauto
  for env contents pint pdur
  by unfold_locales (auto simp: simple_viper_def split: sum.splits)

section \<open>Properties\<close>

text \<open>
  C38. Loading the configuration: a field has the value of its environment variable if that is set, else
  the value in the file, else its default; this is so also when no file is named or the named one does not
  exist, which is not an error. Any other failure to read the file is reported with the path.
\<close>

theorem config_precedence:
  assumes "viper_docs V env contents pint pdur dflt conf prefix_of path_of auto_of"
    and "m = (case contents path of Inr m \<Rightarrow> if path = '''' then Map.empty else m | Inl e \<Rightarrow> Map.empty)"
    and "decoded pint pdur (\<lambda>k.
        if env (''SIDEKIQ_'' @ ToUpper k) \<noteq> '''' then Some (SStr (env (''SIDEKIQ_'' @ ToUpper k)))
        else case m k of Some x \<Rightarrow> Some x | None \<Rightarrow> default_settings k) = Some cfg"
  shows "Load V path = (case contents path of
      Inl e \<Rightarrow> if path \<noteq> '''' \<and> \<not> IsConfigFileNotFound V e \<and> \<not> IsErrNotExist V e
        then Inl (WrapError (''read config '' @ path @ '': '') e) else Inr cfg
    | Inr _ \<Rightarrow> Inr cfg)"
proof -
  have up: "ToUpper (''sidekiq'' @ ''_'' @ k) = ''SIDEKIQ_'' @ ToUpper k" for k by (simp add: ToUpper_def char_of_def bit_0)
  have "lookup env ''sidekiq'' True m default_settings = (\<lambda>k.
      if env (''SIDEKIQ_'' @ ToUpper k) \<noteq> '''' then Some (SStr (env (''SIDEKIQ_'' @ ToUpper k)))
      else case m k of Some x \<Rightarrow> Some x | None \<Rightarrow> default_settings k)"
    unfolding lookup_def up Let_def by simp
  with assms(3) have d: "decoded pint pdur (lookup env ''sidekiq'' True m default_settings) = Some cfg" by simp
  show ?thesis
    using viper_docs.Load_settings [OF assms(1) _ d, of path] viper_docs.Load_unreadable [OF assms(1), of path] assms(2)
    by (cases "contents path"; cases "path = ''''") auto
qed

theorem config_precedence_witness:
  "\<exists>cfg. Load (simple_viper (\<lambda>k. if k = ''SIDEKIQ_REDIS_ADDR'' then ''redis:1'' else '''')
        (\<lambda>p. Inr [''redis_addr'' \<mapsto> SStr ''other:1'', ''concurrency'' \<mapsto> SInt 4]) (\<lambda>_. None) (\<lambda>_. None)) ''conf.yaml'' = Inr cfg
    \<and> cRedisAddr cfg = ''redis:1'' \<and> cConcurrency cfg = 4 \<and> cDashboardAddr cfg = '':8080''"
proof -
  let ?env = "\<lambda>k. if k = ''SIDEKIQ_REDIS_ADDR'' then ''redis:1'' else ''''"
    and ?m = "[''redis_addr'' \<mapsto> SStr ''other:1'', ''concurrency'' \<mapsto> SInt 4]"
  let ?cfg = "defaults\<lparr>cRedisAddr := ''redis:1'', cConcurrency := 4\<rparr>"
  have "Load (simple_viper ?env (\<lambda>p. Inr ?m) (\<lambda>_. None) (\<lambda>_. None)) ''conf.yaml'' = Inr ?cfg"
    by (subst config_precedence [OF simple.viper_docs_axioms refl, where cfg = ?cfg])
      (simp_all add: decoded_def default_settings_def defaults_def ToUpper_def char_of_def bit_0 Let_def)
  then show ?thesis by (simp add: defaults_def)
qed

end
