(* ===== verification/Dashboard.thy ===== *)
theory Dashboard
  imports Broker
begin

text \<open>
  \<open>internal/dashboard\<close>: the HTTP API that inspects queues and jobs. A handler is a state transformer of the
  broker that returns the response it writes. What is not in the repository's Go code is the argument
  \<open>W\<close>: the JSON encoder (which may fail), the embedded page, and the Prometheus handler.
  The request multiplexer of \<open>net/http\<close> is modelled as far as the routes use it: method and
  path patterns with wildcards, of which the most specific one that matches is taken.
\<close>

section \<open>Requests and responses\<close>

text \<open>The path as its unescaped segments: \<open>/a/b\<close> is \<open>[a, b]\<close>, \<open>/a/\<close> is \<open>[a, []]\<close>.\<close>

record Request =
  Method :: string
  Path :: "string list"
  Query :: "(string \<times> string) list"

record Response =
  Code :: int
  Headers :: "(string \<times> string) list"
  Body :: string

definition StatusOK :: int where "StatusOK = 200"
definition StatusNoContent :: int where "StatusNoContent = 204"
definition StatusBadRequest :: int where "StatusBadRequest = 400"
definition StatusNotFound :: int where "StatusNotFound = 404"
definition StatusMethodNotAllowed :: int where "StatusMethodNotAllowed = 405"
definition StatusInternalServerError :: int where "StatusInternalServerError = 500"

lemmas status_defs = StatusOK_def StatusNoContent_def StatusBadRequest_def StatusNotFound_def
  StatusMethodNotAllowed_def StatusInternalServerError_def

text \<open>The values the handlers encode.\<close>

datatype goval = StatsVal "string \<rightharpoonup> QueueStats" | JobsVal "Job list" | JobVal Job | MapVal "(string \<times> string) list"

record site =
  jsonEncode :: "goval \<Rightarrow> goerr + string"
  uiFile :: "goerr + string"
  promHandler :: "Request \<Rightarrow> Response"

definition Query_Get :: "Request \<Rightarrow> string \<Rightarrow> string" where
  "Query_Get req k = (case map_of (Query req) k of None \<Rightarrow> '''' | Some v \<Rightarrow> v)"

text \<open>\<open>strconv.Atoi\<close>: an optional sign and decimal digits, within the range of \<open>int\<close>.\<close>

definition digit :: "char \<Rightarrow> nat option" where
  "digit c = (let n = of_char c :: nat in if 48 \<le> n \<and> n \<le> 57 then Some (n - 48) else None)"

fun digits :: "nat \<Rightarrow> string \<Rightarrow> nat option" where
  "digits acc [] = Some acc"
| "digits acc (c # cs) = (case digit c of None \<Rightarrow> None | Some d \<Rightarrow> digits (10 * acc + d) cs)"

definition in_int64 :: "int \<Rightarrow> bool" where
  "in_int64 n \<longleftrightarrow> - (2 ^ 63) \<le> n \<and> n < 2 ^ 63"

definition Atoi :: "string \<Rightarrow> int option" where
  "Atoi s =
     (let (sign, ds) = (case s of
            [] \<Rightarrow> (1, [])
          | c # cs \<Rightarrow> if c = CHR ''-'' then (-1, cs) else if c = CHR ''+'' then (1, cs) else (1, s))
      in if ds = [] then None
         else case digits 0 ds of
           None \<Rightarrow> None
         | Some n \<Rightarrow> if in_int64 (sign * int n) then Some (sign * int n) else None)"

section \<open>Handlers\<close>

text \<open>When the encoder fails, the status has been sent and the body stays empty.\<close>

definition writeJSON :: "site \<Rightarrow> int \<Rightarrow> goval \<Rightarrow> Response" where
  "writeJSON W status v = \<lparr>Code = status, Headers = [(''Content-Type'', ''application/json'')],
     Body = (case jsonEncode W v of Inl _ \<Rightarrow> '''' | Inr s \<Rightarrow> s @ [CHR 0x0A])\<rparr>"

definition writeError :: "site \<Rightarrow> int \<Rightarrow> string \<Rightarrow> Response" where
  "writeError W status msg = writeJSON W status (MapVal [(''error'', msg)])"

definition handleGetQueues :: "site \<Rightarrow> 's broker \<Rightarrow> ('s, Response) state" where
  "handleGetQueues W b = do {
     r \<leftarrow> GetQueueStats b;
     State_Monad.return (case r of
         Inl err \<Rightarrow> writeError W StatusInternalServerError (Error err)
       | Inr stats \<Rightarrow> writeJSON W StatusOK (StatsVal stats)) }"

definition list_limit :: "Request \<Rightarrow> int" where
  "list_limit req =
     (let raw = Query_Get req ''limit'' in
      if raw \<noteq> '''' then
        (case Atoi raw of None \<Rightarrow> 50 | Some n \<Rightarrow> if 0 < n then n else 50)
      else 50)"

definition list_status :: "Request \<Rightarrow> JobStatus" where
  "list_status req = (let status = Query_Get req ''status'' in if status = '''' then StatusPending else status)"

definition handleListJobs :: "site \<Rightarrow> 's broker \<Rightarrow> Request \<Rightarrow> ('s, Response) state" where
  "handleListJobs W b req = do {
     r \<leftarrow> GetJobsByStatus b (list_status req) (list_limit req);
     State_Monad.return (case r of
         (jobs, Some err) \<Rightarrow> writeError W StatusInternalServerError (Error err)
       | (jobs, None) \<Rightarrow> writeJSON W StatusOK (JobsVal (case jobs of None \<Rightarrow> [] | Some js \<Rightarrow> js))) }"

definition handleGetJob :: "site \<Rightarrow> 's broker \<Rightarrow> string \<Rightarrow> ('s, Response) state" where
  "handleGetJob W b i = do {
     r \<leftarrow> GetJob b i;
     State_Monad.return (case r of
         Inl err \<Rightarrow> writeError W StatusInternalServerError (Error err)
       | Inr None \<Rightarrow> writeError W StatusNotFound ''job not found''
       | Inr (Some job) \<Rightarrow> writeJSON W StatusOK (JobVal job)) }"

definition handleRetryJob :: "site \<Rightarrow> 's broker \<Rightarrow> string \<Rightarrow> ('s, Response) state" where
  "handleRetryJob W b i = do {
     r \<leftarrow> RetryDeadJob b i;
     State_Monad.return (case r of
         Inl err \<Rightarrow> writeError W StatusBadRequest (Error err)
       | Inr _ \<Rightarrow> writeJSON W StatusOK (MapVal [(''status'', ''retried'')])) }"

definition handleDeleteJob :: "site \<Rightarrow> 's broker \<Rightarrow> string \<Rightarrow> ('s, Response) state" where
  "handleDeleteJob W b i = do {
     r \<leftarrow> DeleteJob b i;
     State_Monad.return (case r of
         Inl err \<Rightarrow> writeError W StatusInternalServerError (Error err)
       | Inr _ \<Rightarrow> \<lparr>Code = StatusNoContent, Headers = [], Body = ''''\<rparr>) }"

definition handleIndex :: "site \<Rightarrow> Response" where
  "handleIndex W = (case uiFile W of
       Inl err \<Rightarrow> writeError W StatusInternalServerError (Error err)
     | Inr data \<Rightarrow> \<lparr>Code = StatusOK, Headers = [(''Content-Type'', ''text/html; charset=utf-8'')], Body = data\<rparr>)"

section \<open>Routes\<close>

datatype segp = Lit string | Wild string

text \<open>A pattern: its method, its segments, and whether it ends in a slash and so covers every path below.\<close>

record pattern =
  pmethod :: string
  psegs :: "segp list"
  psubtree :: bool

fun match_path :: "segp list \<Rightarrow> bool \<Rightarrow> string list \<Rightarrow> (string \<times> string) list option" where
  "match_path [] sub path = (if path = [] \<or> sub then Some [] else None)"
| "match_path (p # ps) sub [] = None"
| "match_path (Lit l # ps) sub (s # path) = (if s = l then match_path ps sub path else None)"
| "match_path (Wild n # ps) sub (s # path) =
     (if s = '''' then None else map_option ((#) (n, s)) (match_path ps sub path))"

definition match_pattern :: "pattern \<Rightarrow> string list \<Rightarrow> (string \<times> string) list option" where
  "match_pattern p path = match_path (psegs p) (psubtree p) path"

definition method_matches :: "pattern \<Rightarrow> string \<Rightarrow> bool" where
  "method_matches p m \<longleftrightarrow> pmethod p = m \<or> pmethod p = ''GET'' \<and> m = ''HEAD''"

text \<open>Literal segments are more specific than wildcards, and these than everything below a slash.\<close>

definition rank :: "pattern \<Rightarrow> nat list" where
  "rank p = map (\<lambda>s. case s of Lit _ \<Rightarrow> 0 | Wild _ \<Rightarrow> 1) (psegs p) @ (if psubtree p then [2] else [])"

type_synonym 's mux = "(pattern \<times> (Request \<Rightarrow> (string \<times> string) list \<Rightarrow> ('s, Response) state)) list"

text \<open>\<open>ServeMux.ServeHTTP\<close>, for a path that is in its canonical form.\<close>

definition http_error :: "int \<Rightarrow> (string \<times> string) list \<Rightarrow> string \<Rightarrow> Response" where
  "http_error code hs msg = \<lparr>Code = code, Headers = hs @ [(''Content-Type'', ''text/plain; charset=utf-8'')],
     Body = msg @ [CHR 0x0A]\<rparr>"

fun join :: "string list \<Rightarrow> string" where
  "join [] = ''''"
| "join [x] = x"
| "join (x # y # xs) = x @ '', '' @ join (y # xs)"

definition allowed_methods :: "'s mux \<Rightarrow> string list \<Rightarrow> string list" where
  "allowed_methods mux path =
     (let ms = map (pmethod \<circ> fst) (filter (\<lambda>r. match_pattern (fst r) path \<noteq> None) mux)
      in sort (remdups (if ''GET'' \<in> set ms then ''HEAD'' # ms else ms)))"

definition mux_ServeHTTP :: "'s mux \<Rightarrow> Request \<Rightarrow> ('s, Response) state" where
  "mux_ServeHTTP mux req =
     (case sort_key (rank \<circ> fst)
        (filter (\<lambda>r. method_matches (fst r) (Method req) \<and> match_pattern (fst r) (Path req) \<noteq> None) mux) of
        (p, h) # _ \<Rightarrow> h req (the (match_pattern p (Path req)))
      | [] \<Rightarrow> State_Monad.return
          (if allowed_methods mux (Path req) = [] then http_error StatusNotFound [] ''404 page not found''
           else http_error StatusMethodNotAllowed [(''Allow'', join (allowed_methods mux (Path req)))] ''Method Not Allowed''))"

definition PathValue :: "(string \<times> string) list \<Rightarrow> string \<Rightarrow> string" where
  "PathValue vs n = (case map_of vs n of None \<Rightarrow> '''' | Some v \<Rightarrow> v)"

definition route :: "string \<Rightarrow> segp list \<Rightarrow> bool \<Rightarrow> pattern" where
  "route m ps sub = \<lparr>pmethod = m, psegs = ps, psubtree = sub\<rparr>"

record 's DashServer =
  dash_broker :: "'s broker"
  dash_mux :: "'s mux"

definition routes :: "site \<Rightarrow> 's broker \<Rightarrow> 's mux" where
  "routes W b =
    [(route ''GET'' [Lit ''api'', Lit ''v1'', Lit ''queues''] False, \<lambda>req vs. handleGetQueues W b),
     (route ''GET'' [Lit ''api'', Lit ''v1'', Lit ''jobs''] False, \<lambda>req vs. handleListJobs W b req),
     (route ''GET'' [Lit ''api'', Lit ''v1'', Lit ''jobs'', Wild ''id''] False, \<lambda>req vs. handleGetJob W b (PathValue vs ''id'')),
     (route ''POST'' [Lit ''api'', Lit ''v1'', Lit ''jobs'', Wild ''id'', Lit ''retry''] False,
        \<lambda>req vs. handleRetryJob W b (PathValue vs ''id'')),
     (route ''DELETE'' [Lit ''api'', Lit ''v1'', Lit ''jobs'', Wild ''id''] False, \<lambda>req vs. handleDeleteJob W b (PathValue vs ''id'')),
     (route ''GET'' [Lit ''api'', Lit ''v1'', Lit ''metrics''] False, \<lambda>req vs. State_Monad.return (promHandler W req)),
     (route ''GET'' [] True, \<lambda>req vs. State_Monad.return (handleIndex W))]"

definition NewDashServer :: "site \<Rightarrow> 's broker \<Rightarrow> 's DashServer" where
  "NewDashServer W b = \<lparr>dash_broker = b, dash_mux = routes W b\<rparr>"

definition ServeHTTP :: "'s DashServer \<Rightarrow> Request \<Rightarrow> ('s, Response) state" where
  "ServeHTTP s req = mux_ServeHTTP (dash_mux s) req"

section \<open>Which request reaches which handler\<close>

datatype endpoint = EQueues | EList | EJob string | ERetry string | EDelete string | EMetrics | EIndex

text \<open>The path of a job, and the path of its retry action.\<close>

definition job_path :: "string list \<Rightarrow> string option" where
  "job_path path = (case path of [a, v, j, i] \<Rightarrow>
       if a = ''api'' \<and> v = ''v1'' \<and> j = ''jobs'' \<and> i \<noteq> '''' then Some i else None | _ \<Rightarrow> None)"

definition retry_path :: "string list \<Rightarrow> string option" where
  "retry_path path = (case path of [a, v, j, i, r] \<Rightarrow>
       if a = ''api'' \<and> v = ''v1'' \<and> j = ''jobs'' \<and> i \<noteq> '''' \<and> r = ''retry'' then Some i else None | _ \<Rightarrow> None)"

definition endpoint :: "string \<Rightarrow> string list \<Rightarrow> endpoint option" where
  "endpoint m path =
     (if m = ''GET'' \<or> m = ''HEAD'' then
        Some (if path = [''api'', ''v1'', ''queues''] then EQueues
          else if path = [''api'', ''v1'', ''jobs''] then EList
          else if path = [''api'', ''v1'', ''metrics''] then EMetrics
          else case job_path path of Some i \<Rightarrow> EJob i | None \<Rightarrow> EIndex)
      else if m = ''POST'' then map_option ERetry (retry_path path)
      else if m = ''DELETE'' then map_option EDelete (job_path path)
      else None)"

fun serve :: "site \<Rightarrow> 's broker \<Rightarrow> Request \<Rightarrow> endpoint \<Rightarrow> ('s, Response) state" where
  "serve W b req EQueues = handleGetQueues W b"
| "serve W b req EList = handleListJobs W b req"
| "serve W b req (EJob i) = handleGetJob W b i"
| "serve W b req (ERetry i) = handleRetryJob W b i"
| "serve W b req (EDelete i) = handleDeleteJob W b i"
| "serve W b req EMetrics = State_Monad.return (promHandler W req)"
| "serve W b req EIndex = State_Monad.return (handleIndex W)"

lemma match_literals: "match_path (map Lit ls) False path = (if path = ls then Some [] else None)"
  by (induction ls arbitrary: path) (auto, metis (full_types) list.exhaust match_path.simps(2,3))

lemma match_fixed:
  "match_path [Lit a, Lit b, Lit c] False path = (if path = [a, b, c] then Some [] else None)"
  using match_literals [of "[a, b, c]"] by simp

lemma match_job:
  "match_path [Lit ''api'', Lit ''v1'', Lit ''jobs'', Wild n] False path = map_option (\<lambda>i. [(n, i)]) (job_path path)"
  by (auto simp: job_path_def split: list.split)

lemma match_retry:
  "match_path [Lit ''api'', Lit ''v1'', Lit ''jobs'', Wild n, Lit ''retry''] False path = map_option (\<lambda>i. [(n, i)]) (retry_path path)"
  by (auto simp: retry_path_def split: list.split)

lemmas match_routes = match_fixed match_job match_retry

lemma job_path_fixed [simp]: "job_path [a, b, c] = None"
  by (simp add: job_path_def)

lemma route_sel [simp]:
  "method_matches (route m ps sub) m' \<longleftrightarrow> m = m' \<or> m = ''GET'' \<and> m' = ''HEAD''"
  "match_pattern (route m ps sub) path = match_path ps sub path" "pmethod (route m ps sub) = m"
  "rank (route m ps sub) = map (\<lambda>s. case s of Lit _ \<Rightarrow> 0 | Wild _ \<Rightarrow> 1) ps @ (if sub then [2] else [])"
  by (simp_all add: route_def method_matches_def match_pattern_def rank_def)

lemma PathValue_one [simp]: "PathValue [(n, i)] n = i"
  by (simp add: PathValue_def)

lemma get_allowed: "''GET'' \<in> set (allowed_methods (routes W b) path)"
  by (simp add: allowed_methods_def routes_def Let_def)

lemma job_path_SomeD: "job_path p = Some i \<Longrightarrow> p = [''api'', ''v1'', ''jobs'', i] \<and> i \<noteq> []"
  by (auto simp: job_path_def split: list.splits if_splits)

lemma serve_get:
  assumes "m = ''GET'' \<or> m = ''HEAD''" "Method req = m"
  shows "ServeHTTP (NewDashServer W b) req = (case endpoint m (Path req) of Some e \<Rightarrow> serve W b req e)"
proof -
  have get: "''POST'' \<noteq> m" "''DELETE'' \<noteq> m" "''GET'' = m \<or> m = ''HEAD''" using assms by auto
  let ?r = "routes W b" and ?p = "Path req"
  have found: "filter (\<lambda>r. method_matches (fst r) (Method req) \<and> match_pattern (fst r) ?p \<noteq> None) ?r =
    (if ?p = [''api'', ''v1'', ''queues''] then [?r ! 0] else []) @ (if ?p = [''api'', ''v1'', ''jobs''] then [?r ! 1] else [])
      @ (if job_path ?p \<noteq> None then [?r ! 2] else []) @ (if ?p = [''api'', ''v1'', ''metrics''] then [?r ! 5] else []) @ [?r ! 6]"
    unfolding assms(2) using get by (simp add: routes_def match_routes)
  show ?thesis
  proof (cases "job_path ?p")
    case None
    then show ?thesis using assms(1)
      unfolding ServeHTTP_def NewDashServer_def mux_ServeHTTP_def DashServer.simps found
      by (simp add: routes_def match_routes endpoint_def)
  next
    case (Some i)
    then show ?thesis using assms(1) job_path_SomeD [OF Some]
      unfolding ServeHTTP_def NewDashServer_def mux_ServeHTTP_def DashServer.simps found
      by (simp add: routes_def match_routes endpoint_def)
  qed
qed

lemma ServeHTTP_routes:
  "ServeHTTP (NewDashServer W b) req = (case endpoint (Method req) (Path req) of
     Some e \<Rightarrow> serve W b req e
   | None \<Rightarrow> State_Monad.return (http_error StatusMethodNotAllowed
       [(''Allow'', join (allowed_methods (routes W b) (Path req)))] ''Method Not Allowed''))"
proof (cases "Method req = ''GET'' \<or> Method req = ''HEAD''")
  case True
  from serve_get [OF this refl, of W b] show ?thesis using True by (simp add: endpoint_def)
next
  case False
  have "allowed_methods (routes W b) (Path req) \<noteq> []" using get_allowed by (metis empty_iff list.set(1))
  moreover have get: "''GET'' \<noteq> Method req" using False by metis
  ultimately have ne: "allowed_methods (routes W b) (Path req) = [] \<longleftrightarrow> False" by simp
  have "sort_key (rank \<circ> fst) (filter (\<lambda>r. method_matches (fst r) (Method req) \<and> match_pattern (fst r) (Path req) \<noteq> None) (routes W b)) =
    (if Method req = ''POST'' \<and> retry_path (Path req) \<noteq> None then [routes W b ! 3]
     else if Method req = ''DELETE'' \<and> job_path (Path req) \<noteq> None then [routes W b ! 4] else [])"
    using False get by (simp add: routes_def match_routes)
  with False show ?thesis unfolding ServeHTTP_def NewDashServer_def mux_ServeHTTP_def DashServer.simps ne
    by (auto simp: endpoint_def match_routes routes_def)
qed


section \<open>Limits and statuses\<close>

fun decimal :: "nat \<Rightarrow> string" where
  "decimal n = (if n < 10 then [char_of (48 + n)] else decimal (n div 10) @ [char_of (48 + n mod 10)])"

declare decimal.simps [simp del]

lemma digit_char: "d < 10 \<Longrightarrow> digit (char_of (48 + d)) = Some d"
  by (simp add: digit_def Let_def)

lemma digits_snoc: "digits a (xs @ [c]) = (case digits a xs of None \<Rightarrow> None | Some n \<Rightarrow> map_option ((+) (10 * n)) (digit c))"
  by (induction xs arbitrary: a) (auto split: option.splits)

lemma digits_decimal: "digits 0 (decimal n) = Some n"
proof (induction n rule: decimal.induct)
  case (1 n)
  show ?case
  proof (cases "n < 10")
    case True
    then show ?thesis by (subst decimal.simps) (simp add: digit_char)
  next
    case False
    then show ?thesis using 1 by (subst decimal.simps) (simp add: digits_snoc digit_char)
  qed
qed

lemma decimal_first:
  obtains c cs where "decimal n = c # cs" "digit c \<noteq> None"
proof -
  have "decimal n \<noteq> []" by (subst decimal.simps) simp
  then obtain c cs where c: "decimal n = c # cs" by (cases "decimal n") auto
  with digits_decimal [of n] have "digit c \<noteq> None" by (auto split: option.splits)
  with c show thesis by (rule that)
qed

lemma Atoi_decimal: "int n < 2 ^ 63 \<Longrightarrow> Atoi (decimal n) = Some (int n)"
proof -
  assume n: "int n < 2 ^ 63"
  obtain c cs where c: "decimal n = c # cs" "digit c \<noteq> None" by (rule decimal_first)
  then have "c \<noteq> CHR ''-''" "c \<noteq> CHR ''+''" by (auto simp: digit_def Let_def)
  then have "Atoi (decimal n) = (case digits 0 (decimal n) of None \<Rightarrow> None | Some k \<Rightarrow> if in_int64 (int k) then Some (int k) else None)"
    by (simp add: Atoi_def c(1) cong: option.case_cong if_cong)
  with n show ?thesis by (simp add: digits_decimal in_int64_def)
qed

lemma list_limit_positive: "0 < list_limit req"
  by (simp add: list_limit_def Let_def split: option.split)

lemma list_limit_decimal:
  assumes "Query_Get req ''limit'' = decimal n" "0 < n" "int n < 2 ^ 63"
  shows "list_limit req = int n"
proof -
  have "decimal n \<noteq> []" by (rule decimal_first [of n]) simp
  with assms show ?thesis by (simp add: list_limit_def Atoi_decimal)
qed

end
