(* ===== verification/Commands.thy ===== *)
theory Commands
  imports Server_Properties Worker_Properties Config_Load Dashboard Redis_Queues
begin

text \<open>
  The programs \<open>cmd/server\<close>, up to the point where its server runs, and \<open>cmd/enqueue\<close>. Arguments are what comes from outside: the
  parsed flags, viper, the JSON package, the identifiers drawn, and the constructor of a broker for an address.
\<close>

section \<open>cmd/server\<close>

definition itoa :: "int \<Rightarrow> string" where
  "itoa n = (if n < 0 then CHR ''-'' # decimal (nat (- n)) else decimal (nat n))"

definition time_Sleep :: "duration \<Rightarrow> ('u host, unit) state" where
  "time_Sleep d = State (\<lambda>h. ((), h\<lparr>clock := clock h + max 0 d\<rparr>))"

definition sendEmailHandler :: "'u Handler" where
  "sendEmailHandler ctx job = do {
     _ \<leftarrow> slog ''INFO'' ''sending email'' [(''job_id'', VStr (ID job)), (''payload'', VStr (Payload job))];
     _ \<leftarrow> time_Sleep (200 * Millisecond);
     State_Monad.return (Returned None, job) }"

definition failingJobHandler :: "'u Handler" where
  "failingJobHandler ctx job = do {
     _ \<leftarrow> slog ''INFO'' ''failing job on purpose'' [(''job_id'', VStr (ID job)), (''attempt'', VInt (wrap64 (Attempts job + 1)))];
     State_Monad.return
       (Returned (Some (ErrorString (''simulated failure (attempt '' @ itoa (wrap64 (Attempts job + 1)) @ '')''))), job) }"

text \<open>A program ends with a code, panics, or starts its server.\<close>

datatype 'a program = Exits int | Panics | Starts 'a

definition server_main ::
  "'v viper \<Rightarrow> (string \<Rightarrow> 's broker) \<Rightarrow> string \<Rightarrow> ('s, 'u) Server program" where
  "server_main V NewRedisBroker configPath =
     (case Load V configPath of
        Inl err \<Rightarrow> Exits 1
      | Inr cfg \<Rightarrow>
          (case NewServer \<lparr>Concurrency = cConcurrency cfg, Queues = cQueues cfg, BufferSize = 0,
                  PollInterval = cPollInterval cfg, SchedulerInterval = cSchedulerInterval cfg\<rparr>
                  (NewRedisBroker (cRedisAddr cfg)) of
             None \<Rightarrow> Panics
           | Some srv \<Rightarrow>
               Starts (Server_Register (Server_Register srv ''SendEmail'' sendEmailHandler) ''FailingJob'' failingJobHandler)))"

section \<open>cmd/enqueue\<close>

record flags =
  fRedis :: string
  fQueue :: string
  fType :: string
  fPayload :: string
  fIn :: duration
  fMaxAttempts :: int
  fCount :: int

definition enqueued_line :: "(instant \<Rightarrow> string) \<Rightarrow> Job \<Rightarrow> instant option \<Rightarrow> string" where
  "enqueued_line kitchen job at = ''enqueued '' @ ID job @ ''  queue='' @ Queue job @ ''  type='' @ Type job
     @ (case at of None \<Rightarrow> '''' | Some t \<Rightarrow> ''  runs at '' @ kitchen t)"

text \<open>The loop, with the number of rounds left and the number of the round; the result is the exit
  code and the lines printed on the standard output and the standard error.\<close>

fun enqueue_loop ::
  "('p \<Rightarrow> goerr + string) \<Rightarrow> (nat \<Rightarrow> string) \<Rightarrow> (instant \<Rightarrow> string) \<Rightarrow> 's Client \<Rightarrow> flags \<Rightarrow> 'p \<Rightarrow> nat \<Rightarrow> nat \<Rightarrow> string list \<Rightarrow>
   ('u host \<times> 's, int \<times> string list \<times> string list) state" where
  "enqueue_loop mj uuids kitchen c F payload 0 i out = State_Monad.return (0, out, [])"
| "enqueue_loop mj uuids kitchen c F payload (Suc n) i out = do {
     r \<leftarrow> Client_Enqueue mj (uuids i) c (fType F) payload
            [\<lparr>oQueue = fQueue F, oIn = fIn F, oMaxAttempts = fMaxAttempts F\<rparr>];
     (case r of
        Inl err \<Rightarrow> State_Monad.return (1, out, [''enqueue failed: '' @ Error err])
      | Inr job \<Rightarrow> do {
          at \<leftarrow> (if 0 < fIn F then do { t \<leftarrow> on_host time_Now; State_Monad.return (Some (t + fIn F)) }
                else State_Monad.return None);
          enqueue_loop mj uuids kitchen c F payload n (Suc i) (out @ [enqueued_line kitchen job at]) }) }"

text \<open>The deferred \<open>Close\<close> runs when \<open>main\<close> returns; \<open>os.Exit\<close> skips it.\<close>

definition enqueue_main ::
  "(string \<Rightarrow> goerr + 'p) \<Rightarrow> ('p \<Rightarrow> goerr + string) \<Rightarrow> (nat \<Rightarrow> string) \<Rightarrow> (instant \<Rightarrow> string) \<Rightarrow> (string \<Rightarrow> 's broker) \<Rightarrow> flags \<Rightarrow>
   ('u host \<times> 's, int \<times> string list \<times> string list) state" where
  "enqueue_main parse mj uuids kitchen NewRedisBroker F =
     (case parse (fPayload F) of
        Inl err \<Rightarrow> State_Monad.return (1, [], [''invalid JSON payload: '' @ Error err])
      | Inr payload \<Rightarrow> do {
          let c = NewClient NewRedisBroker \<lparr>RedisAddr = fRedis F\<rparr>;
          r \<leftarrow> enqueue_loop mj uuids kitchen c F payload (nat (fCount F)) 0 [];
          (if fst r = 0 then do { _ \<leftarrow> Client_Close c; State_Monad.return r }
           else State_Monad.return r) })"

section \<open>Properties\<close>

lemma chain_one: "Chain h [mw] = mw h"
  by (simp add: Chain_def)

lemma run_slog [simp]: "run_state (slog lv m as) h = ((), h\<lparr>logs := logs h @ [\<lparr>level = lv, msg = m, attrs = as\<rparr>]\<rparr>)"
  by (simp add: slog_def)

text \<open>What the logging middleware passes on.\<close>

lemma Logging_result:
  assumes "\<And>h. fst (run_state (next ctx job) h) = (Returned e, job')"
  shows "\<exists>h'. run_state (runHandler ctx (LoggingMiddleware next) job) h = ((e, job'), h')"
proof -
  obtain t1 h1 where h1: "run_state time_Now h = (t1, h1)" by (rule prod.exhaust)
  obtain x h2 where h2: "run_state (do { _ \<leftarrow> slog ''INFO'' ''job started'' [(''id'', VStr (ID job)), (''type'', VStr (Type job)),
       (''queue'', VStr (Queue job)), (''attempt'', VInt (wrap64 (Attempts job + 1)))]; next ctx job }) h1 = (x, h2)" by (rule prod.exhaust)
  have "x = (Returned e, job')" using h2 assms [THEN arg_cong, of "\<lambda>z. z"] by (simp add: slog_def) (metis assms fst_conv)
  then show ?thesis using h1 h2 by (simp add: runHandler_def LoggingMiddleware_def slog_def split: prod.splits)
qed

text \<open>The registry of the server program.\<close>

lemma server_main_pool:
  assumes "server_main V mk path = Starts srv"
  shows "registry (pool srv) = [''SendEmail'' \<mapsto> sendEmailHandler, ''FailingJob'' \<mapsto> failingJobHandler]"
    "middleware (pool srv) = [LoggingMiddleware]"
  using assms
  by (auto simp: server_main_def NewServer_def NewPool_def Server_Register_def Register_def NewRegistry_def Let_def
    split: sum.splits option.splits if_splits)

text \<open>
  C39. The server program, once it has started: a job of type \<open>SendEmail\<close> is acknowledged as it is. A job of type
  \<open>FailingJob\<close> fails every time, with the number of the attempt in its error: it goes to the dead letters when the attempt
  that failed was its last, and is retried after a backoff otherwise. A job of any other type goes to the dead letters at once.
\<close>

theorem server_command_outcomes:
  assumes "server_main V NewRedisBroker path = Starts srv"
    and "run_state (run_job f2i (pool srv) ctx job) h = (a, h')"
    and "job' = job\<lparr>LastError := ''simulated failure (attempt '' @ itoa (wrap64 (Attempts job + 1)) @ '')'',
      Attempts := wrap64 (Attempts job + 1)\<rparr>"
  shows "if Type job = ''SendEmail'' then a = Ack job
    else if Type job = ''FailingJob'' then
      (if MaxAttempts job \<le> Attempts job' then a = Bury (job'\<lparr>Status := StatusDead\<rparr>)
       else \<exists>n \<in> {0..<30}. a = Retry_In (job'\<lparr>Status := StatusRetry\<rparr>) (NextDelay f2i n (Attempts job')))
    else a = Bury (job\<lparr>LastError := ''no handler registered for job type '' @ go_quote (Type job), Status := StatusDead\<rparr>)"
proof -
  note reg = server_main_pool [OF assms(1)]
  have send: "fst (run_state (sendEmailHandler ctx job) h) = (Returned None, job)" for h :: "'d host"
    by (simp add: sendEmailHandler_def time_Sleep_def)
  have failing: "fst (run_state (failingJobHandler ctx job) h) =
      (Returned (Some (ErrorString (''simulated failure (attempt '' @ itoa (wrap64 (Attempts job + 1)) @ '')''))), job)" for h :: "'d host"
    by (simp add: failingJobHandler_def)
  show ?thesis
  proof (cases "Type job = ''SendEmail''")
    case True
    from Logging_result [of sendEmailHandler ctx job None job h, OF send] obtain h1 where
      "run_state (runHandler ctx (LoggingMiddleware sendEmailHandler) job) h = ((None, job), h1)" by blast
    with True assms(2) reg show ?thesis by (simp add: run_job_def Registry_Get_def chain_one)
  next
    case ne: False
    show ?thesis
    proof (cases "Type job = ''FailingJob''")
      case True
      obtain h1 where h1: "run_state (runHandler ctx (LoggingMiddleware failingJobHandler) job) h =
          ((Some (ErrorString (''simulated failure (attempt '' @ itoa (wrap64 (Attempts job + 1)) @ '')'')), job), h1)"
        using Logging_result [of failingJobHandler ctx job _ job h, OF failing] by blast
      have "fst (run_state (rand_Intn 30) h1) \<in> {0..<30}" by (rule rand_Intn_range) simp
      then show ?thesis using True assms(2,3) reg h1
        by (auto simp: run_job_def Registry_Get_def chain_one fail_action_def Let_def split_beta)
    next
      case False
      with ne assms(2) reg show ?thesis by (simp add: run_job_def Registry_Get_def no_handler_def)
    qed
  qed
qed

definition file_viper :: "vstate viper" where
  "file_viper = simple_viper (\<lambda>_. '''') (\<lambda>_. Inl (ErrorString ''no such file'')) (\<lambda>_. None) (\<lambda>_. None)"

lemma file_viper_Load: "Load file_viper '''' = Inr defaults"
  unfolding file_viper_def
  by (rule simple.Load_settings [where m = Map.empty])
    (simp_all add: decoded_def lookup_def default_settings_def defaults_def Let_def)

theorem server_command_outcomes_witness:
  "\<exists>srv a h'. server_main file_viper (\<lambda>_. postgresBroker plain_engine) '''' = Starts srv
    \<and> run_state (run_job (\<lambda>x. x) (pool srv) \<lparr>Deadline = None, CancelledAt = None\<rparr> ((sample_job ''a'' ''q'' 0)\<lparr>Type := ''FailingJob'', MaxAttempts := 1\<rparr>)) bare_host = (a, h')
    \<and> (\<exists>j. a = Bury j \<and> LastError j = ''simulated failure (attempt 1)'')"
proof -
  let ?job = "(sample_job ''a'' ''q'' 0)\<lparr>Type := ''FailingJob'', MaxAttempts := 1\<rparr>"
  obtain srv :: "(pgworld, unit) Server" where srv: "server_main file_viper (\<lambda>_. postgresBroker plain_engine) [] = Starts srv"
    by (simp add: server_main_def file_viper_Load NewServer_def NewPool_def defaults_def wrap64_id Let_def)
  obtain a h' where run: "run_state (run_job (\<lambda>x. x) (pool srv) \<lparr>Deadline = None, CancelledAt = None\<rparr> ?job) bare_host = (a, h')"
    by (rule prod.exhaust)
  have "Attempts ?job = 0" by (simp add: sample_job_def zeroJob_def)
  moreover have "wrap64 1 = 1" "itoa 1 = ''1''" by (simp_all add: wrap64_id itoa_def decimal.simps char_of_def bit_0)
  ultimately show ?thesis using server_command_outcomes [OF srv run refl] srv run by auto
qed

definition made_for :: "flags \<Rightarrow> string \<Rightarrow> Job \<Rightarrow> bool" where
  "made_for F uuid j \<longleftrightarrow> ID j = uuid \<and> Type j = fType F \<and> Queue j = (if fQueue F = '''' then ''default'' else fQueue F)
     \<and> MaxAttempts j = (if 0 < fMaxAttempts F then fMaxAttempts F else 3) \<and> Status j = StatusPending \<and> Attempts j = 0"

definition enqueued_so_far :: "flags \<Rightarrow> (nat \<Rightarrow> string) \<Rightarrow> 's broker \<Rightarrow> 's \<Rightarrow> nat \<Rightarrow> nat \<Rightarrow> int \<Rightarrow> string list \<Rightarrow> string list \<Rightarrow> 's \<Rightarrow> bool" where
  "enqueued_so_far F uuids b s n i code out errs s' \<longleftrightarrow> (\<exists>js rs. run_state (enqueue_all b js) s = (rs, s')
     \<and> (\<forall>k < length js. made_for F (uuids (i + k)) (js ! k))
     \<and> (if code = 0 then errs = [] \<and> length js = n \<and> length out = n \<and> rs = replicate n (Inr ())
        else code = 1 \<and> length errs = 1 \<and> length out < n
          \<and> (rs = replicate (length out) (Inr ()) \<or> (\<exists>e. rs = replicate (length out) (Inr ()) @ [Inl e]))))"

lemma enqueued_more:
  assumes "run_state (Enqueue b j) s = (Inr (), s1)" "made_for F (uuids i) j"
    and "enqueued_so_far F uuids b s1 n (Suc i) code out errs s'"
  shows "enqueued_so_far F uuids b s (Suc n) i code (l # out) errs s'"
proof -
  from assms(3) obtain js rs where js: "run_state (enqueue_all b js) s1 = (rs, s')" "\<forall>k < length js. made_for F (uuids (Suc i + k)) (js ! k)"
    "if code = 0 then errs = [] \<and> length js = n \<and> length out = n \<and> rs = replicate n (Inr ())
     else code = 1 \<and> length errs = 1 \<and> length out < n \<and> (rs = replicate (length out) (Inr ()) \<or> (\<exists>e. rs = replicate (length out) (Inr ()) @ [Inl e]))"
    unfolding enqueued_so_far_def by blast
  have "\<forall>k < length (j # js). made_for F (uuids (i + k)) ((j # js) ! k)"
    using assms(2) js(2) by (auto simp: nth_Cons split: nat.split)
  moreover have "run_state (enqueue_all b (j # js)) s = (Inr () # rs, s')" using assms(1) js(1) by simp
  ultimately show ?thesis unfolding enqueued_so_far_def using js(3)
    by (intro exI [of _ "j # js"] exI [of _ "Inr () # rs"]) auto
qed

lemma Client_Enqueue_made:
  assumes "run_state (Client_Enqueue mj u c (fType F) payload
      [\<lparr>oQueue = fQueue F, oIn = fIn F, oMaxAttempts = fMaxAttempts F\<rparr>]) (h, s) = (r, (h1, s1))"
  shows "(\<exists>err. r = Inl err \<and> s1 = s)
    \<or> (\<exists>job e err. r = Inl err \<and> made_for F u job \<and> run_state (Enqueue (cbroker c) job) s = (Inl e, s1))
    \<or> (\<exists>job. r = Inr job \<and> made_for F u job \<and> run_state (Enqueue (cbroker c) job) s = (Inr (), s1))"
proof (cases "mj payload")
  case (Inl err)
  with Client_Enqueue_effect [OF assms refl] show ?thesis by simp
next
  case (Inr p)
  from Client_Enqueue_effect [OF assms refl, unfolded Inr sum.case list.case EnqueueOptions.simps] obtain job e where
    "run_state (Enqueue (cbroker c) job) s = (e, s1)" "r = (case e of Inl err \<Rightarrow> Inl (WrapError ''enqueue: '' err) | Inr _ \<Rightarrow> Inr job)"
    "made_for F u job" unfolding made_for_def by blast
  then show ?thesis by (cases e) auto
qed

lemma enqueue_loop_effect:
  assumes "run_state (enqueue_loop mj uuids kitchen c F payload n i out) (h, s) = ((code, out', errs), (h', s'))"
  shows "\<exists>lines. out' = out @ lines \<and> enqueued_so_far F uuids (cbroker c) s n i code lines errs s'"
  using assms
proof (induction n arbitrary: i out h s)
  case 0
  then show ?case by (auto simp: enqueued_so_far_def intro!: exI [of _ "[]"])
next
  case (Suc n)
  let ?opts = "[\<lparr>oQueue = fQueue F, oIn = fIn F, oMaxAttempts = fMaxAttempts F\<rparr>]"
  obtain r h1 s1 where r: "run_state (Client_Enqueue mj (uuids i) c (fType F) payload ?opts) (h, s) = (r, (h1, s1))"
    by (metis surj_pair)
  note effect = Client_Enqueue_made [OF r]
  show ?case
  proof (cases r)
    case (Inl err)
    then have stop: "code = 1" "out' = out" "length errs = 1" "s' = s1" using Suc.prems r by auto
    from effect Inl have "(s1 = s) \<or> (\<exists>job e. run_state (Enqueue (cbroker c) job) s = (Inl e, s1) \<and> made_for F (uuids i) job)"
      by (auto split: sum.splits)
    then have "enqueued_so_far F uuids (cbroker c) s (Suc n) i code [] errs s'"
    proof (elim disjE exE conjE)
      assume "s1 = s"
      then show ?thesis unfolding enqueued_so_far_def using stop by (intro exI [of _ "[]"]) simp
    next
      fix job e
      assume "run_state (Enqueue (cbroker c) job) s = (Inl e, s1)" "made_for F (uuids i) job"
      then show ?thesis unfolding enqueued_so_far_def using stop by (intro exI [of _ "[job]"] exI [of _ "[Inl e]"]) simp
    qed
    with stop(2) show ?thesis by blast
  next
    case (Inr job)
    with effect have job: "run_state (Enqueue (cbroker c) job) s = (Inr (), s1)" "made_for F (uuids i) job"
      by (auto split: sum.splits)
    obtain at h2 where "run_state (enqueue_loop mj uuids kitchen c F payload n (Suc i) (out @ [enqueued_line kitchen job at])) (h2, s1) =
        ((code, out', errs), (h', s'))"
      using Suc.prems r Inr by (auto split: if_splits prod.splits)
    from Suc.IH [OF this] obtain lines where
      "out' = (out @ [enqueued_line kitchen job at]) @ lines" "enqueued_so_far F uuids (cbroker c) s1 n (Suc i) code lines errs s'" by blast
    with enqueued_more [where uuids = uuids, OF job, of n code lines errs s' "enqueued_line kitchen job at"] show ?thesis by auto
  qed
qed

text \<open>
  C40. The command-line client: exit code 0 means that exactly \<open>-count\<close> jobs were enqueued (none for a count that is not
  positive), one after the other, with the identifiers drawn, the type, queue and limit of the
  flags, every call of the broker having succeeded, and one line printed for each. Otherwise
  the exit code is 1, there is one error message, and exactly the jobs for which a line was printed were
  enqueued successfully; at most one more call of the broker was made, and it failed. The connection is
  closed in the first case only.
\<close>

theorem enqueue_command:
  assumes "run_state (enqueue_main parse mj uuids kitchen NewRedisBroker F) (h, s) = ((code, out, errs), (h', s'))"
  shows "\<exists>js rs s1. run_state (enqueue_all (NewRedisBroker (fRedis F)) js) s = (rs, s1)
     \<and> s' = (if code = 0 then snd (run_state (Close (NewRedisBroker (fRedis F))) s1) else s1)
     \<and> (\<forall>k < length js. made_for F (uuids k) (js ! k))
     \<and> (if code = 0 then errs = [] \<and> length js = nat (fCount F) \<and> length out = nat (fCount F) \<and> rs = replicate (nat (fCount F)) (Inr ())
        else code = 1 \<and> length errs = 1 \<and> (rs = replicate (length out) (Inr ()) \<or> (\<exists>e. rs = replicate (length out) (Inr ()) @ [Inl e])))"
proof (cases "parse (fPayload F)")
  case (Inl err)
  with assms show ?thesis by (intro exI [of _ "[]"]) (auto simp: enqueue_main_def)
next
  case (Inr p)
  define c where "c = NewClient NewRedisBroker \<lparr>RedisAddr = fRedis F\<rparr>"
  have c: "cbroker c = NewRedisBroker (fRedis F)" by (simp add: c_def NewClient_def)
  obtain r h1 s1 where r: "run_state (enqueue_loop mj uuids kitchen c F p (nat (fCount F)) 0 []) (h, s) = (r, (h1, s1))"
    by (metis surj_pair)
  then have end': "r = (code, out, errs)" "s' = (if code = 0 then snd (run_state (Close (cbroker c)) s1) else s1)"
    using assms Inr by (auto simp: enqueue_main_def Client_Close_def c_def [symmetric] split: if_splits prod.splits)
  from enqueue_loop_effect [OF r [unfolded end'(1)]] have
    "enqueued_so_far F uuids (cbroker c) s (nat (fCount F)) 0 code out errs s1" by auto
  then obtain js rs where "run_state (enqueue_all (cbroker c) js) s = (rs, s1)" "\<forall>k < length js. made_for F (uuids k) (js ! k)"
    "if code = 0 then errs = [] \<and> length js = nat (fCount F) \<and> length out = nat (fCount F) \<and> rs = replicate (nat (fCount F)) (Inr ())
     else code = 1 \<and> length errs = 1 \<and> length out < nat (fCount F)
       \<and> (rs = replicate (length out) (Inr ()) \<or> (\<exists>e. rs = replicate (length out) (Inr ()) @ [Inl e]))"
    unfolding enqueued_so_far_def add_0 by blast
  then show ?thesis using end'(2) unfolding c by (intro exI [of _ js] exI [of _ rs] exI [of _ s1]) (simp split: if_splits)
qed

theorem enqueue_command_witness:
  "\<exists>out errs h' s' js rs code s1. run_state (enqueue_main Inr Inr (\<lambda>n. if n = 0 then ''a'' else ''b'') (\<lambda>_. '''') (\<lambda>_. postgresBroker plain_engine)
      \<lparr>fRedis = '''', fQueue = '''', fType = ''SendEmail'', fPayload = ''{}'', fIn = 0, fMaxAttempts = 0, fCount = 2\<rparr>) (bare_host, pg_empty)
      = ((code, out, errs), (h', s'))
    \<and> run_state (enqueue_all (postgresBroker plain_engine) js) pg_empty = (rs, s1) \<and> (code = 0 \<longrightarrow> length js = 2) \<and> code \<in> {0, 1}"
proof -
  let ?F = "\<lparr>fRedis = '''', fQueue = '''', fType = ''SendEmail'', fPayload = ''{}'', fIn = 0, fMaxAttempts = 0, fCount = 2\<rparr>"
    and ?u = "\<lambda>n :: nat. if n = 0 then ''a'' else ''b''"
  obtain code out errs h' s' where run: "run_state (enqueue_main Inr Inr ?u (\<lambda>_. '''') (\<lambda>_. postgresBroker plain_engine) ?F) (bare_host, pg_empty)
    = ((code, out, errs), (h', s'))" by (metis surj_pair)
  from enqueue_command [OF run] obtain js rs s1 where
    *: "run_state (enqueue_all (postgresBroker plain_engine) js) pg_empty = (rs, s1)"
      "if code = 0 then errs = [] \<and> length js = nat 2 \<and> length out = nat 2 \<and> rs = replicate (nat 2) (Inr ())
       else code = 1 \<and> length errs = 1 \<and> (rs = replicate (length out) (Inr ()) \<or> (\<exists>e. rs = replicate (length out) (Inr ()) @ [Inl e]))"
    unfolding flags.simps by blast
  from *(2) have "code = 0 \<longrightarrow> length js = 2" "code \<in> {0, 1}" by (simp_all split: if_splits)
  with run *(1) show ?thesis by blast
qed

end
