(* ===== verification/Dashboard_Properties.thy ===== *)
theory Dashboard_Properties
  imports Cluster_Properties Dashboard Redis_Reads
begin

text \<open>
  The dashboard in front of the Redis broker: which requests change which jobs, and how the
  broker's defect in listing retrying jobs shows.
\<close>

section \<open>What a request does to the jobs\<close>

context broker_contract
begin

lemma serve_phases:
  assumes "inv s" "run_state (serve W B req e) s = (resp, s')"
  shows "inv s' \<and> (phase s' = phase s \<or> (\<exists>i. e = ERetry i \<and> phase s i = Buried \<and> phase s' = (phase s)(i := Queued))
    \<or> (\<exists>i. e = EDelete i \<and> phase s' = (phase s)(i := Gone)))"
proof (cases e)
  case EQueues
  obtain r u where u: "run_state (GetQueueStats B) s = (r, u)" by (rule prod.exhaust)
  with assms(2) EQueues GetQueueStats_spec [OF assms(1) u] show ?thesis by (simp add: handleGetQueues_def)
next
  case EList
  obtain r u where u: "run_state (GetJobsByStatus B (list_status req) (list_limit req)) s = (r, u)" by (rule prod.exhaust)
  with assms(2) EList GetJobsByStatus_spec [OF assms(1) u] show ?thesis by (simp add: handleListJobs_def)
next
  case (EJob i)
  obtain r u where u: "run_state (GetJob B i) s = (r, u)" by (rule prod.exhaust)
  with assms(2) EJob GetJob_spec [OF assms(1) u] show ?thesis by (simp add: handleGetJob_def)
next
  case (ERetry i)
  obtain r u where u: "run_state (RetryDeadJob B i) s = (r, u)" by (rule prod.exhaust)
  with assms(2) ERetry RetryDeadJob_spec [OF assms(1) u] show ?thesis by (auto simp: handleRetryJob_def)
next
  case (EDelete i)
  obtain r u where u: "run_state (DeleteJob B i) s = (r, u)" by (rule prod.exhaust)
  with assms(2) EDelete DeleteJob_spec [OF assms(1) u] show ?thesis by (auto simp: handleDeleteJob_def phase_change_def)
qed (use assms in auto)

lemma ServeHTTP_phases:
  assumes "inv s" "run_state (ServeHTTP (NewDashServer W B) req) s = (resp, s')"
  shows "inv s' \<and> (phase s' = phase s
    \<or> (\<exists>i. Method req = ''POST'' \<and> retry_path (Path req) = Some i \<and> phase s i = Buried \<and> phase s' = (phase s)(i := Queued))
    \<or> (\<exists>i. Method req = ''DELETE'' \<and> job_path (Path req) = Some i \<and> phase s' = (phase s)(i := Gone)))"
proof (cases "endpoint (Method req) (Path req)")
  case None
  with assms show ?thesis by (simp add: ServeHTTP_routes)
next
  case (Some e)
  have "run_state (serve W B req e) s = (resp, s')" using assms(2) Some by (simp add: ServeHTTP_routes)
  from serve_phases [OF assms(1) this] Some show ?thesis
    by (auto simp: endpoint_def split: if_splits option.splits)
qed

end

text \<open>
  The dashboard cannot lose work: a request to a dashboard on the Redis broker leaves every job
  where it is, with two exceptions. A POST request for the retry action of a dead job may
  bring that job back, and a DELETE request for a job may remove that job. No request
  touches any other job, breaks the invariant of the store, or disturbs a job a
  worker is running otherwise than by deleting it; and that with requests to the server failing
  or losing their replies.
\<close>

lemma dashboard_keeps_jobs:
  assumes "redis_broker R view C storable canon" "redis_inv view C storable w"
    and "run_state (ServeHTTP (NewDashServer W (redisBroker C R)) req) w = (resp, w')"
  shows "redis_inv view C storable w' \<and> (redis_phase view w' = redis_phase view w
    \<or> (\<exists>i. Method req = ''POST'' \<and> retry_path (Path req) = Some i \<and> redis_phase view w i = Buried
         \<and> redis_phase view w' = (redis_phase view w)(i := Queued))
    \<or> (\<exists>i. Method req = ''DELETE'' \<and> job_path (Path req) = Some i \<and> redis_phase view w' = (redis_phase view w)(i := Gone)))"
  by (rule broker_contract.ServeHTTP_phases [OF redis_broker.redis_contract [OF assms(1)] assms(2,3)])

definition plain_site :: site where
  "plain_site = \<lparr>jsonEncode = (\<lambda>v. Inr (case v of MapVal kvs \<Rightarrow> concat (map snd kvs) | _ \<Rightarrow> ''{}'')), uiFile = Inr ''<html>'',
     promHandler = (\<lambda>req. \<lparr>Code = 200, Headers = [], Body = ''''\<rparr>)\<rparr>"

lemma dashboard_keeps_jobs_sample:
  "\<exists>resp w'. run_state (ServeHTTP (NewDashServer plain_site (redisBroker text_codec mem_redis))
       \<lparr>Method = ''GET'', Path = [''api'', ''v1'', ''jobs'', ''a''], Query = []\<rparr>)
       (mem_world 0 (queued_store (sample_job ''a'' ''q'' 0)) [Failed 1]) = (resp, w')
    \<and> redis_phase map_of w' = redis_phase map_of (mem_world 0 (queued_store (sample_job ''a'' ''q'' 0)) [Failed 1])"
proof -
  let ?req = "\<lparr>Method = ''GET'', Path = [''api'', ''v1'', ''jobs'', ''a''], Query = []\<rparr>"
    and ?w = "mem_world 0 (queued_store (sample_job ''a'' ''q'' 0)) [Failed 1]"
  have inv: "redis_inv map_of text_codec (\<lambda>_. True) ?w"
    using queued_store_placed [of "nameable (\<lambda>_. True)" "sample_job ''a'' ''q'' 0"]
    by (simp add: redis_inv_def winv_def nameable_def once_def)
  obtain resp w' where run: "run_state (ServeHTTP (NewDashServer plain_site (redisBroker text_codec mem_redis)) ?req) ?w = (resp, w')"
    by (rule prod.exhaust)
  from dashboard_keeps_jobs [OF mem_text_broker.redis_broker_axioms inv run] run show ?thesis by auto
qed

section \<open>What a request is answered\<close>

text \<open>
  C36. The dashboard cannot list jobs that wait for a retry: as long as any retry set of Redis has a job, the
  request for the jobs with status retry is answered with an internal server error; only without any such
  job is it answered with a list, the empty one. (All requests to Redis executed and answered.)
\<close>

theorem dashboard_retry_listing:
  assumes "redis_server R view" "reliable w" "typed (view (store w))"
    and "Method req = ''GET''" "Path req = [''api'', ''v1'', ''jobs'']" "Query_Get req ''status'' = StatusRetry"
    and "run_state (ServeHTTP (NewDashServer W (redisBroker C R)) req) w = (resp, w')"
  shows "if (\<forall>q. retrying (view (store w)) q = []) then resp = writeJSON W 200 (JobsVal []) else Code resp = 500"
proof -
  obtain r u where u: "run_state (redis_GetJobsByStatus C R StatusRetry (list_limit req)) w = (r, u)" by (rule prod.exhaust)
  have st: "list_status req = StatusRetry" using assms(6) by (simp add: list_status_def StatusRetry_def)
  have "run_state (handleListJobs W (redisBroker C R) req) w = (resp, w')"
    using assms(7) unfolding ServeHTTP_routes by (simp add: endpoint_def assms(4,5))
  then have "resp = (case r of (jobs, Some err) \<Rightarrow> writeError W StatusInternalServerError (Error err)
       | (jobs, None) \<Rightarrow> writeJSON W StatusOK (JobsVal (case jobs of None \<Rightarrow> [] | Some js \<Rightarrow> js)))"
    using u st by (simp add: handleListJobs_def redisBroker_def)
  with redis_server.reliable_retry_listing [OF assms(1-3) list_limit_positive u] show ?thesis
    by (auto simp: writeError_def writeJSON_def status_defs split: if_splits)
qed

theorem dashboard_retry_listing_witness:
  "\<exists>resp w'. run_state (ServeHTTP (NewDashServer plain_site (redisBroker text_codec mem_redis))
       \<lparr>Method = ''GET'', Path = [''api'', ''v1'', ''jobs''], Query = [(''status'', StatusRetry)]\<rparr>)
       (mem_world 0 [(retryKey ''q'', RZset [(7, ''a'')])] []) = (resp, w') \<and> Code resp = 500"
proof -
  let ?req = "\<lparr>Method = ''GET'', Path = [''api'', ''v1'', ''jobs''], Query = [(''status'', StatusRetry)]\<rparr>"
    and ?w = "mem_world 0 [(retryKey ''q'', RZset [(7, ''a'')])] []"
  have ks: "map_of (store ?w) = put (retryKey ''q'') (RZset [(7, ''a'')]) Map.empty" by (simp add: put_def fun_eq_iff)
  have pre: "reliable ?w" "typed (map_of (store ?w))" "retrying (map_of (store ?w)) ''q'' \<noteq> []"
    by (simp add: reliable_def) (simp_all only: ks, simp_all)
  have req: "Method ?req = ''GET''" "Path ?req = [''api'', ''v1'', ''jobs'']" "Query_Get ?req ''status'' = StatusRetry"
    by (simp_all add: Query_Get_def)
  obtain resp w' where run: "run_state (ServeHTTP (NewDashServer plain_site (redisBroker text_codec mem_redis)) ?req) ?w = (resp, w')"
    by (rule prod.exhaust)
  have "\<not> (\<forall>q. retrying (map_of (store ?w)) q = [])" using pre(3) by blast
  with dashboard_retry_listing [OF mem.redis_server_axioms pre(1,2) req run] have "Code resp = 500" by (simp only: if_False)
  with run show ?thesis by blast
qed

end
