(* ===== verification/Dashboard_Command.thy ===== *)
theory Dashboard_Command
  imports Commands Dashboard_Properties
begin

text \<open>
  The program \<open>cmd/dashboard\<close>: its setup, its HTTP server with the requests it has accepted and answered, and its shutdown, as
  a step relation over the process and the broker.
\<close>

section \<open>The program\<close>

text \<open>What \<open>main\<close> has set up when the goroutine of the HTTP server is started.\<close>

record 's dash_setup =
  sAddr :: string
  sRedisAddr :: string
  sDash :: "'s DashServer"

definition dashboard_main ::
  "'v viper \<Rightarrow> (string \<Rightarrow> 's broker) \<Rightarrow> site \<Rightarrow> string \<Rightarrow> 's dash_setup program" where
  "dashboard_main V NewRedisBroker W configPath =
     (case Load V configPath of
        Inl err \<Rightarrow> Exits 1
      | Inr cfg \<Rightarrow> Starts \<lparr>sAddr = cDashboardAddr cfg, sRedisAddr = cRedisAddr cfg,
          sDash = NewDashServer W (NewRedisBroker (cRedisAddr cfg))\<rparr>)"

text \<open>The goroutine: not yet scheduled, in \<open>ListenAndServe\<close> before it listens, accepting connections, or done: with
  an error that was logged, or with \<open>ErrServerClosed\<close>.\<close>

datatype listener = LStarting | LListening | LServing | LFailed | LClosed

text \<open>The main goroutine: waiting for the signal, in \<open>Shutdown\<close>, before the broker is closed, or returned.\<close>

datatype dashpc = AwaitSignal | InShutdown | Closing | Returned_Main

record 'u dash_proc =
  phost :: "'u host"
  listener :: listener
  accepted :: "Request list"
  answered :: "(Request \<times> Response) list"
  pmain :: dashpc
  signalled :: bool

definition dash_start :: "'u host \<Rightarrow> 'u dash_proc" where
  "dash_start h = \<lparr>phost = h, listener = LStarting, accepted = [], answered = [], pmain = AwaitSignal, signalled = False\<rparr>"

definition dash_log :: "string \<Rightarrow> string \<Rightarrow> (string \<times> logval) list \<Rightarrow> 'u dash_proc \<Rightarrow> 'u dash_proc" where
  "dash_log lv m as p = p\<lparr>phost := snd (run_state (slog lv m as) (phost p))\<rparr>"

text \<open>\<open>Shutdown\<close> makes \<open>ListenAndServe\<close> return \<open>ErrServerClosed\<close>, takes no new connection, and waits for the requests
  that were accepted; it returns an error when its five seconds are over first, or when
  closing the listener fails.\<close>

inductive dash_step :: "'s dash_setup \<Rightarrow> 'u dash_proc \<times> 's \<Rightarrow> 'u dash_proc \<times> 's \<Rightarrow> bool"
  for D :: "'s dash_setup" where
  signal: "pmain p \<noteq> Returned_Main \<Longrightarrow> dash_step D (p, s) (p\<lparr>signalled := True\<rparr>, s)"
| starting: "pmain p \<noteq> Returned_Main \<Longrightarrow> listener p = LStarting \<Longrightarrow>
    dash_step D (p, s) (dash_log ''INFO'' ''dashboard starting''
      [(''addr'', VStr (sAddr D)), (''redis_addr'', VStr (sRedisAddr D))] (p\<lparr>listener := LListening\<rparr>), s)"
| listening: "pmain p = AwaitSignal \<Longrightarrow> listener p = LListening \<Longrightarrow> dash_step D (p, s) (p\<lparr>listener := LServing\<rparr>, s)"
| failed: "pmain p \<noteq> Returned_Main \<Longrightarrow> listener p = LListening \<or> listener p = LServing \<and> pmain p = AwaitSignal \<Longrightarrow>
    dash_step D (p, s) (dash_log ''ERROR'' ''server error'' [(''error'', VErr (Some err))] (p\<lparr>listener := LFailed\<rparr>), s)"
| closed: "pmain p \<in> {InShutdown, Closing} \<Longrightarrow> listener p \<in> {LListening, LServing} \<Longrightarrow>
    dash_step D (p, s) (p\<lparr>listener := LClosed\<rparr>, s)"
| accept: "pmain p = AwaitSignal \<Longrightarrow> listener p = LServing \<Longrightarrow>
    dash_step D (p, s) (p\<lparr>accepted := accepted p @ [req]\<rparr>, s)"
| answer: "pmain p \<noteq> Returned_Main \<Longrightarrow> accepted p = xs @ req # ys \<Longrightarrow> run_state (ServeHTTP (sDash D) req) s = (resp, s') \<Longrightarrow>
    dash_step D (p, s) (p\<lparr>accepted := xs @ ys, answered := answered p @ [(req, resp)]\<rparr>, s')"
| shutting_down: "pmain p = AwaitSignal \<Longrightarrow> signalled p \<Longrightarrow>
    dash_step D (p, s) (dash_log ''INFO'' ''dashboard shutting down'' [] (p\<lparr>pmain := InShutdown\<rparr>), s)"
| drained: "pmain p = InShutdown \<Longrightarrow> accepted p = [] \<Longrightarrow> dash_step D (p, s) (p\<lparr>pmain := Closing\<rparr>, s)"
| shutdown_error: "pmain p = InShutdown \<Longrightarrow>
    dash_step D (p, s) (dash_log ''ERROR'' ''shutdown error'' [(''error'', VErr (Some err))] (p\<lparr>pmain := Closing\<rparr>), s)"
| close: "pmain p = Closing \<Longrightarrow> run_state (close_broker (dash_broker (sDash D))) (phost p, s) = (u, (h, s')) \<Longrightarrow>
    dash_step D (p, s) (p\<lparr>pmain := Returned_Main, phost := h\<rparr>, s')"

section \<open>Invariants of the program\<close>

definition logged :: "string \<Rightarrow> 'u dash_proc \<Rightarrow> bool" where
  "logged m p \<longleftrightarrow> m \<in> set (map msg (logs (phost p)))"

lemma dash_log_sel [simp]:
  "listener (dash_log lv m as p) = listener p" "accepted (dash_log lv m as p) = accepted p"
  "answered (dash_log lv m as p) = answered p" "pmain (dash_log lv m as p) = pmain p" "signalled (dash_log lv m as p) = signalled p"
  "logged m' (dash_log lv m as p) \<longleftrightarrow> m' = m \<or> logged m' p"
  by (auto simp: dash_log_def logged_def slog_def)

lemma logged_upd [simp]:
  "logged m (p\<lparr>listener := l\<rparr>) = logged m p" "logged m (p\<lparr>pmain := c\<rparr>) = logged m p" "logged m (p\<lparr>signalled := b\<rparr>) = logged m p"
  "logged m (p\<lparr>accepted := a\<rparr>) = logged m p" "logged m (p\<lparr>accepted := a, answered := r\<rparr>) = logged m p"
  by (simp_all add: logged_def)

lemma close_broker_logs:
  "run_state (close_broker b) (h, s) = (u, (h', s')) \<Longrightarrow> set (logs h) \<subseteq> set (logs h') \<and> s' = snd (run_state (Close b) s)"
  by (auto simp: close_broker_def slog_def split: sum.splits prod.splits)

definition dash_inv :: "'u dash_proc \<Rightarrow> bool" where
  "dash_inv p \<longleftrightarrow> (pmain p \<noteq> AwaitSignal \<longrightarrow> signalled p)
     \<and> (pmain p \<in> {Closing, Returned_Main} \<longrightarrow> accepted p = [] \<or> logged ''shutdown error'' p)"

lemma dash_step_inv:
  assumes "dash_step D (p, s) (p', s')" "dash_inv p"
  shows "dash_inv p'"
  using assms(1)
proof cases
  case (close u h)
  with close_broker_logs [OF close(3)] assms(2) show ?thesis by (auto simp: dash_inv_def logged_def)
qed (use assms(2) in \<open>auto simp: dash_inv_def\<close>)

text \<open>A request that may move the job \<open>i\<close>.\<close>

definition touches :: "string \<Rightarrow> Request \<Rightarrow> bool" where
  "touches i req \<longleftrightarrow> Method req = ''POST'' \<and> retry_path (Path req) = Some i \<or> Method req = ''DELETE'' \<and> job_path (Path req) = Some i"

context broker_contract
begin

lemma dash_step_phases:
  assumes "dash_step D (p, s) (p', s')" "inv s" "sDash D = NewDashServer W B"
  shows "inv s' \<and> (\<forall>i. (\<forall>(req, resp) \<in> set (answered p'). \<not> touches i req) \<longrightarrow> phase s' i = phase s i)
    \<and> set (answered p) \<subseteq> set (answered p')"
  using assms(1)
proof cases
  case (answer xs req ys resp)
  have "run_state (ServeHTTP (NewDashServer W B) req) s = (resp, s')" using answer assms(3) by simp
  from ServeHTTP_phases [OF assms(2) this] answer show ?thesis by (auto simp: touches_def)
next
  case (close u h)
  obtain r s1 where c: "run_state (Close B) s = (r, s1)" by (rule prod.exhaust)
  with close_broker_logs [OF close(3)] assms(3) have "s' = s1" by (simp add: NewDashServer_def)
  with Close_spec [OF assms(2) c] close show ?thesis by simp
qed (use assms(2) in auto)

lemma dash_run_phases:
  assumes "(dash_step D)\<^sup>*\<^sup>* (dash_start h, s) c" "inv s" "sDash D = NewDashServer W B"
  shows "inv (snd c) \<and> dash_inv (fst c)
    \<and> (\<forall>i. (\<forall>(req, resp) \<in> set (answered (fst c)). \<not> touches i req) \<longrightarrow> phase (snd c) i = phase s i)"
  using assms(1)
proof (induction rule: rtranclp_induct)
  case base
  then show ?case using assms(2) by (simp add: dash_inv_def dash_start_def)
next
  case (step c d)
  obtain p s1 p' s2 where cd: "c = (p, s1)" "d = (p', s2)" by (cases c; cases d)
  from dash_step_phases [of D p s1 p' s2 W] dash_step_inv [of D p s1 p' s2] step assms(3) cd show ?case by fastforce
qed

end

section \<open>Property\<close>



end
