(* ===== verification/Spec2Isabelle.thy ===== *)
theory Spec2Isabelle
  imports Redis_Concurrent Redis_Reads Postgres_Properties Cluster_Properties Worker_Properties Shutdown
    Dashboard_Command
begin

text \<open>
  \<^bold>\<open>Mini-Sidekiq, verified.\<close> The program (\<open>src/\<close>, Go) is a distributed job queue. A client enqueues
  jobs in a broker, which is Redis or PostgreSQL. Any number of server processes take jobs out of the broker and run
  registered handlers on them; a job whose handler fails is retried with a growing delay until its attempts are used
  up, and is then a dead letter. A dashboard shows and edits what is in the broker.

  \<^bold>\<open>The parts and how they interact.\<close> A server process (\<open>Server.Run\<close>) runs three kinds of goroutines around one
  \<open>Broker\<close>: the dispatcher polls the queues in a weighted order and hands the jobs it claims to a channel of bounded
  capacity; the workers receive from the channel, run the handler through the chain of middlewares, and record the outcome by one call
  of the broker (\<open>Acknowledge\<close>, \<open>Requeue\<close> or \<open>MoveToDeadLetter\<close>); the scheduler has the broker promote the jobs
  whose time has come. The processes share nothing but the broker.

  \<^bold>\<open>Which theory models what.\<close> Names are those of the source wherever possible.

  \<^item> \<open>Prelude\<close>: errors (\<open>goerr\<close>), the wrap-around of Go's \<open>int\<close> (\<open>wrap64\<close>), time as an integer number of
    nanoseconds, the clock of a process, state transformers with invariants (\<open>keeps\<close>) and simulations (\<open>sim\<close>), and the
    collections \<open>keep_intro\<close> and \<open>sim_intro\<close> the component proofs are driven by.
  \<^item> \<open>Job\<close> (\<open>job.go\<close>): the record \<open>Job\<close>, its statuses, \<open>NewJob\<close>.
  \<^item> \<open>Broker\<close> (\<open>internal/broker/broker.go\<close>): the interface as a record of methods, each a state transformer that
    returns its error as a value; histories of calls (\<open>run_calls\<close>).
  \<^item> \<open>Broker_Contract\<close>: the abstract specification. The locale \<open>broker_contract\<close> sees every job in one of the phases
    gone, queued, running or buried and says what each method may do to the phases, on errors too.
  \<^item> \<open>Redis_Server\<close>, \<open>Redis_Client\<close>, \<open>Codec\<close>: what \<open>redis.go\<close> relies on outside the repository. The server's commands are
    an argument; the locale \<open>redis_server\<close> has their documented behaviour as a simulation of a keyspace. The network is the
    environment: each request can be executed with its reply lost, not at all, several times (the client library resends), and a
    pipeline can be cut off anywhere. The encoders of records are the locale \<open>job_codec\<close>. Both locales are interpreted, on a
    server that keeps its keyspace in an association list (\<open>mem\<close>) and on a printed form of records (\<open>text_fmt\<close>).
  \<^item> \<open>Redis_Scripts\<close>, \<open>Redis_Broker\<close> (\<open>internal/broker/redis.go\<close>): the six Lua scripts and all methods, over arbitrary server
    commands, and that each method behaves on a server as on the keyspace it stands for.
  \<^item> \<open>Redis_Requests\<close>, \<open>Redis_Concurrent\<close>: the methods that change state once more, as the sequences of their steps (a look at the clock, one
    execution of a request, one command of a pipeline), with the proof that the steps run alone make the method. \<open>conc_step\<close> interleaves the steps of any
    number of calls; what every step keeps (\<open>step_keeps\<close>) holds in all interleavings. Calls that only read are one step.
  \<^item> \<open>Redis_Store\<close>, \<open>Redis_Places\<close>, \<open>Redis_Safety\<close>, \<open>Redis_Contract\<close>, \<open>Redis_Functional\<close>, \<open>Redis_Queues\<close>, \<open>Redis_Reads\<close>: the lemmas. The
    abstract content of the database and where each job is in it; what holds of every call on every network (types of keys, no
    job lost); the contract, on a network that executes no request twice; exact results of the methods on a reliable network.
  \<^item> \<open>Postgres_Broker\<close>, \<open>Postgres_Contract\<close>, \<open>Postgres_Properties\<close> (\<open>internal/broker/postgres.go\<close>): the table as a list of rows, each SQL
    statement as a function on it, the constraints of the schema, \<open>NewPostgresBroker\<close>, all methods; the contract.
  \<^item> \<open>Retry\<close> (\<open>internal/retry\<close>), \<open>Middleware\<close> (\<open>internal/middleware\<close>), \<open>Worker\<close> (\<open>internal/worker\<close>), \<open>Dispatcher\<close>
    (\<open>internal/dispatcher\<close>, \<open>internal/scheduler\<close>), \<open>Server\<close> (\<open>pkg/client\<close>): the components of a process. Handlers are arbitrary
    state transformers of the process that may return, fail or panic. \<open>process\<close> is the code of a worker; \<open>run_job\<close> and
    \<open>record_action\<close> are its two halves, and \<open>process_split\<close> proves that they make up the whole. \<open>node_step\<close> interleaves the goroutines of one server, one
    broker call at a time (a call of the broker is one step there), with cancellation and with the death of the process at any moment; \<open>cluster_step\<close> puts any number of servers and other
    clients around one broker.
  \<^item> \<open>Cluster\<close>: what follows from the contract for every run of a cluster, proved once in \<open>broker_contract\<close>;
    \<open>Cluster_Properties\<close> has the results for both brokers, \<open>Worker_Properties\<close>, \<open>Server_Properties\<close> and \<open>Shutdown\<close> what
    concerns one server. \<open>Samples\<close> and \<open>Cluster_Samples\<close> have the concrete inputs on which properties are instantiated.
  \<^item> \<open>Dashboard\<close>, \<open>Dashboard_Properties\<close> (\<open>internal/dashboard\<close>): the handlers, the routes, net/http's choice among them.
  \<^item> \<open>Config_Load\<close> (\<open>config/config.go\<close>): \<open>Load\<close> over an arbitrary viper, whose documentation is the locale \<open>viper_docs\<close>.
  \<^item> \<open>Commands\<close> and \<open>Dashboard_Command\<close> (\<open>cmd/\<close>): the three programs. The dashboard program is a step relation over its
    goroutines and the requests in flight.

  \<^bold>\<open>What is shown.\<close> For clusters (\<open>Cluster_Properties\<close>), in all interleavings, with lost replies, shutdowns and kills: no job is ever with two
  workers, a job leaves the broker only when its handler has succeeded or it was deleted, and a job that was claimed and is with no server
  stays claimed for ever. For the brokers: both refine the specification (this theory); Redis loses no job and keeps the types of its keys under
  every behaviour of the network, one call after the other and in every interleaving of the requests of calls side by side
  (\<open>Redis_Concurrent\<close>, which also has the race in which two schedulers promote a job too early), Postgres keeps its constraints from the moment of connecting; and the exact effect of the methods,
  first in first out, promotion, idempotence and its absence, listings and statistics (\<open>Redis_Properties\<close>, \<open>Redis_Reads\<close>, \<open>Postgres_Properties\<close>). For one
  server: the outcome of every job, the bound on the jobs it holds, the state after shutdown, that shutdown terminates, and that it can leave
  a job behind; backoff and its overflow; fair polling; the order of middlewares and that the built-in ones are transparent; the client and the construction of a
  server. For the dashboard, the configuration and the programs: routing, that requests move no job but the one they name, over
  whole runs of the program too, where settings come from, and what the commands have done when they exit.

  \<^bold>\<open>Termination, fuel and bounds.\<close> No definition uses fuel: every loop of the source that ends by itself is a recursion over a list or a
  number, and the loops that run until a context is done (dispatcher, scheduler, workers, the dashboard's main) are step relations, whose runs may be of any
  length. Integers are unbounded in HOL; wherever the source computes with an \<open>int\<close> that could overflow
  (attempts, the dispatcher's counter, the backoff, the buffer size) the definition wraps at 64 bits, and the columns of the Postgres table are
  checked at 32. The float64 arithmetic of the backoff is modelled with its rounding; the conversion of numbers beyond int64,
  which Go leaves to the platform, is the argument \<open>f2i\<close>. In a handler that is handed to a worker, running is one step: results on shutdown are about handlers that return.

  \<^bold>\<open>Environment.\<close> The clock moves forward by any amount between two readings. In Redis, \<open>faults\<close> decides what happens to each
  request; in Postgres, \<open>replies\<close> which replies are lost and \<open>locked\<close> which rows other transactions hold locked. A context that ends during a
  call, timeouts of the bookkeeping calls included, is a call that fails. The guarantees that involve the contract of
  the Redis broker assume that no request is executed twice; that no job is lost and that keys keep their types does not.

  \<^bold>\<open>Not modelled.\<close> The page \<open>internal/dashboard/ui\<close> (browser code over the HTTP API) and the tests; parsing of flags; the delivery
  of signals, beyond that one may come at any time; log lines of the server and enqueue programs outside handlers and components; the mutex of the registry, which only
  serializes; registration of the Prometheus collectors (\<open>init\<close> in \<open>metrics.go\<close>); handlers that end their goroutine with \<open>runtime.Goexit\<close>; a table
  \<open>jobs\<close> with columns other than those of the schema.
\<close>

text \<open>
  C5. Both brokers implement one specification. It sees a job in one of four phases (waiting, running, dead, gone) and says of
  every method which phases it may change: a fresh job that is enqueued waits; \<open>Dequeue\<close> makes one waiting job run, hands
  out no other, and on an error has claimed at most one; acknowledging, requeuing and burying move exactly the
  running job they name; promotion moves nothing between phases; retrying moves a dead job only; reading and closing change nothing; and a
  method that reports an error has either taken its effect or none. The Redis broker does so for every
  server that behaves as documented and loses requests and replies but resends none, the Postgres
  broker for every engine that meets the rows of its table, whatever statements fail and replies are lost.
\<close>

theorem brokers_implement_contract:
  assumes "redis_broker R view C storable canon" "postgres E"
  shows "broker_contract (redisBroker C R) (redis_inv view C storable) (redis_phase view) (nameable storable)
       (\<lambda>w j. redis_phase view w (ID j) = Gone)
    \<and> broker_contract (postgresBroker E) pg_inv pg_phase (\<lambda>_. True) pg_fresh"
  using redis_broker.redis_contract [OF assms(1)] postgres.postgres_contract [OF assms(2)] by blast

theorem brokers_implement_contract_witness:
  "broker_contract (redisBroker text_codec mem_redis) (redis_inv map_of text_codec (\<lambda>_. True)) (redis_phase map_of) (nameable (\<lambda>_. True))
       (\<lambda>w j. redis_phase map_of w (ID j) = Gone)
    \<and> broker_contract (postgresBroker plain_engine) pg_inv pg_phase (\<lambda>_. True) pg_fresh"
  by (rule brokers_implement_contract [OF mem_text_broker.redis_broker_axioms plain.postgres_axioms])

end
